(* ===== verification/Prelude.thy ===== *)
theory Prelude
  imports Main "HOL-Library.Word" "HOL-Library.Monad_Syntax"
begin

text \<open>
  Shared vocabulary of the development: the Go machine types, Go's checked slice
  operations, durations and times, and the generic lemmas the component theories
  share.

  \<^item> \<open>uint8/16/32/64\<close> are words of that width. A Go \<open>int\<close> and a
    \<open>time.Duration\<close> (an \<open>int64\<close>) are HOL integers; where an operation on them can
    leave the 64-bit range the model writes \<open>wrap64\<close> around it.
  \<^item> A \<open>time.Time\<close> is the number of nanoseconds since Go's zero time, so
    \<open>IsZero\<close> is \<open>t = 0\<close>; \<open>Time.Sub\<close> saturates, as in package \<open>time\<close>.
  \<^item> An operation that panics on a bad index returns \<open>None\<close>. A function that uses such
    operations is written in the option monad, and a theorem that it returns \<open>Some\<close> is the
    theorem that it never panics.
\<close>

unbundle bit_operations_syntax

subsection \<open>Types\<close>

type_synonym u8 = "8 word"
type_synonym u16 = "16 word"
type_synonym u32 = "32 word"
type_synonym u64 = "64 word"
type_synonym bytes = "u8 list"
type_synonym duration = int
type_synonym time = int

named_theorems go_ops \<open>defining equations of the Go primitives\<close>
named_theorems panic_free \<open>conditions under which a checked operation returns\<close>
named_theorems frame \<open>which fields an operation leaves alone\<close>

subsection \<open>64-bit integers, durations and times\<close>

abbreviation MaxInt64 :: int where
  "MaxInt64 \<equiv> 9223372036854775807"

abbreviation MinInt64 :: int where
  "MinInt64 \<equiv> - 9223372036854775808"

definition int64 :: "int \<Rightarrow> bool" where
  "int64 x \<longleftrightarrow> MinInt64 \<le> x \<and> x \<le> MaxInt64"

definition wrap64 :: "int \<Rightarrow> int" where
  "wrap64 x = signed_take_bit 63 x"

definition time_Sub :: "time \<Rightarrow> time \<Rightarrow> duration" where
  "time_Sub t u = (if t - u < MinInt64 then MinInt64
                   else if MaxInt64 < t - u then MaxInt64 else t - u)"

definition time_Add :: "time \<Rightarrow> duration \<Rightarrow> time" where
  "time_Add t d = t + d"

definition time_IsZero :: "time \<Rightarrow> bool" where
  "time_IsZero t \<longleftrightarrow> t = 0"

definition time_Before :: "time \<Rightarrow> time \<Rightarrow> bool" where
  "time_Before t u \<longleftrightarrow> t < u"

text \<open>The conversion \<open>int(w)\<close> of an unsigned value.\<close>

definition int_of :: "'a::len word \<Rightarrow> int" where
  "int_of w = uint w"

subsection \<open>Checked slice operations\<close>

text \<open>\<open>len\<close>, \<open>xs[i]\<close>, \<open>xs[i:j]\<close>, \<open>xs[i:]\<close> and \<open>xs[i] = v\<close>.\<close>

abbreviation len :: "'a list \<Rightarrow> int" where
  "len xs \<equiv> int (length xs)"

definition idx :: "'a list \<Rightarrow> int \<Rightarrow> 'a option" where
  "idx xs i = (if 0 \<le> i \<and> i < len xs then Some (xs ! nat i) else None)"

definition slice :: "'a list \<Rightarrow> int \<Rightarrow> int \<Rightarrow> 'a list option" where
  "slice xs i j = (if 0 \<le> i \<and> i \<le> j \<and> j \<le> len xs
                   then Some (take (nat j - nat i) (drop (nat i) xs)) else None)"

definition slice_from :: "'a list \<Rightarrow> int \<Rightarrow> 'a list option" where
  "slice_from xs i = slice xs i (len xs)"

definition upd :: "'a list \<Rightarrow> int \<Rightarrow> 'a \<Rightarrow> 'a list option" where
  "upd xs i v = (if 0 \<le> i \<and> i < len xs then Some (xs[nat i := v]) else None)"

text \<open>\<open>copy(dst[i:j], src)\<close> overwrites \<open>min(j - i, len(src))\<close> elements of \<open>dst\<close>.\<close>

definition copy_at :: "'a list \<Rightarrow> int \<Rightarrow> int \<Rightarrow> 'a list \<Rightarrow> 'a list option" where
  "copy_at dst i j src =
     (if 0 \<le> i \<and> i \<le> j \<and> j \<le> len dst
      then (let n = min (nat j - nat i) (length src)
            in Some (take (nat i) dst @ take n src @ drop (nat i + n) dst))
      else None)"

definition make_bytes :: "int \<Rightarrow> bytes option" where
  "make_bytes n = (if 0 \<le> n then Some (replicate (nat n) 0) else None)"

subsection \<open>Package encoding/binary, big endian\<close>

definition be16 :: "u8 \<Rightarrow> u8 \<Rightarrow> u16" where
  "be16 a b = ucast b OR push_bit 8 (ucast a)"

definition be32 :: "u8 \<Rightarrow> u8 \<Rightarrow> u8 \<Rightarrow> u8 \<Rightarrow> u32" where
  "be32 a b c d = ucast d OR push_bit 8 (ucast c) OR push_bit 16 (ucast b) OR push_bit 24 (ucast a)"

definition hi8 :: "u16 \<Rightarrow> u8" where
  "hi8 w = ucast (drop_bit 8 w)"

definition lo8 :: "u16 \<Rightarrow> u8" where
  "lo8 w = ucast w"

definition Uint16 :: "bytes \<Rightarrow> u16 option" where
  "Uint16 b = do { b1 \<leftarrow> idx b 1; b0 \<leftarrow> idx b 0; Some (be16 b0 b1) }"

definition Uint32 :: "bytes \<Rightarrow> u32 option" where
  "Uint32 b = do { b3 \<leftarrow> idx b 3; b0 \<leftarrow> idx b 0; b1 \<leftarrow> idx b 1; b2 \<leftarrow> idx b 2;
                   Some (be32 b0 b1 b2 b3) }"

text \<open>\<open>Uint16(xs[i:j])\<close> and \<open>Uint32(xs[i:j])\<close>.\<close>

definition Uint16_at :: "bytes \<Rightarrow> int \<Rightarrow> int \<Rightarrow> u16 option" where
  "Uint16_at xs i j = do { b \<leftarrow> slice xs i j; Uint16 b }"

definition Uint32_at :: "bytes \<Rightarrow> int \<Rightarrow> int \<Rightarrow> u32 option" where
  "Uint32_at xs i j = do { b \<leftarrow> slice xs i j; Uint32 b }"

text \<open>\<open>PutUint16(xs[i:i+2], w)\<close> and \<open>PutUint32(xs[i:i+4], w)\<close>.\<close>

definition PutUint16 :: "bytes \<Rightarrow> int \<Rightarrow> u16 \<Rightarrow> bytes option" where
  "PutUint16 xs i w =
     do { _ \<leftarrow> slice xs i (i + 2); ys \<leftarrow> upd xs i (hi8 w); upd ys (i + 1) (lo8 w) }"

definition PutUint32 :: "bytes \<Rightarrow> int \<Rightarrow> u32 \<Rightarrow> bytes option" where
  "PutUint32 xs i w =
     do { _ \<leftarrow> slice xs i (i + 4);
          ys \<leftarrow> upd xs i (ucast (drop_bit 24 w));
          zs \<leftarrow> upd ys (i + 1) (ucast (drop_bit 16 w));
          us \<leftarrow> upd zs (i + 2) (ucast (drop_bit 8 w));
          upd us (i + 3) (ucast w) }"

subsection \<open>Deleting from a map by a condition on the entry\<close>

text \<open>
  Go's \<open>for k, v := range m { if p(v) { delete(m, k); removed++ } }\<close> visits every entry
  once in an unspecified order; what is left and how many were removed do not depend on it.
\<close>

definition map_remove :: "('v \<Rightarrow> bool) \<Rightarrow> ('k \<rightharpoonup> 'v) \<Rightarrow> ('k \<rightharpoonup> 'v)" where
  "map_remove p m = (\<lambda>k. case m k of None \<Rightarrow> None | Some v \<Rightarrow> if p v then None else Some v)"

definition map_removed :: "('v \<Rightarrow> bool) \<Rightarrow> ('k \<rightharpoonup> 'v) \<Rightarrow> nat" where
  "map_removed p m = card {k \<in> dom m. p (the (m k))}"

subsection \<open>Lemmas on integers and times\<close>

lemma wrap64_id: "int64 x \<Longrightarrow> wrap64 x = x"
  unfolding wrap64_def int64_def by (rule signed_take_bit_int_eq_self) auto

lemma wrap64_int64: "int64 (wrap64 x)"
  unfolding wrap64_def int64_def
  using signed_take_bit_int_greater_eq_minus_exp [of 63 x] signed_take_bit_int_less_exp [of 63 x]
  by simp

lemma time_Sub_int64: "int64 (time_Sub t u)"
  by (auto simp: int64_def time_Sub_def)

lemma time_Sub_ge_iff:
  assumes "0 \<le> d" and "d \<le> MaxInt64"
  shows "d \<le> time_Sub t u \<longleftrightarrow> d \<le> t - u"
  using assms by (auto simp: time_Sub_def)

lemma time_Sub_mono: "t \<le> t' \<Longrightarrow> time_Sub t u \<le> time_Sub t' u"
  by (auto simp: time_Sub_def)

lemma time_Sub_exact: "int64 (t - u) \<Longrightarrow> time_Sub t u = t - u"
  by (auto simp: int64_def time_Sub_def)

lemma time_Sub_lower: "0 \<le> d \<Longrightarrow> d \<le> time_Sub t u \<Longrightarrow> d \<le> t - u"
  by (auto simp: time_Sub_def split: if_splits)

lemma uint_of_duration: "0 \<le> d \<Longrightarrow> int64 d \<Longrightarrow> uint (word_of_int d :: u64) = d"
  by (simp add: int64_def unsigned_of_int take_bit_int_eq_self)

lemma sint_small: "uint w \<le> MaxInt64 \<Longrightarrow> sint w = uint w" for w :: u64
proof -
  assume "uint w \<le> MaxInt64"
  moreover have "0 \<le> uint w" by simp
  ultimately have "signed_take_bit 63 (uint w) = uint w"
    by (intro signed_take_bit_int_eq_self) (auto intro: order_trans [of _ 0])
  then show ?thesis by (simp add: sint_uint)
qed

subsection \<open>Lemmas on checked operations\<close>

lemma idx_ok [panic_free]: "0 \<le> i \<Longrightarrow> i < len xs \<Longrightarrow> idx xs i = Some (xs ! nat i)"
  by (simp add: idx_def)

lemma idx_0_ok [panic_free]: "xs \<noteq> [] \<Longrightarrow> idx xs 0 = Some (xs ! 0)"
  by (simp add: idx_def)

lemma slice_ok [panic_free]:
  "0 \<le> i \<Longrightarrow> i \<le> j \<Longrightarrow> j \<le> len xs \<Longrightarrow>
   slice xs i j = Some (take (nat j - nat i) (drop (nat i) xs))"
  by (simp add: slice_def)

lemma slice_from_ok [panic_free]:
  "0 \<le> i \<Longrightarrow> i \<le> len xs \<Longrightarrow> slice_from xs i = Some (drop (nat i) xs)"
  by (simp add: slice_from_def slice_def)

lemma upd_ok [panic_free]: "0 \<le> i \<Longrightarrow> i < len xs \<Longrightarrow> upd xs i v = Some (xs[nat i := v])"
  by (simp add: upd_def)

lemma Uint16_ok [panic_free]: "2 \<le> length b \<Longrightarrow> Uint16 b = Some (be16 (b ! 0) (b ! 1))"
  by (auto simp: Uint16_def idx_def)

lemma Uint32_ok [panic_free]:
  "4 \<le> length b \<Longrightarrow> Uint32 b = Some (be32 (b ! 0) (b ! 1) (b ! 2) (b ! 3))"
  by (auto simp: Uint32_def idx_def)

lemma Uint16_at_ok [panic_free]:
  assumes "0 \<le> i" and "j = i + 2" and "j \<le> len xs"
  shows "Uint16_at xs i j = Some (be16 (xs ! nat i) (xs ! nat (i + 1)))"
  using assms by (simp add: Uint16_at_def slice_ok Uint16_ok nat_add_distrib)

lemma Uint32_at_ok [panic_free]:
  assumes "0 \<le> i" and "j = i + 4" and "j \<le> len xs"
  shows "Uint32_at xs i j =
    Some (be32 (xs ! nat i) (xs ! nat (i + 1)) (xs ! nat (i + 2)) (xs ! nat (i + 3)))"
  using assms by (simp add: Uint32_at_def slice_ok Uint32_ok nat_add_distrib)

lemma PutUint16_ok [panic_free]:
  assumes "0 \<le> i" and "i + 2 \<le> len xs"
  shows "PutUint16 xs i w = Some (xs[nat i := hi8 w, nat i + 1 := lo8 w])"
  using assms by (simp add: PutUint16_def slice_def upd_def nat_add_distrib)

lemma PutUint32_ok [panic_free]:
  assumes "0 \<le> i" and "i + 4 \<le> len xs"
  shows "PutUint32 xs i w =
    Some (xs[nat i := ucast (drop_bit 24 w), nat i + 1 := ucast (drop_bit 16 w),
             nat i + 2 := ucast (drop_bit 8 w), nat i + 3 := ucast w])"
  using assms by (simp add: PutUint32_def slice_def upd_def nat_add_distrib)

lemma make_bytes_ok [panic_free]: "0 \<le> n \<Longrightarrow> make_bytes n = Some (replicate (nat n) 0)"
  by (simp add: make_bytes_def)

subsection \<open>Lemmas on big-endian words\<close>

lemma be16_hi_lo [simp]: "be16 (hi8 w) (lo8 w) = w"
  by (rule bit_word_eqI) (auto simp: be16_def hi8_def lo8_def bit_simps)

lemma hi8_be16 [simp]: "hi8 (be16 a b) = a"
  by (rule bit_word_eqI) (auto simp: be16_def hi8_def bit_simps dest: bit_imp_le_length)

lemma lo8_be16 [simp]: "lo8 (be16 a b) = b"
  by (rule bit_word_eqI) (auto simp: be16_def lo8_def bit_simps)

lemma be32_bytes [simp]:
  "be32 (ucast (drop_bit 24 w)) (ucast (drop_bit 16 w)) (ucast (drop_bit 8 w)) (ucast w) = w"
proof (rule bit_word_eqI)
  fix n
  assume n: "n < LENGTH(32)"
  then consider "n < 8" | "8 \<le> n" "n < 16" | "16 \<le> n" "n < 24" | "24 \<le> n" "n < 32"
    by fastforce
  then show "bit (be32 (ucast (drop_bit 24 w)) (ucast (drop_bit 16 w)) (ucast (drop_bit 8 w)) (ucast w)) n
      = bit w n"
    by cases (auto simp: be32_def bit_simps)
qed

lemma be32_parts [simp]:
  "ucast (drop_bit 24 (be32 a b c d)) = a" "ucast (drop_bit 16 (be32 a b c d)) = b"
  "ucast (drop_bit 8 (be32 a b c d)) = c" "ucast (be32 a b c d) = d"
  by (rule bit_word_eqI; auto simp: be32_def bit_simps dest: bit_imp_le_length)+

lemma unat_u8_less: "unat a < 256" for a :: u8
  using unsigned_less [of a, where ?'a = nat] by simp

lemma unat_u8_u16 [simp]: "unat (ucast a :: u16) = unat a" for a :: u8
proof -
  have "unat a < 2 ^ 16" using unat_u8_less [of a] by simp
  then show ?thesis by (simp add: unsigned_ucast_eq take_bit_nat_eq_self)
qed

lemma unat_u8_u32 [simp]: "unat (ucast a :: u32) = unat a" for a :: u8
proof -
  have "unat a < 2 ^ 32" using unat_u8_less [of a] by simp
  then show ?thesis by (simp add: unsigned_ucast_eq take_bit_nat_eq_self)
qed

lemma unat_u16_u32 [simp]: "unat (ucast a :: u32) = unat a" for a :: u16
proof -
  have "unat a < 2 ^ 32" using unsigned_less [of a, where ?'a = nat] by simp
  then show ?thesis by (simp add: unsigned_ucast_eq take_bit_nat_eq_self)
qed

lemma unat_be16: "unat (be16 a b) = 256 * unat a + unat b"
proof -
  have "be16 a b = ucast b + push_bit 8 (ucast a)"
    unfolding be16_def
    by (rule disjunctive_add [symmetric]) (auto simp: bit_simps dest: bit_imp_le_length)
  moreover have "unat (push_bit 8 (ucast a :: u16)) = 256 * unat a"
    using unat_u8_less [of a] by (simp add: push_bit_eq_mult unat_word_ariths)
  ultimately show ?thesis
    using unat_u8_less [of a] unat_u8_less [of b] by (simp add: unat_word_ariths)
qed

lemma unat_low_nibble: "unat (x AND 0x0f) = unat x mod 16" for x :: u8
proof -
  have "x AND 0x0f = x mod 16"
    using take_bit_eq_mask [of 4 x] by (simp add: take_bit_eq_mod mask_eq_decr_exp)
  then show ?thesis by (simp add: unat_mod)
qed

lemma unat_not16: "unat (NOT w) = 65535 - unat w" for w :: u16
proof -
  have "NOT w = 0xffff - w" by (simp add: not_eq_complement)
  moreover have "w \<le> 0xffff"
    using unsigned_less [of w, where ?'a = nat] by (simp add: word_le_nat_alt)
  ultimately show ?thesis by (simp add: unat_sub)
qed

subsection \<open>Lemmas on the bits of a byte\<close>

lemma all_less_8:
  "(\<forall>n<8. P n) \<longleftrightarrow> P 0 \<and> P 1 \<and> P 2 \<and> P 3 \<and> P 4 \<and> P 5 \<and> P 6 \<and> P (7 :: nat)"
  by (simp add: numeral_eq_Suc All_less_Suc conj_ac)

lemma u8_eq_iff: "x = y \<longleftrightarrow> (\<forall>n<8. bit x n = bit y n)" for x y :: u8
  by (auto simp: bit_eq_iff dest: bit_imp_le_length)

lemmas byte_bits = u8_eq_iff all_less_8 bit_simps

subsection \<open>Lemmas on lists\<close>

lemma take_as_map: "n \<le> length xs \<Longrightarrow> take n xs = map ((!) xs) [0..<n]"
  by (rule nth_equalityI) auto

lemma list_update_numeral [simp]: "(x # xs)[numeral v := y] = x # xs[pred_numeral v := y]"
  by (simp add: numeral_eq_Suc)

lemma take_drop_as_map: "k + n \<le> length xs \<Longrightarrow> take n (drop k xs) = map (\<lambda>i. xs ! (k + i)) [0..<n]"
  by (rule nth_equalityI) auto

subsection \<open>Lemmas on map removal\<close>

lemma map_remove_Some_iff [simp]:
  "map_remove p m k = Some v \<longleftrightarrow> m k = Some v \<and> \<not> p v"
  by (auto simp: map_remove_def split: option.splits)

lemma map_remove_None_iff:
  "map_remove p m k = None \<longleftrightarrow> (\<forall>v. m k = Some v \<longrightarrow> p v)"
  by (auto simp: map_remove_def split: option.splits)

lemma map_removed_dom:
  assumes "finite (dom m)"
  shows "card (dom (map_remove p m)) + map_removed p m = card (dom m)"
proof -
  have "dom (map_remove p m) = {k \<in> dom m. \<not> p (the (m k))}"
    by (auto simp: map_remove_def split: option.splits if_splits)
  moreover have "{k \<in> dom m. \<not> p (the (m k))} \<union> {k \<in> dom m. p (the (m k))} = dom m"
    by blast
  ultimately show ?thesis
    unfolding map_removed_def
    using assms card_Un_disjoint [of "{k \<in> dom m. \<not> p (the (m k))}" "{k \<in> dom m. p (the (m k))}"]
    by (auto simp: Int_def)
qed

end
