(* ===== verification/Go_Text.thy ===== *)
theory Go_Text
  imports Prelude "HOL-Library.Char_ord" "HOL-Library.Sublist"
begin

text \<open>
  The functions of Go's packages \<open>strings\<close> and \<open>strconv\<close> the sources use. A Go string
  is a sequence of bytes; a \<open>char\<close> is a byte.
\<close>

subsection \<open>Package strings\<close>

text \<open>
  The UTF-8 encodings of the characters \<open>unicode.IsSpace\<close> accepts. \<open>TrimSpace\<close> removes
  them from both ends. No encoding is a proper prefix or suffix of another, so the order does not matter.
\<close>

definition space_encodings :: "string list" where
  "space_encodings =
     [[CHR 0x09], [CHR 0x0A], [CHR 0x0B], [CHR 0x0C], [CHR 0x0D], [CHR 0x20],
      [CHR 0xC2, CHR 0x85], [CHR 0xC2, CHR 0xA0], [CHR 0xE1, CHR 0x9A, CHR 0x80]]
     @ map (\<lambda>n. [CHR 0xE2, CHR 0x80, char_of n]) ([0x80..<0x8B] @ [0xA8, 0xA9, 0xAF :: nat])
     @ [[CHR 0xE2, CHR 0x81, CHR 0x9F], [CHR 0xE3, CHR 0x80, CHR 0x80]]"

function trim_prefixes :: "string list \<Rightarrow> string \<Rightarrow> string" where
  "trim_prefixes ws s =
     (case List.find (\<lambda>w. w \<noteq> [] \<and> prefix w s) ws of
        None \<Rightarrow> s | Some w \<Rightarrow> trim_prefixes ws (drop (length w) s))"
  by pat_completeness auto

termination trim_prefixes
  by (relation "measure (\<lambda>(ws, s). length s)") (auto simp: find_Some_iff prefix_def)

declare trim_prefixes.simps [simp del]

definition TrimSpace :: "string \<Rightarrow> string" where
  "TrimSpace s =
     rev (trim_prefixes (map rev space_encodings) (rev (trim_prefixes space_encodings s)))"

text \<open>\<open>strings.Split(s, sep)\<close> for a separator of one byte.\<close>

fun Split :: "char \<Rightarrow> string \<Rightarrow> string list" where
  "Split sep [] = [[]]"
| "Split sep (c # s) =
     (if c = sep then [] # Split sep s
      else (case Split sep s of [] \<Rightarrow> [[c]] | p # ps \<Rightarrow> (c # p) # ps))"

definition strings_Contains :: "string \<Rightarrow> char \<Rightarrow> bool" where
  "strings_Contains s c \<longleftrightarrow> c \<in> set s"

text \<open>\<open>strings.Cut\<close>: what is before and after the first separator.\<close>

fun Cut :: "char \<Rightarrow> string \<Rightarrow> (string \<times> string) option" where
  "Cut sep [] = None"
| "Cut sep (c # s) =
     (if c = sep then Some ([], s) else map_option (\<lambda>(a, b). (c # a, b)) (Cut sep s))"

subsection \<open>Digits\<close>

definition digit :: "nat \<Rightarrow> char" where
  "digit d = char_of (if d < 10 then 48 + d else 87 + d)"

definition is_dec :: "char \<Rightarrow> bool" where
  "is_dec c \<longleftrightarrow> CHR ''0'' \<le> c \<and> c \<le> CHR ''9''"

definition dec_val :: "char \<Rightarrow> nat" where
  "dec_val c = of_char c - 48"

text \<open>\<open>%d\<close> and \<open>%x\<close> of an unsigned value.\<close>

function print_base :: "nat \<Rightarrow> nat \<Rightarrow> string" where
  "print_base b n = (if n < b \<or> b < 2 then [digit n] else print_base b (n div b) @ [digit (n mod b)])"
  by pat_completeness auto

termination print_base
  by (relation "measure (\<lambda>(b, n). n)") auto

declare print_base.simps [simp del]

abbreviation itoa :: "nat \<Rightarrow> string" where
  "itoa n \<equiv> print_base 10 n"

subsection \<open>Lemmas\<close>

text \<open>A string that starts and ends with a printable ASCII character has nothing to trim.\<close>

definition plain :: "char \<Rightarrow> bool" where
  "plain c \<longleftrightarrow> 33 \<le> (of_char c :: nat) \<and> (of_char c :: nat) < 128"

lemma space_encodings_ends:
  "w \<in> set space_encodings \<Longrightarrow> w \<noteq> [] \<and> \<not> plain (hd w) \<and> \<not> plain (last w)"
  by (auto simp: space_encodings_def plain_def)

lemma trim_prefixes_id:
  assumes "\<And>w. w \<in> set ws \<Longrightarrow> w \<noteq> [] \<Longrightarrow> hd w \<noteq> hd s" "s \<noteq> []"
  shows "trim_prefixes ws s = s"
proof -
  have "List.find (\<lambda>w. w \<noteq> [] \<and> prefix w s) ws = None"
    using assms by (fastforce simp: find_None_iff prefix_def)
  then show ?thesis by (simp add: trim_prefixes.simps)
qed

lemma TrimSpace_plain:
  assumes "s \<noteq> []" "plain (hd s)" "plain (last s)"
  shows "TrimSpace s = s"
proof -
  have "trim_prefixes space_encodings s = s"
    using assms space_encodings_ends by (intro trim_prefixes_id) metis+
  moreover have "trim_prefixes (map rev space_encodings) (rev s) = rev s"
    using assms by (intro trim_prefixes_id) (auto simp: hd_rev dest: space_encodings_ends)
  ultimately show ?thesis by (simp add: TrimSpace_def)
qed

lemma TrimSpace_Nil [simp]: "TrimSpace [] = []"
proof -
  have "List.find (\<lambda>w. w \<noteq> [] \<and> prefix w []) ws = None" for ws :: "string list"
    by (auto simp: find_None_iff)
  then have "trim_prefixes ws [] = []" for ws by (simp add: trim_prefixes.simps)
  then show ?thesis by (simp add: TrimSpace_def)
qed

lemma Split_not_Nil [simp]: "Split sep s \<noteq> []"
  by (induction s) (auto split: list.splits)

lemma Split_no_sep: "sep \<notin> set s \<Longrightarrow> Split sep s = [s]"
  by (induction s) auto

lemma Split_append: "sep \<notin> set a \<Longrightarrow> Split sep (a @ sep # s) = a # Split sep s"
  by (induction a) auto

lemma Cut_append: "sep \<notin> set a \<Longrightarrow> Cut sep (a @ sep # s) = Some (a, s)"
  by (induction a) auto

lemma Cut_None: "sep \<notin> set a \<Longrightarrow> Cut sep a = None"
  by (induction a) auto

text \<open>\<open>strings.Join\<close> inverts \<open>Split\<close> on pieces without the separator.\<close>

fun join :: "char \<Rightarrow> string list \<Rightarrow> string" where
  "join sep [] = []"
| "join sep [p] = p"
| "join sep (p # ps) = p @ sep # join sep ps"

lemma Split_join:
  "ps \<noteq> [] \<Longrightarrow> (\<And>p. p \<in> set ps \<Longrightarrow> sep \<notin> set p) \<Longrightarrow> Split sep (join sep ps) = ps"
  by (induction sep ps rule: join.induct) (auto simp: Split_no_sep Split_append)

lemma of_char_digit: "d < 10 \<Longrightarrow> of_char (digit d) = 48 + d"
  by (simp add: digit_def)

lemma is_dec_iff: "is_dec c \<longleftrightarrow> 48 \<le> (of_char c :: nat) \<and> (of_char c :: nat) \<le> 57"
  by (simp add: is_dec_def less_eq_char_def)

lemma is_dec_digit [simp]: "d < 10 \<Longrightarrow> is_dec (digit d)"
  by (simp add: is_dec_iff of_char_digit)

lemma dec_val_digit [simp]: "d < 10 \<Longrightarrow> dec_val (digit d) = d"
  by (simp add: dec_val_def of_char_digit)

lemma is_dec_plain: "is_dec c \<Longrightarrow> plain c"
  by (simp add: is_dec_iff plain_def)

lemma itoa_not_Nil [simp]: "print_base b n \<noteq> []"
  by (subst print_base.simps) simp

lemma itoa_digits: "c \<in> set (itoa n) \<Longrightarrow> is_dec c"
proof (induction n rule: less_induct)
  case (less n)
  have "itoa n = (if n < 10 then [digit n] else itoa (n div 10) @ [digit (n mod 10)])"
    by (subst print_base.simps) simp
  with less.prems less.IH [of "n div 10"] show ?case by (auto split: if_splits)
qed

end
