(* ===== verification/Net_Addr.thy ===== *)
theory Net_Addr
  imports Go_Text
begin

text \<open>
  The parts of Go's packages \<open>net\<close> and \<open>net/netip\<close> the sources use: printing an
  IPv4 address, \<open>To4\<close>, \<open>ParseIP\<close>, \<open>ParseCIDR\<close>, masks and
  \<open>IPNet.Contains\<close>. A \<open>net.IP\<close> and a \<open>net.IPMask\<close> are their byte slices; a
  function that returns an error the sources only test against \<open>nil\<close> returns
  \<open>None\<close>.
\<close>

subsection \<open>Addresses\<close>

definition IPv4_String :: "u8 \<Rightarrow> u8 \<Rightarrow> u8 \<Rightarrow> u8 \<Rightarrow> string" where
  "IPv4_String a b c d = itoa (unat a) @ ''.'' @ itoa (unat b) @ ''.'' @ itoa (unat c) @ ''.'' @ itoa (unat d)"

definition net_IPv4 :: "u8 \<Rightarrow> u8 \<Rightarrow> u8 \<Rightarrow> u8 \<Rightarrow> bytes" where
  "net_IPv4 a b c d = replicate 10 0 @ [0xff, 0xff, a, b, c, d]"

definition IP_To4 :: "bytes \<Rightarrow> bytes option" where
  "IP_To4 ip =
     (if length ip = 4 then Some ip
      else if length ip = 16 \<and> take 10 ip = replicate 10 0 \<and> ip ! 10 = 0xff \<and> ip ! 11 = 0xff
      then Some (drop 12 ip) else None)"

text \<open>\<open>String\<close> of the 4-byte form.\<close>

definition IP4_String :: "bytes \<Rightarrow> string" where
  "IP4_String ip = IPv4_String (ip ! 0) (ip ! 1) (ip ! 2) (ip ! 3)"

subsection \<open>Parsing addresses\<close>

text \<open>
  \<open>parseIPv4Fields\<close>: the arguments of the loop are the value and the number of digits of
  the current field, the fields completed, and whether the position is the first one or
  follows a dot.
\<close>

fun v4_loop :: "string \<Rightarrow> nat \<Rightarrow> nat \<Rightarrow> bytes \<Rightarrow> bool \<Rightarrow> bytes option" where
  "v4_loop [] val digLen fields fresh =
     (if length fields < 3 then None else Some (fields @ [of_nat val]))"
| "v4_loop (c # s) val digLen fields fresh =
     (if is_dec c then
        (if digLen = 1 \<and> val = 0 then None
         else let val = val * 10 + dec_val c
              in if 255 < val then None else v4_loop s val (digLen + 1) fields False)
      else if c = CHR ''.'' then
        (if fresh \<or> s = [] then None
         else if length fields = 3 then None
         else v4_loop s 0 0 (fields @ [of_nat val]) True)
      else None)"

definition parseIPv4Fields :: "string \<Rightarrow> bytes option" where
  "parseIPv4Fields s = v4_loop s 0 0 [] True"

definition hex_val :: "char \<Rightarrow> nat option" where
  "hex_val c =
     (if CHR ''0'' \<le> c \<and> c \<le> CHR ''9'' then Some (of_char c - 48)
      else if CHR ''a'' \<le> c \<and> c \<le> CHR ''f'' then Some (of_char c - 87)
      else if CHR ''A'' \<le> c \<and> c \<le> CHR ''F'' then Some (of_char c - 55)
      else None)"

text \<open>The hexadecimal group at the front: its length, its value and the rest.\<close>

fun hex_group :: "string \<Rightarrow> nat \<Rightarrow> nat \<Rightarrow> (nat \<times> nat \<times> string) option" where
  "hex_group [] off acc = Some (off, acc, [])"
| "hex_group (c # s) off acc =
     (case hex_val c of
        None \<Rightarrow> Some (off, acc, c # s)
      | Some d \<Rightarrow>
          let acc = acc * 16 + d
          in if 3 < off then None else if 65535 < acc then None else hex_group s (off + 1) acc)"

text \<open>The loop of \<open>parseIPv6\<close>: the bytes so far and the position of the ellipsis.\<close>

function v6_loop :: "string \<Rightarrow> bytes \<Rightarrow> nat option \<Rightarrow> (bytes \<times> nat option) option" where
  "v6_loop s ip ellipsis =
     (if 16 \<le> length ip then (if s = [] then Some (ip, ellipsis) else None)
      else case hex_group s 0 0 of
        None \<Rightarrow> None
      | Some (off, acc, rest) \<Rightarrow>
          if off = 0 then None
          else if rest \<noteq> [] \<and> hd rest = CHR ''.'' then
            (if ellipsis = None \<and> length ip \<noteq> 12 then None
             else if 16 < length ip + 4 then None
             else map_option (\<lambda>f. (ip @ f, ellipsis)) (parseIPv4Fields s))
          else
            let ip' = ip @ [of_nat (acc div 256), of_nat acc]
            in case rest of
                 [] \<Rightarrow> Some (ip', ellipsis)
               | c # r \<Rightarrow>
                   if c \<noteq> CHR '':'' \<or> r = [] then None
                   else if hd r = CHR '':'' then
                     (if ellipsis \<noteq> None then None
                      else if tl r = [] then Some (ip', Some (length ip'))
                      else v6_loop (tl r) ip' (Some (length ip')))
                   else v6_loop r ip' ellipsis)"
  by pat_completeness auto

termination v6_loop
  by (relation "measure (\<lambda>(s, ip, e). 16 - length ip)") auto

declare v6_loop.simps [simp del]

record Addr =
  Is4 :: bool
  As16 :: bytes
  Zone :: string

definition parseIPv6 :: "string \<Rightarrow> Addr option" where
  "parseIPv6 input =
     (let (s, zone, bad) = (case Cut (CHR ''%'') input of
            None \<Rightarrow> (input, '''', False) | Some (s, zone) \<Rightarrow> (s, zone, zone = ''''))
      in if bad then None
         else if s = ''::'' then Some \<lparr>Is4 = False, As16 = replicate 16 0, Zone = zone\<rparr>
         else let lead = prefix ''::'' s
              in case v6_loop (if lead then drop 2 s else s) [] (if lead then Some 0 else None) of
                   None \<Rightarrow> None
                 | Some (ip, ellipsis) \<Rightarrow>
                     if length ip < 16 then
                       (case ellipsis of None \<Rightarrow> None
                        | Some e \<Rightarrow> Some \<lparr>Is4 = False,
                            As16 = take e ip @ replicate (16 - length ip) 0 @ drop e ip, Zone = zone\<rparr>)
                     else if ellipsis \<noteq> None then None
                     else Some \<lparr>Is4 = False, As16 = ip, Zone = zone\<rparr>)"

definition parseIPv4 :: "string \<Rightarrow> Addr option" where
  "parseIPv4 s = map_option (\<lambda>f. \<lparr>Is4 = True, As16 = net_IPv4 (f ! 0) (f ! 1) (f ! 2) (f ! 3), Zone = ''''\<rparr>)
                   (parseIPv4Fields s)"

text \<open>\<open>netip.ParseAddr\<close> looks for the first dot, colon or percent sign.\<close>

definition ParseAddr :: "string \<Rightarrow> Addr option" where
  "ParseAddr s =
     (case List.find (\<lambda>c. c \<in> {CHR ''.'', CHR '':'', CHR ''%''}) s of
        None \<Rightarrow> None
      | Some c \<Rightarrow> if c = CHR ''.'' then parseIPv4 s else if c = CHR '':'' then parseIPv6 s else None)"

definition ParseIP :: "string \<Rightarrow> bytes option" where
  "ParseIP s =
     (case ParseAddr s of
        None \<Rightarrow> None | Some a \<Rightarrow> if Zone a \<noteq> '''' then None else Some (As16 a))"

subsection \<open>Networks\<close>

record IPNet =
  net_IP :: bytes
  net_Mask :: bytes

text \<open>The loop of \<open>dtoi\<close>, on a nonempty string that must be all digits.\<close>

fun dtoi_loop :: "string \<Rightarrow> nat \<Rightarrow> nat option" where
  "dtoi_loop [] n = Some n"
| "dtoi_loop (c # s) n =
     (if is_dec c then let n = n * 10 + dec_val c in if 0xFFFFFF \<le> n then None else dtoi_loop s n
      else None)"

definition dtoi :: "string \<Rightarrow> nat option" where
  "dtoi s = (if s = [] then None else dtoi_loop s 0)"

fun mask_bytes :: "nat \<Rightarrow> nat \<Rightarrow> bytes" where
  "mask_bytes 0 n = []"
| "mask_bytes (Suc l) n =
     (if 8 \<le> n then 0xff # mask_bytes l (n - 8) else NOT (drop_bit n 0xff) # mask_bytes l 0)"

definition CIDRMask :: "nat \<Rightarrow> nat \<Rightarrow> bytes" where
  "CIDRMask ones bits = mask_bytes (bits div 8) ones"

definition IP_Mask :: "bytes \<Rightarrow> bytes \<Rightarrow> bytes" where
  "IP_Mask ip m =
     (let m = (if length m = 16 \<and> length ip = 4 \<and> take 12 m = replicate 12 0xff
                  then drop 12 m else m);
          ip = (if length m = 4 \<and> length ip = 16 \<and> take 12 ip = replicate 10 0 @ [0xff, 0xff]
                then drop 12 ip else ip)
      in if length ip \<noteq> length m then [] else map2 (AND) ip m)"

definition ParseCIDR :: "string \<Rightarrow> (bytes \<times> IPNet) option" where
  "ParseCIDR s = do {
     (addr, ones) \<leftarrow> Cut (CHR ''/'') s;
     ipAddr \<leftarrow> ParseAddr addr;
     if Zone ipAddr \<noteq> '''' then None
     else do {
       n \<leftarrow> dtoi ones;
       let bitLen = (if Is4 ipAddr then 32 else 128);
       if bitLen < n then None
       else let m = CIDRMask n bitLen
            in Some (As16 ipAddr, \<lparr>net_IP = IP_Mask (As16 ipAddr) m, net_Mask = m\<rparr>)
     }
   }"

text \<open>\<open>networkNumberAndMask\<close>; the two \<open>nil\<close> results are empty slices.\<close>

definition networkNumberAndMask :: "IPNet \<Rightarrow> bytes \<times> bytes" where
  "networkNumberAndMask n =
     (case (case IP_To4 (net_IP n) of Some ip \<Rightarrow> Some ip
            | None \<Rightarrow> if length (net_IP n) \<noteq> 16 then None else Some (net_IP n)) of
        None \<Rightarrow> ([], [])
      | Some ip \<Rightarrow>
          if length (net_Mask n) = 4 then (if length ip \<noteq> 4 then ([], []) else (ip, net_Mask n))
          else if length (net_Mask n) = 16 then (ip, if length ip = 4 then drop 12 (net_Mask n) else net_Mask n)
          else ([], []))"

text \<open>The comparison loop: the mask is indexed with a check, so \<open>None\<close> is a panic.\<close>

fun contains_loop :: "bytes \<Rightarrow> bytes \<Rightarrow> bytes \<Rightarrow> bool option" where
  "contains_loop (n # nn) (m # ms) (x # xs) =
     (if n AND m \<noteq> x AND m then Some False else contains_loop nn ms xs)"
| "contains_loop _ _ [] = Some True"
| "contains_loop _ _ _ = None"

definition IPNet_Contains :: "IPNet \<Rightarrow> bytes \<Rightarrow> bool option" where
  "IPNet_Contains n ip =
     (let (nn, m) = networkNumberAndMask n;
          ip = (case IP_To4 ip of Some x \<Rightarrow> x | None \<Rightarrow> ip)
      in if length ip \<noteq> length nn then Some False else contains_loop nn m ip)"

lemma IP_To4_net_IPv4 [simp]: "IP_To4 (net_IPv4 a b c d) = Some [a, b, c, d]"
  by (simp add: IP_To4_def net_IPv4_def nth_append)

subsection \<open>Printed addresses parse back\<close>

lemma itoa_small:
  "n < 10 \<Longrightarrow> itoa n = [digit n]"
  "10 \<le> n \<Longrightarrow> n < 100 \<Longrightarrow> itoa n = [digit (n div 10), digit (n mod 10)]"
  "100 \<le> n \<Longrightarrow> n < 1000 \<Longrightarrow> itoa n = [digit (n div 100), digit (n div 10 mod 10), digit (n mod 10)]"
  by (simp_all add: print_base.simps div_mult2_eq [symmetric] div_less_iff_less_mult)

lemma v4_loop_field:
  assumes "n \<le> 255"
  shows "v4_loop (itoa n @ s) 0 0 fs fresh = v4_loop s n (length (itoa n)) fs False"
proof -
  consider "n < 10" | "10 \<le> n" "n < 100" | "100 \<le> n" "n < 1000" using assms by linarith
  then show ?thesis
  proof cases
    case 2
    then have "0 < n div 10" "n div 10 < 10"
      by (simp_all add: div_greater_zero_iff div_less_iff_less_mult)
    with 2 show ?thesis by (simp add: itoa_small Let_def)
  next
    case 3
    then have "n div 100 * 10 + n div 10 mod 10 = n div 10" "n div 10 * 10 + n mod 10 = n"
      using div_mult2_eq [of n 10 10] by simp_all
    moreover have "0 < n div 100" "n div 100 < 10" "n div 10 \<le> 255"
      using 3 assms by (simp_all add: div_greater_zero_iff div_less_iff_less_mult)
    ultimately show ?thesis using 3 assms by (simp add: itoa_small Let_def)
  qed (simp add: itoa_small)
qed

lemma itoa_no_char [simp]: "\<not> is_dec c \<Longrightarrow> c \<notin> set (itoa n)"
  using itoa_digits by blast

lemma parse_print4: "parseIPv4Fields (IPv4_String a b c d) = Some [a, b, c, d]"
proof -
  have le: "unat x \<le> 255" for x :: u8 using unsigned_less [of x, where ?'a = nat] by simp
  have nd: "\<not> is_dec (CHR ''.'')" by (simp add: is_dec_iff)
  show ?thesis
    using v4_loop_field [OF le [of d], of "[]"]
    by (simp add: parseIPv4Fields_def IPv4_String_def v4_loop_field [OF le] nd)
qed

lemma find_first: "(\<And>x. x \<in> set xs \<Longrightarrow> \<not> P x) \<Longrightarrow> P y \<Longrightarrow> List.find P (xs @ y # ys) = Some y"
  by (induction xs) auto

lemma ParseAddr_print4 [simp]:
  "ParseAddr (IPv4_String a b c d) = Some \<lparr>Is4 = True, As16 = net_IPv4 a b c d, Zone = ''''\<rparr>"
proof -
  have "List.find (\<lambda>c. c \<in> {CHR ''.'', CHR '':'', CHR ''%''}) (IPv4_String a b c d) = Some (CHR ''.'')"
    unfolding IPv4_String_def append_Cons append_Nil
    by (rule find_first) (auto dest!: itoa_digits simp: is_dec_iff)
  then show ?thesis by (simp add: ParseAddr_def parseIPv4_def parse_print4)
qed

lemma ParseIP_print4 [simp]: "ParseIP (IPv4_String a b c d) = Some (net_IPv4 a b c d)"
  by (simp add: ParseIP_def)

lemma IPv4_String_chars: "x \<in> set (IPv4_String a b c d) \<Longrightarrow> is_dec x \<or> x = CHR ''.''"
  by (auto simp: IPv4_String_def dest: itoa_digits)

lemma dtoi_itoa: "n \<le> 128 \<Longrightarrow> dtoi (itoa n) = Some n"
proof -
  assume "n \<le> 128"
  then consider "n < 10" | "10 \<le> n" "n < 100" | "100 \<le> n" "n < 1000" by linarith
  then show ?thesis
  proof cases
    case 3
    then have "n div 100 * 10 + n div 10 mod 10 = n div 10" "n div 10 * 10 + n mod 10 = n"
      using div_mult2_eq [of n 10 10] by simp_all
    with 3 \<open>n \<le> 128\<close> show ?thesis by (simp add: dtoi_def itoa_small Let_def div_less_iff_less_mult)
  qed (simp_all add: dtoi_def itoa_small Let_def div_less_iff_less_mult)
qed

subsection \<open>Shapes\<close>

lemma v4_loop_length: "v4_loop s v dl fs fresh = Some r \<Longrightarrow> length fs \<le> 3 \<Longrightarrow> length r = 4"
  by (induction s v dl fs fresh rule: v4_loop.induct) (auto simp: Let_def split: if_splits)

end
