(* ===== verification/Parser.thy ===== *)
theory Parser
  imports Net_Addr
begin

text \<open>
  \<open>src/internal/parser.go\<close>: recognising TCP SYN and SYN/ACK segments in IPv4 packets.
  The parsers index the packet with Go's checked operations, so \<open>None\<close> is a run-time
  panic; a recognised packet gives \<open>(info, True)\<close>, any other the zero value and
  \<open>False\<close>.
\<close>

record PacketInfo =
  ClientIP :: string
  ClientPort :: u16
  ServerPort :: u16
  pi_Seq :: u32
  pi_Ack :: u32

definition PacketInfo_zero :: PacketInfo where
  "PacketInfo_zero = \<lparr>ClientIP = '''', ClientPort = 0, ServerPort = 0, pi_Seq = 0, pi_Ack = 0\<rparr>"

definition ParseIPv4PureTCPSYNInfo :: "bytes \<Rightarrow> (PacketInfo \<times> bool) option" where
  "ParseIPv4PureTCPSYNInfo data =
    (if len data < 40 then Some (PacketInfo_zero, False)
     else do {
       b0 \<leftarrow> idx data 0;
       if drop_bit 4 b0 \<noteq> 4 then Some (PacketInfo_zero, False)
       else do {
         let ihl = int_of (b0 AND 0x0f) * 4;
         if len data < ihl + 20 then Some (PacketInfo_zero, False)
         else do {
           b9 \<leftarrow> idx data 9;
           if b9 \<noteq> 6 then Some (PacketInfo_zero, False)
           else do {
             tcp \<leftarrow> slice_from data ihl;
             flags \<leftarrow> idx tcp 13;
             let syn = flags AND 0x02 \<noteq> 0;
             let ack = flags AND 0x10 \<noteq> 0;
             let rst = flags AND 0x04 \<noteq> 0;
             let fin = flags AND 0x01 \<noteq> 0;
             if \<not> (syn \<and> \<not> ack \<and> \<not> rst \<and> \<not> fin) then Some (PacketInfo_zero, False)
             else do {
               a0 \<leftarrow> idx data 12; a1 \<leftarrow> idx data 13; a2 \<leftarrow> idx data 14; a3 \<leftarrow> idx data 15;
               sport \<leftarrow> Uint16_at tcp 0 2;
               dport \<leftarrow> Uint16_at tcp 2 4;
               seq \<leftarrow> Uint32_at tcp 4 8;
               Some (PacketInfo_zero\<lparr>ClientIP := IPv4_String a0 a1 a2 a3, ClientPort := sport,
                       ServerPort := dport, pi_Seq := seq\<rparr>, True)
             }}}}})"

definition ParseIPv4PureTCPSYN :: "bytes \<Rightarrow> (string \<times> bool) option" where
  "ParseIPv4PureTCPSYN data =
     do { (info, ok) \<leftarrow> ParseIPv4PureTCPSYNInfo data; Some (ClientIP info, ok) }"

definition ParseIPv4TCPSYNACK :: "bytes \<Rightarrow> (PacketInfo \<times> bool) option" where
  "ParseIPv4TCPSYNACK data =
    (if len data < 40 then Some (PacketInfo_zero, False)
     else do {
       b0 \<leftarrow> idx data 0;
       if drop_bit 4 b0 \<noteq> 4 then Some (PacketInfo_zero, False)
       else do {
         let ihl = int_of (b0 AND 0x0f) * 4;
         if len data < ihl + 20 then Some (PacketInfo_zero, False)
         else do {
           b9 \<leftarrow> idx data 9;
           if b9 \<noteq> 6 then Some (PacketInfo_zero, False)
           else do {
             tcp \<leftarrow> slice_from data ihl;
             flags \<leftarrow> idx tcp 13;
             let syn = flags AND 0x02 \<noteq> 0;
             let ack = flags AND 0x10 \<noteq> 0;
             let rst = flags AND 0x04 \<noteq> 0;
             let fin = flags AND 0x01 \<noteq> 0;
             if \<not> (syn \<and> ack \<and> \<not> rst \<and> \<not> fin) then Some (PacketInfo_zero, False)
             else do {
               a0 \<leftarrow> idx data 16; a1 \<leftarrow> idx data 17; a2 \<leftarrow> idx data 18; a3 \<leftarrow> idx data 19;
               sport \<leftarrow> Uint16_at tcp 0 2;
               dport \<leftarrow> Uint16_at tcp 2 4;
               seq \<leftarrow> Uint32_at tcp 4 8;
               ackn \<leftarrow> Uint32_at tcp 8 12;
               Some (PacketInfo_zero\<lparr>ClientIP := IPv4_String a0 a1 a2 a3, ServerPort := sport,
                       ClientPort := dport, pi_Seq := seq, pi_Ack := ackn\<rparr>, True)
             }}}}})"

subsection \<open>What is recognised\<close>

text \<open>
  The offset of the TCP header, and the test the documented nftables rules make:
  \<open>tcp flags & (fin|syn|rst|ack) == syn\<close>, respectively \<open>== (syn|ack)\<close>.
\<close>

definition ihl_bytes :: "bytes \<Rightarrow> nat" where
  "ihl_bytes data = 4 * (unat (data ! 0) mod 16)"

definition tcp_flags_match :: "u8 \<Rightarrow> bytes \<Rightarrow> bool" where
  "tcp_flags_match want data \<longleftrightarrow>
     40 \<le> length data \<and> drop_bit 4 (data ! 0) = 4 \<and> ihl_bytes data + 20 \<le> length data
     \<and> data ! 9 = 6 \<and> data ! (ihl_bytes data + 13) AND 0x17 = want"

subsection \<open>Lemmas\<close>

lemma flag_tests:
  "x AND 0x02 \<noteq> 0 \<longleftrightarrow> bit x 1" "x AND 0x10 \<noteq> 0 \<longleftrightarrow> bit x 4"
  "x AND 0x04 \<noteq> 0 \<longleftrightarrow> bit x 2" "x AND 0x01 \<noteq> 0 \<longleftrightarrow> bit x 0" for x :: u8
  by (simp_all add: byte_bits)

lemma syn_flags_iff: "x AND 0x17 = 0x02 \<longleftrightarrow> bit x 1 \<and> \<not> bit x 4 \<and> \<not> bit x 2 \<and> \<not> bit x 0"
  for x :: u8
  by (simp add: byte_bits) blast

lemma synack_flags_iff: "x AND 0x17 = 0x12 \<longleftrightarrow> bit x 1 \<and> bit x 4 \<and> \<not> bit x 2 \<and> \<not> bit x 0"
  for x :: u8
  by (simp add: byte_bits) blast

lemma ihl_int: "int_of (data ! 0 AND 0x0f) * 4 = int (ihl_bytes data)"
  using arg_cong [OF unat_low_nibble [of "data ! 0"], of int]
  by (simp add: ihl_bytes_def int_of_def)

lemmas parse_simps = idx_def slice_def slice_from_def Uint16_at_def Uint32_at_def Uint16_def Uint32_def Let_def

lemma ParseSYN_match:
  assumes "tcp_flags_match 0x02 data"
  defines "t \<equiv> ihl_bytes data"
  shows "ParseIPv4PureTCPSYNInfo data =
    Some (\<lparr>ClientIP = IPv4_String (data ! 12) (data ! 13) (data ! 14) (data ! 15),
           ClientPort = be16 (data ! t) (data ! (t + 1)),
           ServerPort = be16 (data ! (t + 2)) (data ! (t + 3)),
           pi_Seq = be32 (data ! (t + 4)) (data ! (t + 5)) (data ! (t + 6)) (data ! (t + 7)),
           pi_Ack = 0\<rparr>, True)"
  using assms
  by (auto simp: ParseIPv4PureTCPSYNInfo_def tcp_flags_match_def parse_simps ihl_int
      syn_flags_iff flag_tests PacketInfo_zero_def add.commute numeral_3_eq_3)

lemma ParseSYN_no_match:
  "\<not> tcp_flags_match 0x02 data \<Longrightarrow> ParseIPv4PureTCPSYNInfo data = Some (PacketInfo_zero, False)"
  by (auto simp: ParseIPv4PureTCPSYNInfo_def tcp_flags_match_def parse_simps ihl_int
      syn_flags_iff flag_tests)

lemma ParseSYNACK_match:
  assumes "tcp_flags_match 0x12 data"
  defines "t \<equiv> ihl_bytes data"
  shows "ParseIPv4TCPSYNACK data =
    Some (\<lparr>ClientIP = IPv4_String (data ! 16) (data ! 17) (data ! 18) (data ! 19),
           ClientPort = be16 (data ! (t + 2)) (data ! (t + 3)),
           ServerPort = be16 (data ! t) (data ! (t + 1)),
           pi_Seq = be32 (data ! (t + 4)) (data ! (t + 5)) (data ! (t + 6)) (data ! (t + 7)),
           pi_Ack = be32 (data ! (t + 8)) (data ! (t + 9)) (data ! (t + 10)) (data ! (t + 11))\<rparr>, True)"
  using assms
  by (auto simp: ParseIPv4TCPSYNACK_def tcp_flags_match_def parse_simps ihl_int
      synack_flags_iff flag_tests PacketInfo_zero_def add.commute numeral_3_eq_3)

lemma ParseSYNACK_no_match:
  "\<not> tcp_flags_match 0x12 data \<Longrightarrow> ParseIPv4TCPSYNACK data = Some (PacketInfo_zero, False)"
  by (auto simp: ParseIPv4TCPSYNACK_def tcp_flags_match_def parse_simps ihl_int
      synack_flags_iff flag_tests)

end
