(* ===== verification/Packet_Format.thy ===== *)
theory Packet_Format
  imports Parser
begin

text \<open>
  The wire format of an IPv4 packet with a TCP segment, as a printer from a structured
  packet to bytes. It is the reference the parsers are compared with: parsing a printed packet
  gives its fields back. The two checksum fields are arbitrary fields here.
\<close>

record tcp_packet =
  tos :: u8
  ident :: u16
  frag :: u16
  ttl :: u8
  ip_checksum :: u16
  src_addr :: "u8 \<times> u8 \<times> u8 \<times> u8"
  dst_addr :: "u8 \<times> u8 \<times> u8 \<times> u8"
  ip_options :: bytes
  src_port :: u16
  dst_port :: u16
  seq_no :: u32
  ack_no :: u32
  reserved :: u8
  tcp_flags :: u8
  window :: u16
  tcp_checksum :: u16
  urgent :: u16
  tcp_options :: bytes
  payload :: bytes

fun addr_bytes :: "u8 \<times> u8 \<times> u8 \<times> u8 \<Rightarrow> bytes" where
  "addr_bytes (a, b, c, d) = [a, b, c, d]"

fun addr_string :: "u8 \<times> u8 \<times> u8 \<times> u8 \<Rightarrow> string" where
  "addr_string (a, b, c, d) = IPv4_String a b c d"

definition u16_bytes :: "u16 \<Rightarrow> bytes" where
  "u16_bytes w = [hi8 w, lo8 w]"

definition u32_bytes :: "u32 \<Rightarrow> bytes" where
  "u32_bytes w = [ucast (drop_bit 24 w), ucast (drop_bit 16 w), ucast (drop_bit 8 w), ucast w]"

definition ip_hlen :: "tcp_packet \<Rightarrow> nat" where
  "ip_hlen p = 20 + length (ip_options p)"

definition tcp_hlen :: "tcp_packet \<Rightarrow> nat" where
  "tcp_hlen p = 20 + length (tcp_options p)"

definition total_len :: "tcp_packet \<Rightarrow> nat" where
  "total_len p = ip_hlen p + tcp_hlen p + length (payload p)"

definition encode_ip_tl :: "u16 \<Rightarrow> tcp_packet \<Rightarrow> bytes" where
  "encode_ip_tl L p = [0x40 + of_nat (ip_hlen p div 4), tos p] @ u16_bytes L
     @ u16_bytes (ident p) @ u16_bytes (frag p) @ [ttl p, 6] @ u16_bytes (ip_checksum p)
     @ addr_bytes (src_addr p) @ addr_bytes (dst_addr p) @ ip_options p"

definition encode_ip :: "tcp_packet \<Rightarrow> bytes" where
  "encode_ip p = encode_ip_tl (of_nat (total_len p)) p"

definition encode_tcp :: "tcp_packet \<Rightarrow> bytes" where
  "encode_tcp p = u16_bytes (src_port p) @ u16_bytes (dst_port p) @ u32_bytes (seq_no p)
     @ u32_bytes (ack_no p) @ [of_nat (16 * (tcp_hlen p div 4)) + reserved p, tcp_flags p]
     @ u16_bytes (window p) @ u16_bytes (tcp_checksum p) @ u16_bytes (urgent p) @ tcp_options p"

definition encode :: "tcp_packet \<Rightarrow> bytes" where
  "encode p = encode_ip p @ encode_tcp p @ payload p"

definition wf_packet :: "tcp_packet \<Rightarrow> bool" where
  "wf_packet p \<longleftrightarrow> 4 dvd length (ip_options p) \<and> length (ip_options p) \<le> 40
     \<and> 4 dvd length (tcp_options p) \<and> length (tcp_options p) \<le> 40 \<and> total_len p \<le> 65535
     \<and> unat (reserved p) < 16"

text \<open>A small concrete packet for examples: a segment from 192.0.2.10:443 to 198.51.100.20:50123.\<close>

definition example_packet :: "u8 \<Rightarrow> bytes \<Rightarrow> tcp_packet" where
  "example_packet fl pl = \<lparr>tos = 0, ident = 1, frag = 0x4000, ttl = 64, ip_checksum = 0,
     src_addr = (192, 0, 2, 10), dst_addr = (198, 51, 100, 20), ip_options = [],
     src_port = 443, dst_port = 50123, seq_no = 1000, ack_no = 5000, reserved = 0, tcp_flags = fl,
     window = 0xffff, tcp_checksum = 0, urgent = 0, tcp_options = [], payload = pl\<rparr>"

subsection \<open>Lemmas\<close>

lemma addr_bytes_length [simp]: "length (addr_bytes a) = 4"
  by (cases a) simp

lemma length_encode_ip_tl [simp]: "length (encode_ip_tl L p) = ip_hlen p"
  by (simp add: encode_ip_tl_def u16_bytes_def ip_hlen_def)

lemma length_encode_ip [simp]: "length (encode_ip p) = ip_hlen p"
  by (simp add: encode_ip_def)

lemma length_encode_tcp [simp]: "length (encode_tcp p) = tcp_hlen p"
  by (simp add: encode_tcp_def u16_bytes_def u32_bytes_def tcp_hlen_def)

lemma length_encode [simp]: "length (encode p) = total_len p"
  by (simp add: encode_def total_len_def)

lemma version_byte:
  assumes "n < 16"
  shows "drop_bit 4 (0x40 + of_nat n :: u8) = 4" and "unat (0x40 + of_nat n :: u8) mod 16 = n"
proof -
  have n: "unat (0x40 + of_nat n :: u8) = 64 + n"
    using assms by (simp add: unat_word_ariths unsigned_of_nat take_bit_nat_eq_self)
  then have "unat (drop_bit 4 (0x40 + of_nat n :: u8)) = unat (4 :: u8)"
    using assms by (simp add: drop_bit_eq_div unat_div)
  then show "drop_bit 4 (0x40 + of_nat n :: u8) = 4" by (rule unsigned_word_eqI)
  show "unat (0x40 + of_nat n :: u8) mod 16 = n"
    using n assms by presburger
qed

lemma offset_byte:
  assumes "n < 16" and "unat r < 16"
  shows "unat (drop_bit 4 (of_nat (16 * n) + r :: u8)) = n"
proof -
  have "unat (of_nat (16 * n) + r :: u8) = 16 * n + unat r"
    using assms by (simp add: unat_word_ariths unsigned_of_nat take_bit_nat_eq_self)
  then show ?thesis using assms by (simp add: drop_bit_eq_div unat_div)
qed

lemma wf_hlen:
  assumes "wf_packet p"
  shows "ip_hlen p div 4 < 16" "4 * (ip_hlen p div 4) = ip_hlen p"
    "tcp_hlen p div 4 < 16" "4 * (tcp_hlen p div 4) = tcp_hlen p"
  using assms by (auto simp: wf_packet_def ip_hlen_def tcp_hlen_def)

text \<open>The bytes of the fixed part of each header, by position.\<close>

lemma encode_ip_nth:
  "encode p ! 0 = 0x40 + of_nat (ip_hlen p div 4)"
  "encode p ! 2 = hi8 (of_nat (total_len p))" "encode p ! 3 = lo8 (of_nat (total_len p))"
  "encode p ! 6 = hi8 (frag p)" "encode p ! 7 = lo8 (frag p)" "encode p ! 9 = 6"
  by (simp_all add: encode_def encode_ip_def encode_ip_tl_def u16_bytes_def)

lemma encode_addr_nth:
  assumes "src_addr p = (a, b, c, d)" and "dst_addr p = (e, f, g, h)"
  shows "encode p ! 12 = a" "encode p ! 13 = b" "encode p ! 14 = c" "encode p ! 15 = d"
    "encode p ! 16 = e" "encode p ! 17 = f" "encode p ! 18 = g" "encode p ! 19 = h"
  using assms by (simp_all add: encode_def encode_ip_def encode_ip_tl_def u16_bytes_def)

lemma drop_encode_ip: "drop (ip_hlen p) (encode p) = encode_tcp p @ payload p"
  by (simp add: encode_def)

lemma encode_tcp_shift: "i < tcp_hlen p \<Longrightarrow> encode p ! (ip_hlen p + i) = encode_tcp p ! i"
  by (simp add: encode_def nth_append)

lemma encode_tcp_nth:
  "encode_tcp p ! 0 = hi8 (src_port p)" "encode_tcp p ! 1 = lo8 (src_port p)"
  "encode_tcp p ! 2 = hi8 (dst_port p)" "encode_tcp p ! 3 = lo8 (dst_port p)"
  "encode_tcp p ! 4 = ucast (drop_bit 24 (seq_no p))" "encode_tcp p ! 5 = ucast (drop_bit 16 (seq_no p))"
  "encode_tcp p ! 6 = ucast (drop_bit 8 (seq_no p))" "encode_tcp p ! 7 = ucast (seq_no p)"
  "encode_tcp p ! 8 = ucast (drop_bit 24 (ack_no p))" "encode_tcp p ! 9 = ucast (drop_bit 16 (ack_no p))"
  "encode_tcp p ! 10 = ucast (drop_bit 8 (ack_no p))" "encode_tcp p ! 11 = ucast (ack_no p)"
  "encode_tcp p ! 12 = of_nat (16 * (tcp_hlen p div 4)) + reserved p" "encode_tcp p ! 13 = tcp_flags p"
  by (simp_all add: encode_tcp_def u16_bytes_def u32_bytes_def)

lemma tcp_hlen_min: "20 \<le> tcp_hlen p" and ip_hlen_min: "20 \<le> ip_hlen p"
  by (simp_all add: tcp_hlen_def ip_hlen_def)

lemma ihl_bytes_encode: "wf_packet p \<Longrightarrow> ihl_bytes (encode p) = ip_hlen p"
  by (simp add: ihl_bytes_def encode_ip_nth version_byte wf_hlen)

lemma tcp_flags_match_encode:
  assumes "wf_packet p"
  shows "tcp_flags_match want (encode p) \<longleftrightarrow> tcp_flags p AND 0x17 = want"
  using assms ip_hlen_min [of p] tcp_hlen_min [of p] encode_tcp_shift [of 13 p]
  by (simp add: tcp_flags_match_def ihl_bytes_encode encode_ip_nth version_byte wf_hlen
      total_len_def encode_tcp_nth)

lemma encode_ports_seq:
  assumes "wf_packet p"
  defines "t \<equiv> ihl_bytes (encode p)"
  shows "be16 (encode p ! t) (encode p ! (t + 1)) = src_port p"
    and "be16 (encode p ! (t + 2)) (encode p ! (t + 3)) = dst_port p"
    and "be32 (encode p ! (t + 4)) (encode p ! (t + 5)) (encode p ! (t + 6)) (encode p ! (t + 7)) = seq_no p"
    and "be32 (encode p ! (t + 8)) (encode p ! (t + 9)) (encode p ! (t + 10)) (encode p ! (t + 11)) = ack_no p"
proof -
  have nth: "encode p ! (t + i) = encode_tcp p ! i" if "i < 20" for i
    using that assms tcp_hlen_min [of p] by (simp add: ihl_bytes_encode encode_tcp_shift)
  show "be16 (encode p ! t) (encode p ! (t + 1)) = src_port p"
    using nth [of 0] nth [of 1] by (simp add: encode_tcp_nth [simplified])
  show "be16 (encode p ! (t + 2)) (encode p ! (t + 3)) = dst_port p"
    using nth [of 2] nth [of 3] by (simp add: encode_tcp_nth)
  show "be32 (encode p ! (t + 4)) (encode p ! (t + 5)) (encode p ! (t + 6)) (encode p ! (t + 7)) = seq_no p"
    using nth [of 4] nth [of 5] nth [of 6] nth [of 7] by (simp add: encode_tcp_nth)
  show "be32 (encode p ! (t + 8)) (encode p ! (t + 9)) (encode p ! (t + 10)) (encode p ! (t + 11)) = ack_no p"
    using nth [of 8] nth [of 9] nth [of 10] nth [of 11] by (simp add: encode_tcp_nth)
qed

text \<open>
  C23. Neither SYN parser can panic: on every byte string each returns, and it reports a
  match exactly when the packet is at least 40 bytes of IPv4 TCP with a complete TCP header
  whose FIN, SYN, RST and ACK flags are SYN alone (SYN and ACK for the other parser), the test
  the documented nftables rules make.
\<close>

theorem SYN_parsers_total:
  "(\<exists>info. ParseIPv4PureTCPSYNInfo data = Some (info, tcp_flags_match 0x02 data)
       \<and> ParseIPv4PureTCPSYN data = Some (ClientIP info, tcp_flags_match 0x02 data))
   \<and> (\<exists>info. ParseIPv4TCPSYNACK data = Some (info, tcp_flags_match 0x12 data))"
  using ParseSYN_match [of data] ParseSYN_no_match [of data]
    ParseSYNACK_match [of data] ParseSYNACK_no_match [of data]
  by (cases "tcp_flags_match 0x02 data"; cases "tcp_flags_match 0x12 data")
    (simp_all add: ParseIPv4PureTCPSYN_def)

lemma ParseSYN_encode:
  assumes "wf_packet p" "tcp_flags p AND 0x17 = 0x02"
  shows "ParseIPv4PureTCPSYNInfo (encode p) =
      Some (\<lparr>ClientIP = addr_string (src_addr p), ClientPort = src_port p,
             ServerPort = dst_port p, pi_Seq = seq_no p, pi_Ack = 0\<rparr>, True)"
proof -
  obtain a b c d where s: "src_addr p = (a, b, c, d)" by (metis surj_pair)
  obtain e f g h where d: "dst_addr p = (e, f, g, h)" by (metis surj_pair)
  show ?thesis
    using assms(2) s by (simp add: ParseSYN_match encode_ports_seq [OF assms(1), simplified] encode_addr_nth [OF s d]
        tcp_flags_match_encode [OF assms(1)])
qed

lemma ParseSYNACK_encode:
  assumes "wf_packet p" "tcp_flags p AND 0x17 = 0x12"
  shows "ParseIPv4TCPSYNACK (encode p) =
      Some (\<lparr>ClientIP = addr_string (dst_addr p), ClientPort = dst_port p,
             ServerPort = src_port p, pi_Seq = seq_no p, pi_Ack = ack_no p\<rparr>, True)"
proof -
  obtain a b c d where s: "src_addr p = (a, b, c, d)" by (metis surj_pair)
  obtain e f g h where d: "dst_addr p = (e, f, g, h)" by (metis surj_pair)
  show ?thesis
    using assms(2) d by (simp add: ParseSYNACK_match encode_ports_seq [OF assms(1), simplified] encode_addr_nth [OF s d]
        tcp_flags_match_encode [OF assms(1)])
qed

text \<open>
  C24. Round trip of the SYN parsers: on every well-formed IPv4/TCP packet, with any IP and TCP
  options and any payload, the SYN parser matches exactly if of the flags FIN, SYN, RST and ACK only SYN
  is set, and the SYN/ACK parser exactly if only SYN and ACK are. On a match the first reads back the
  source address, the ports and the sequence number, the second the destination address, the
  swapped ports and both sequence numbers; otherwise both return the empty result.
\<close>

theorem SYN_parsers_roundtrip:
  assumes "wf_packet p"
  shows "ParseIPv4PureTCPSYNInfo (encode p) =
      Some (if tcp_flags p AND 0x17 = 0x02
            then (\<lparr>ClientIP = addr_string (src_addr p), ClientPort = src_port p,
                   ServerPort = dst_port p, pi_Seq = seq_no p, pi_Ack = 0\<rparr>, True)
            else (PacketInfo_zero, False))
    \<and> ParseIPv4TCPSYNACK (encode p) =
      Some (if tcp_flags p AND 0x17 = 0x12
            then (\<lparr>ClientIP = addr_string (dst_addr p), ClientPort = dst_port p,
                   ServerPort = src_port p, pi_Seq = seq_no p, pi_Ack = ack_no p\<rparr>, True)
            else (PacketInfo_zero, False))"
  using ParseSYN_encode [OF assms] ParseSYNACK_encode [OF assms] ParseSYN_no_match [of "encode p"]
    ParseSYNACK_no_match [of "encode p"]
  by (simp add: tcp_flags_match_encode [OF assms])

lemma example_packet_wf: "length pl \<le> 65495 \<Longrightarrow> wf_packet (example_packet fl pl)"
  by (simp add: wf_packet_def example_packet_def total_len_def ip_hlen_def tcp_hlen_def)

theorem SYN_parsers_roundtrip_witness:
  "ParseIPv4PureTCPSYNInfo (encode (example_packet 0x02 [])) =
     Some (\<lparr>ClientIP = ''192.0.2.10'', ClientPort = 443, ServerPort = 50123, pi_Seq = 1000,
            pi_Ack = 0\<rparr>, True)
   \<and> ParseIPv4PureTCPSYNInfo (encode (example_packet 0x06 [])) = Some (PacketInfo_zero, False)"
proof -
  have "addr_string (192, 0, 2, 10) = ''192.0.2.10''"
    by (simp add: IPv4_String_def print_base.simps digit_def char_of_def bit_0)
  then show ?thesis
    using SYN_parsers_roundtrip [OF example_packet_wf [of "[]" "0x02"]]
      SYN_parsers_roundtrip [OF example_packet_wf [of "[]" "0x06"]] by (simp add: example_packet_def)
qed

end
