(* ===== verification/Checksum.thy ===== *)
theory Checksum
  imports Prelude
begin

text \<open>
  The Internet checksum. The repository has it twice, once in \<open>src/internal/payload.go\<close>
  (reading through \<open>encoding/binary\<close>) and once in \<open>src/cmd/nfqcooldown/main.go\<close>
  (shifting by hand). Both keep the running sum in a \<open>uint32\<close> and fold the carries
  afterwards. The reference definitions are \<open>wsum\<close>, the sum of the big-endian 16-bit
  words over the natural numbers (an odd last byte is the high byte of a word), and
  \<open>ones_fold\<close>, its one's-complement reduction.
\<close>

subsection \<open>The code\<close>

fun sum_words :: "u32 \<Rightarrow> bytes \<Rightarrow> u32" where
  "sum_words acc (a # b # data) = sum_words (acc + ucast (be16 a b)) data"
| "sum_words acc [a] = acc + push_bit 8 (ucast a)"
| "sum_words acc [] = acc"

fun sum_words_main :: "u32 \<Rightarrow> bytes \<Rightarrow> u32" where
  "sum_words_main acc (a # b # data) =
     sum_words_main (acc + (push_bit 8 (ucast a) OR ucast b)) data"
| "sum_words_main acc [a] = acc + push_bit 8 (ucast a)"
| "sum_words_main acc [] = acc"

lemma unat_low_half: "unat (s AND 0xffff) = unat s mod 65536" for s :: u32
proof -
  have "s AND 0xffff = s mod 65536"
    using take_bit_eq_mask [of 16 s] by (simp add: take_bit_eq_mod mask_eq_decr_exp)
  then show ?thesis by (simp add: unat_mod)
qed

lemma unat_high_half: "unat (drop_bit 16 s) = unat s div 65536" for s :: u32
  by (simp add: drop_bit_eq_div unat_div)

lemma unat_fold_step: "unat ((s AND 0xffff) + drop_bit 16 s) = unat s mod 65536 + unat s div 65536"
  for s :: u32
proof -
  have "unat s < 2 ^ 32" using unsigned_less [of s, where ?'a = nat] by simp
  then have "unat s div 65536 < 65536" by (simp add: less_mult_imp_div_less)
  moreover have "unat s mod 65536 < 65536" by simp
  ultimately have "unat s mod 65536 + unat s div 65536 < 4294967296" by linarith
  then show ?thesis by (simp add: unat_word_ariths unat_low_half unat_high_half)
qed

lemma fold_step_less: "m div 65536 \<noteq> 0 \<Longrightarrow> m mod 65536 + m div 65536 < (m :: nat)"
  using div_mult_mod_eq [of m 65536] by linarith

function fold_carry :: "u32 \<Rightarrow> u32" where
  "fold_carry acc = (if drop_bit 16 acc \<noteq> 0
     then fold_carry ((acc AND 0xffff) + drop_bit 16 acc) else acc)"
  by pat_completeness auto
termination
proof (relation "measure unat")
  fix s :: u32
  assume "drop_bit 16 s \<noteq> 0"
  then have "unat s div 65536 \<noteq> 0" by (metis unat_high_half unat_0_iff)
  then show "((s AND 0xffff) + drop_bit 16 s, s) \<in> measure unat"
    by (simp add: unat_fold_step fold_step_less)
qed simp

declare fold_carry.simps [simp del]

definition internetChecksum :: "bytes \<Rightarrow> u16" where
  "internetChecksum data = NOT (ucast (fold_carry (sum_words 0 data)))"

definition internetChecksum_main :: "bytes \<Rightarrow> u16" where
  "internetChecksum_main data = NOT (ucast (fold_carry (sum_words_main 0 data)))"

subsection \<open>The reference\<close>

fun wsum :: "bytes \<Rightarrow> nat" where
  "wsum (a # b # data) = 256 * unat a + unat b + wsum data"
| "wsum [a] = 256 * unat a"
| "wsum [] = 0"

definition ones_fold :: "nat \<Rightarrow> nat" where
  "ones_fold n = (if n = 0 then 0 else Suc ((n - 1) mod 65535))"

subsection \<open>The sum\<close>

lemma sum_words_main_eq: "sum_words_main s data = sum_words s data"
proof (induction s data rule: sum_words.induct)
  case (1 s a b data)
  have "push_bit 8 (ucast a) OR ucast b = (ucast (be16 a b) :: u32)"
    by (rule bit_word_eqI) (auto simp: be16_def bit_simps dest: bit_imp_le_length)
  with 1 show ?case by simp
qed auto

lemma wsum_bound: "wsum data \<le> 65535 * ((length data + 1) div 2)"
proof (induction data rule: wsum.induct)
  case (1 a b data)
  then show ?case using unat_u8_less [of a] unat_u8_less [of b] by simp
next
  case (2 a)
  then show ?case using unat_u8_less [of a] by simp
qed auto

lemma sum_words_unat:
  "unat s + wsum data < 2 ^ 32 \<Longrightarrow> unat (sum_words s data) = unat s + wsum data"
proof (induction s data rule: sum_words.induct)
  case (1 s a b data)
  have "unat (s + ucast (be16 a b)) = unat s + (256 * unat a + unat b)"
    using 1 by (simp add: unat_word_ariths unat_be16)
  with 1 show ?case by simp
next
  case (2 s a)
  have "unat (push_bit 8 (ucast a :: u32)) = 256 * unat a"
    using unat_u8_less [of a] by (simp add: push_bit_eq_mult unat_word_ariths)
  with 2 show ?case by (simp add: unat_word_ariths)
qed auto

lemma ones_fold_step:
  "m div 65536 \<noteq> 0 \<Longrightarrow> ones_fold (m mod 65536 + m div 65536) = ones_fold m"
proof -
  assume h: "m div 65536 \<noteq> 0"
  have "m - 1 = (m mod 65536 + m div 65536 - 1) + 65535 * (m div 65536)"
    using h div_mult_mod_eq [of m 65536] by linarith
  then have "(m - 1) mod 65535 = (m mod 65536 + m div 65536 - 1) mod 65535"
    by (metis mod_mult_self2)
  with h show ?thesis by (auto simp: ones_fold_def)
qed

lemma fold_carry_unat: "unat (fold_carry s) = ones_fold (unat s)"
proof (induction s rule: fold_carry.induct)
  case (1 s)
  show ?case
  proof (cases "drop_bit 16 s = 0")
    case True
    then have "unat s div 65536 = 0" by (metis unat_high_half unsigned_0)
    then have "unat s < 65536" by (simp add: div_eq_0_iff)
    with True show ?thesis by (subst fold_carry.simps) (auto simp: ones_fold_def)
  next
    case False
    then have "unat s div 65536 \<noteq> 0" by (metis unat_high_half unat_0_iff)
    with False 1 show ?thesis
      by (subst fold_carry.simps) (simp add: unat_fold_step ones_fold_step)
  qed
qed

lemma ones_fold_le: "ones_fold n \<le> 65535"
  by (simp add: ones_fold_def Suc_le_eq)

lemma internetChecksum_unat:
  assumes "length data \<le> 131072"
  shows "unat (internetChecksum data) = 65535 - ones_fold (wsum data)"
proof -
  have "wsum data < 2 ^ 32" using wsum_bound [of data] assms by simp
  then have "unat (fold_carry (sum_words 0 data)) = ones_fold (wsum data)"
    by (simp add: fold_carry_unat sum_words_unat)
  then have "unat (ucast (fold_carry (sum_words 0 data)) :: u16) = ones_fold (wsum data)"
    using ones_fold_le [of "wsum data"] by (simp add: unsigned_ucast_eq take_bit_nat_eq_self)
  then show ?thesis by (simp add: internetChecksum_def unat_not16)
qed

subsection \<open>Filling in a checksum field\<close>

lemma wsum_append: "even (length xs) \<Longrightarrow> wsum (xs @ ys) = wsum xs + wsum ys"
  by (induction xs rule: wsum.induct) auto

lemma wsum_update:
  assumes "even i" and "Suc i < length xs"
  shows "wsum (xs[i := a, Suc i := b]) + (256 * unat (xs ! i) + unat (xs ! Suc i))
           = wsum xs + (256 * unat a + unat b)"
  using assms
proof (induction xs arbitrary: i rule: wsum.induct)
  case (1 x y data)
  show ?case
  proof (cases "i = 0")
    case False
    with 1(2) obtain j where "i = Suc (Suc j)" "even j"
      by (metis dvd_0_right even_Suc not0_implies_Suc)
    with 1 show ?thesis by simp
  qed simp
qed auto

lemma wsum_update_zero:
  assumes "even i" "Suc i < length xs" "xs ! i = 0" "xs ! Suc i = 0"
  shows "wsum (xs[i := hi8 c, Suc i := lo8 c]) = wsum xs + unat c"
  using wsum_update [OF assms(1,2), of "hi8 c" "lo8 c"] assms(3,4)
  by (simp flip: unat_be16)

lemma ones_fold_complement: "ones_fold (n + (65535 - ones_fold n)) = 65535"
proof (cases n)
  case (Suc m)
  have "m + (65535 - Suc (m mod 65535)) = 65534 + 65535 * (m div 65535)"
    using div_mult_mod_eq [of m 65535] mod_less_divisor [of 65535 m] by linarith
  moreover have "(65534 + 65535 * (m div 65535)) mod 65535 = 65534"
    by (subst mod_mult_self2) simp
  ultimately show ?thesis using Suc by (simp add: ones_fold_def)
qed (simp add: ones_fold_def)

lemma ones_fold_max_iff: "ones_fold n = 65535 \<longleftrightarrow> 0 < n \<and> n mod 65535 = 0"
proof (cases n)
  case (Suc m)
  have "m mod 65535 = 65534 \<longleftrightarrow> Suc m mod 65535 = 0"
    by (simp add: mod_Suc)
  with Suc show ?thesis by (simp add: ones_fold_def)
qed (simp add: ones_fold_def)

lemma ones_fold_double:
  "ones_fold (n + ones_fold n) = 65535 \<longleftrightarrow> ones_fold n = 65535"
proof (cases "n = 0")
  case False
  then have "ones_fold n mod 65535 = n mod 65535"
    by (cases n) (auto simp: ones_fold_def mod_Suc)
  then have "(n + ones_fold n) mod 65535 = (2 * n) mod 65535"
    by (metis mod_add_right_eq mult_2)
  moreover have "(2 * n) mod 65535 = 0 \<longleftrightarrow> n mod 65535 = 0"
    by (simp add: mod_eq_0_iff_dvd coprime_dvd_mult_right_iff)
  ultimately show ?thesis using False by (simp add: ones_fold_max_iff)
qed (simp add: ones_fold_def)

text \<open>
  The contract of a checksum routine, and what its users get from it: writing the computed
  value into a zeroed, even-aligned field makes the data verify, and writing the complement of the
  computed value makes it verify only in the case of the two one's-complement zeros.
\<close>

locale internet_checksum =
  fixes ck :: "bytes \<Rightarrow> u16"
  assumes ck_unat: "length data \<le> 131072 \<Longrightarrow> unat (ck data) = 65535 - ones_fold (wsum data)"
begin

lemma ck_zero_iff: "length data \<le> 131072 \<Longrightarrow> ck data = 0 \<longleftrightarrow> ones_fold (wsum data) = 65535"
  using ck_unat [of data] ones_fold_le [of "wsum data"] by (auto simp flip: unat_eq_0)

lemma ck_fill:
  assumes "length data \<le> 131072" "even i" "Suc i < length data" "data ! i = 0" "data ! Suc i = 0"
  shows "ck (data[i := hi8 (ck data), Suc i := lo8 (ck data)]) = 0"
  using assms by (simp add: ck_zero_iff wsum_update_zero ck_unat ones_fold_complement)

lemma ck_fill_complement:
  assumes "length data \<le> 131072" "even i" "Suc i < length data" "data ! i = 0" "data ! Suc i = 0"
    and "unat c = 65535 - unat (ck data)"
  shows "ck (data[i := hi8 c, Suc i := lo8 c]) = 0 \<longleftrightarrow> ck data = 0"
proof -
  have "unat c = ones_fold (wsum data)"
    using assms(1,6) ones_fold_le [of "wsum data"] by (simp add: ck_unat)
  then show ?thesis
    using assms(1-5) by (simp add: ck_zero_iff wsum_update_zero ones_fold_double)
qed

end

interpretation core_ck: internet_checksum internetChecksum
  by unfold_locales (rule internetChecksum_unat)

lemma internetChecksum_main_eq: "internetChecksum_main = internetChecksum"
  by (simp add: fun_eq_iff internetChecksum_def internetChecksum_main_def sum_words_main_eq)

interpretation main_ck: internet_checksum internetChecksum_main
  by unfold_locales (simp add: internetChecksum_main_eq internetChecksum_unat)

text \<open>
  C22. The two copies of the Internet checksum agree with each other on every input, and on
  every buffer an IPv4 packet can need they return the one's complement of the
  one's-complement sum of the big-endian 16-bit words; the 32-bit accumulator never
  overflows and the carry-folding loop ends.
\<close>

theorem internetChecksum_correct:
  "internetChecksum_main data = internetChecksum data
   \<and> (length data \<le> 131072 \<longrightarrow> unat (internetChecksum data) = 65535 - ones_fold (wsum data))"
  using core_ck.ck_unat by (simp add: internetChecksum_main_eq)

theorem internetChecksum_correct_witness:
  "unat (internetChecksum [0x45, 0, 0, 0x1c, 0xff]) = 65535 - ones_fold (wsum [0x45, 0, 0, 0x1c, 0xff])
   \<and> wsum [0x45, 0, 0, 0x1c, 0xff] = 82972"
  using internetChecksum_correct [of "[0x45, 0, 0, 0x1c, 0xff]"] by simp

end
