(* ===== verification/Payload.thy ===== *)
theory Payload
  imports Packet_Format Checksum
begin

text \<open>
  \<open>src/internal/payload.go\<close>: recognising TCP segments with payload, splitting one segment
  into two and recomputing the IPv4 and TCP checksums. All slice accesses are checked, so
  \<open>None\<close> is a run-time panic. \<open>firstTCP\<close>, \<open>secondTCP\<close> and \<open>tcp\<close> alias the
  packet they are sliced from; the model writes through them at the shifted offset.
\<close>

record TCPPayloadInfo =
  SrcIP :: bytes
  DstIP :: bytes
  SrcPort :: u16
  DstPort :: u16
  Seq :: u32
  Ack :: u32
  Flags :: u8
  IPHeaderLen :: int
  TCPHeaderLen :: int
  PayloadOffset :: int
  PayloadLen :: int
  TotalLen :: int

definition TCPPayloadInfo_zero :: TCPPayloadInfo where
  "TCPPayloadInfo_zero = \<lparr>SrcIP = [], DstIP = [], SrcPort = 0, DstPort = 0, Seq = 0, Ack = 0,
     Flags = 0, IPHeaderLen = 0, TCPHeaderLen = 0, PayloadOffset = 0, PayloadLen = 0, TotalLen = 0\<rparr>"

datatype split_error =
    SplitOffsetOutside int int
  | InvalidPacketMetadata

definition ParseIPv4TCPPayload :: "bytes \<Rightarrow> (TCPPayloadInfo \<times> bool) option" where
  "ParseIPv4TCPPayload packet =
    (if len packet < 20 + 20 then Some (TCPPayloadInfo_zero, False)
     else do {
       b0 \<leftarrow> idx packet 0;
       if drop_bit 4 b0 \<noteq> 4 then Some (TCPPayloadInfo_zero, False)
       else do {
         let ipHeaderLen = int_of (b0 AND 0x0f) * 4;
         if ipHeaderLen < 20 \<or> len packet < ipHeaderLen + 20 then Some (TCPPayloadInfo_zero, False)
         else do {
           b9 \<leftarrow> idx packet 9;
           if b9 \<noteq> 6 then Some (TCPPayloadInfo_zero, False)
           else do {
             frg \<leftarrow> Uint16_at packet 6 8;
             if frg AND 0x3fff \<noteq> 0 then Some (TCPPayloadInfo_zero, False)
             else do {
               l16 \<leftarrow> Uint16_at packet 2 4;
               let totalLen = int_of l16;
               if totalLen < ipHeaderLen + 20 \<or> len packet < totalLen then Some (TCPPayloadInfo_zero, False)
               else do {
                 tcp \<leftarrow> slice packet ipHeaderLen totalLen;
                 off \<leftarrow> idx tcp 12;
                 let tcpHeaderLen = int_of (drop_bit 4 off) * 4;
                 if tcpHeaderLen < 20 \<or> len tcp < tcpHeaderLen then Some (TCPPayloadInfo_zero, False)
                 else do {
                   let payloadOffset = ipHeaderLen + tcpHeaderLen;
                   let payloadLen = totalLen - payloadOffset;
                   if payloadLen \<le> 0 then Some (TCPPayloadInfo_zero, False)
                   else do {
                     s0 \<leftarrow> idx packet 12; s1 \<leftarrow> idx packet 13; s2 \<leftarrow> idx packet 14; s3 \<leftarrow> idx packet 15;
                     d0 \<leftarrow> idx packet 16; d1 \<leftarrow> idx packet 17; d2 \<leftarrow> idx packet 18; d3 \<leftarrow> idx packet 19;
                     sport \<leftarrow> Uint16_at tcp 0 2;
                     dport \<leftarrow> Uint16_at tcp 2 4;
                     seq \<leftarrow> Uint32_at tcp 4 8;
                     ack \<leftarrow> Uint32_at tcp 8 12;
                     flags \<leftarrow> idx tcp 13;
                     Some (\<lparr>SrcIP = net_IPv4 s0 s1 s2 s3, DstIP = net_IPv4 d0 d1 d2 d3,
                       SrcPort = sport, DstPort = dport, Seq = seq, Ack = ack, Flags = flags,
                       IPHeaderLen = ipHeaderLen, TCPHeaderLen = tcpHeaderLen,
                       PayloadOffset = payloadOffset, PayloadLen = payloadLen,
                       TotalLen = totalLen\<rparr>, True)
                   }}}}}}}})"

definition fixIPv4TCPChecksums :: "bytes \<Rightarrow> int \<Rightarrow> bytes option" where
  "fixIPv4TCPChecksums packet ipHeaderLen = do {
     packet \<leftarrow> PutUint16 packet 2 (word_of_int (len packet));
     packet \<leftarrow> upd packet 10 0;
     packet \<leftarrow> upd packet 11 0;
     hdr \<leftarrow> slice packet 0 ipHeaderLen;
     packet \<leftarrow> PutUint16 packet 10 (internetChecksum hdr);
     _ \<leftarrow> slice_from packet ipHeaderLen;
     packet \<leftarrow> upd packet (ipHeaderLen + 16) 0;
     packet \<leftarrow> upd packet (ipHeaderLen + 17) 0;
     tcp \<leftarrow> slice_from packet ipHeaderLen;
     pseudo \<leftarrow> make_bytes (12 + len tcp);
     src \<leftarrow> slice packet 12 16;
     pseudo \<leftarrow> copy_at pseudo 0 4 src;
     dst \<leftarrow> slice packet 16 20;
     pseudo \<leftarrow> copy_at pseudo 4 8 dst;
     pseudo \<leftarrow> upd pseudo 9 6;
     pseudo \<leftarrow> PutUint16 pseudo 10 (word_of_int (len tcp));
     pseudo \<leftarrow> copy_at pseudo 12 (len pseudo) tcp;
     PutUint16 packet (ipHeaderLen + 16) (internetChecksum pseudo)
   }"

definition SplitIPv4TCPPacket ::
  "bytes \<Rightarrow> TCPPayloadInfo \<Rightarrow> int \<Rightarrow> (split_error + bytes \<times> bytes) option" where
  "SplitIPv4TCPPacket packet info splitAt =
    (if splitAt \<le> 0 \<or> PayloadLen info \<le> splitAt
     then Some (Inl (SplitOffsetOutside splitAt (PayloadLen info)))
     else if len packet < TotalLen info \<or> PayloadOffset info < 0 \<or> TotalLen info < PayloadOffset info
     then Some (Inl InvalidPacketMetadata)
     else do {
       header \<leftarrow> slice packet 0 (PayloadOffset info);
       payload \<leftarrow> slice packet (PayloadOffset info) (TotalLen info);
       first \<leftarrow> make_bytes (len header + splitAt);
       first \<leftarrow> copy_at first 0 (len first) header;
       p1 \<leftarrow> slice payload 0 splitAt;
       first \<leftarrow> copy_at first (len header) (len first) p1;
       secondPayload \<leftarrow> slice_from payload splitAt;
       second \<leftarrow> make_bytes (len header + len secondPayload);
       second \<leftarrow> copy_at second 0 (len second) header;
       second \<leftarrow> copy_at second (len header) (len second) secondPayload;
       _ \<leftarrow> slice_from first (IPHeaderLen info);
       _ \<leftarrow> slice_from second (IPHeaderLen info);
       f13 \<leftarrow> idx first (IPHeaderLen info + 13);
       first \<leftarrow> upd first (IPHeaderLen info + 13) (f13 AND NOT 0x09);
       second \<leftarrow> PutUint32 second (IPHeaderLen info + 4) (Seq info + word_of_int splitAt);
       first \<leftarrow> fixIPv4TCPChecksums first (IPHeaderLen info);
       second \<leftarrow> fixIPv4TCPChecksums second (IPHeaderLen info);
       Some (Inr (first, second))
     })"

subsection \<open>The structured view\<close>

text \<open>What the parser should read from a printed packet.\<close>

fun addr16 :: "u8 \<times> u8 \<times> u8 \<times> u8 \<Rightarrow> bytes" where
  "addr16 (a, b, c, d) = net_IPv4 a b c d"

definition info_of :: "tcp_packet \<Rightarrow> TCPPayloadInfo" where
  "info_of p = \<lparr>SrcIP = addr16 (src_addr p), DstIP = addr16 (dst_addr p),
     SrcPort = src_port p, DstPort = dst_port p, Seq = seq_no p, Ack = ack_no p,
     Flags = tcp_flags p, IPHeaderLen = int (ip_hlen p), TCPHeaderLen = int (tcp_hlen p),
     PayloadOffset = int (ip_hlen p + tcp_hlen p), PayloadLen = int (length (payload p)),
     TotalLen = int (total_len p)\<rparr>"

definition splittable :: "tcp_packet \<Rightarrow> bool" where
  "splittable p \<longleftrightarrow> wf_packet p \<and> payload p \<noteq> [] \<and> frag p AND 0x3fff = 0"

definition pseudo_header :: "tcp_packet \<Rightarrow> bytes" where
  "pseudo_header p = addr_bytes (src_addr p) @ addr_bytes (dst_addr p) @ [0, 6]
     @ u16_bytes (of_nat (tcp_hlen p + length (payload p)))"

definition tcp_sum_bytes :: "tcp_packet \<Rightarrow> bytes" where
  "tcp_sum_bytes p = pseudo_header p @ encode_tcp p @ payload p"

definition checksums_valid :: "tcp_packet \<Rightarrow> bool" where
  "checksums_valid p \<longleftrightarrow> internetChecksum (encode_ip p) = 0 \<and> internetChecksum (tcp_sum_bytes p) = 0"

definition set_checksums :: "tcp_packet \<Rightarrow> tcp_packet" where
  "set_checksums p =
     (let q = p\<lparr>ip_checksum := 0, tcp_checksum := 0\<rparr>
      in q\<lparr>ip_checksum := internetChecksum (encode_ip q),
           tcp_checksum := internetChecksum (tcp_sum_bytes q)\<rparr>)"

definition first_segment :: "tcp_packet \<Rightarrow> nat \<Rightarrow> tcp_packet" where
  "first_segment p k = p\<lparr>payload := take k (payload p), tcp_flags := tcp_flags p AND NOT 0x09\<rparr>"

definition second_segment :: "tcp_packet \<Rightarrow> nat \<Rightarrow> tcp_packet" where
  "second_segment p k = p\<lparr>payload := drop k (payload p), seq_no := seq_no p + of_nat k\<rparr>"

text \<open>What the parser accepts, and what it reads, as conditions on the bytes.\<close>

definition total_field :: "bytes \<Rightarrow> nat" where
  "total_field data = unat (be16 (data ! 2) (data ! 3))"

definition doff_bytes :: "bytes \<Rightarrow> nat" where
  "doff_bytes data = 4 * unat (drop_bit 4 (data ! (ihl_bytes data + 12)))"

definition payload_match :: "bytes \<Rightarrow> bool" where
  "payload_match data \<longleftrightarrow>
     40 \<le> length data \<and> drop_bit 4 (data ! 0) = 4 \<and> 20 \<le> ihl_bytes data
     \<and> ihl_bytes data + 20 \<le> length data \<and> data ! 9 = 6
     \<and> be16 (data ! 6) (data ! 7) AND 0x3fff = 0
     \<and> ihl_bytes data + 20 \<le> total_field data \<and> total_field data \<le> length data
     \<and> 20 \<le> doff_bytes data \<and> ihl_bytes data + doff_bytes data < total_field data"

definition payload_fields :: "bytes \<Rightarrow> TCPPayloadInfo" where
  "payload_fields data =
     (let t = ihl_bytes data
      in \<lparr>SrcIP = net_IPv4 (data ! 12) (data ! 13) (data ! 14) (data ! 15),
          DstIP = net_IPv4 (data ! 16) (data ! 17) (data ! 18) (data ! 19),
          SrcPort = be16 (data ! t) (data ! (t + 1)),
          DstPort = be16 (data ! (t + 2)) (data ! (t + 3)),
          Seq = be32 (data ! (t + 4)) (data ! (t + 5)) (data ! (t + 6)) (data ! (t + 7)),
          Ack = be32 (data ! (t + 8)) (data ! (t + 9)) (data ! (t + 10)) (data ! (t + 11)),
          Flags = data ! (t + 13), IPHeaderLen = int t, TCPHeaderLen = int (doff_bytes data),
          PayloadOffset = int t + int (doff_bytes data),
          PayloadLen = int (total_field data) - (int t + int (doff_bytes data)),
          TotalLen = int (total_field data)\<rparr>)"

subsection \<open>Parsing\<close>

lemma total_int: "int_of (be16 (data ! 2) (data ! 3)) = int (total_field data)"
  by (simp add: int_of_def total_field_def)

lemma doff_int: "int_of (drop_bit 4 (data ! (ihl_bytes data + 12))) * 4 = int (doff_bytes data)"
  by (simp add: int_of_def doff_bytes_def)

lemma ParsePayload_match:
  assumes "payload_match data"
  shows "ParseIPv4TCPPayload data = Some (payload_fields data, True)"
proof -
  let ?t = "ihl_bytes data" and ?L = "total_field data" and ?o = "doff_bytes data"
  define T where "T = take (?L - ?t) (drop ?t data)"
  have m: "40 \<le> length data" "drop_bit 4 (data ! 0) = 4" "20 \<le> ?t" "?t + 20 \<le> length data"
    "data ! 9 = 6" "be16 (data ! 6) (data ! 7) AND 0x3fff = 0" "?t + 20 \<le> ?L" "?L \<le> length data"
    "20 \<le> ?o" "?t + ?o < ?L"
    using assms by (auto simp: payload_match_def)
  have T: "slice data (int ?t) (int ?L) = Some T" "len T = int ?L - int ?t"
    using m by (auto simp: T_def slice_ok)
  have ne: "data \<noteq> []" "T \<noteq> []" using m T(2) by auto
  have nth: "T ! i = data ! (?t + i)" if "i < 20" for i
    using that m by (simp add: T_def)
  show ?thesis
    using m T(2) ne doff_int [of data]
    by (simp add: ParseIPv4TCPPayload_def payload_fields_def panic_free Let_def
        ihl_int total_int T(1) nth add.commute del: of_nat_add)
qed

lemma ParsePayload_no_match:
  assumes "\<not> payload_match data"
  shows "ParseIPv4TCPPayload data = Some (TCPPayloadInfo_zero, False)"
proof (cases "40 \<le> length data \<and> drop_bit 4 (data ! 0) = 4 \<and> 20 \<le> ihl_bytes data
    \<and> ihl_bytes data + 20 \<le> length data \<and> data ! 9 = 6 \<and> be16 (data ! 6) (data ! 7) AND 0x3fff = 0
    \<and> ihl_bytes data + 20 \<le> total_field data \<and> total_field data \<le> length data")
  case True
  let ?t = "ihl_bytes data" and ?L = "total_field data" and ?o = "doff_bytes data"
  define T where "T = take (?L - ?t) (drop ?t data)"
  have T: "slice data (int ?t) (int ?L) = Some T" "len T = int ?L - int ?t" "T \<noteq> []" "data \<noteq> []"
    using True by (auto simp: T_def slice_ok)
  have nth: "T ! 12 = data ! (?t + 12)" using True by (auto simp: T_def)
  have "?o < 20 \<or> ?L \<le> ?t + ?o" using True assms by (auto simp: payload_match_def)
  with True T(2-) doff_int [of data] show ?thesis
    by (auto simp: ParseIPv4TCPPayload_def panic_free Let_def ihl_int total_int T(1) nth)
next
  case False
  then show ?thesis
    by (cases "data = []") (auto simp: ParseIPv4TCPPayload_def panic_free Let_def ihl_int total_int)
qed

subsection \<open>Printed packets\<close>

lemma min_lens: "40 \<le> total_len p" "20 \<le> ip_hlen p" "20 \<le> tcp_hlen p" "ip_hlen p + tcp_hlen p \<le> total_len p"
  by (auto simp: total_len_def ip_hlen_def tcp_hlen_def)

lemma encode_app_nth: "i < total_len p \<Longrightarrow> (encode p @ tr) ! i = encode p ! i"
  by (simp add: nth_append)

lemma encode_app_nth_hdr: "i < 40 \<Longrightarrow> (encode p @ tr) ! i = encode p ! i"
  using min_lens(1) [of p] by (simp add: encode_app_nth)

lemma encode_app_ihl: "wf_packet p \<Longrightarrow> ihl_bytes (encode p @ tr) = ip_hlen p"
  using ihl_bytes_encode [of p] by (simp add: ihl_bytes_def encode_app_nth_hdr)

lemma encode_app_tcp: "i < 20 \<Longrightarrow> (encode p @ tr) ! (ip_hlen p + i) = encode_tcp p ! i"
  using min_lens [of p] by (simp add: encode_app_nth encode_tcp_shift)

lemma encode_app_total: "wf_packet p \<Longrightarrow> total_field (encode p @ tr) = total_len p"
  by (simp add: total_field_def encode_app_nth_hdr encode_ip_nth wf_packet_def
      unsigned_of_nat take_bit_nat_eq_self)

lemma encode_app_doff:
  assumes "wf_packet p"
  shows "doff_bytes (encode p @ tr) = tcp_hlen p"
proof -
  have "unat (drop_bit 4 (of_nat (16 * (tcp_hlen p div 4)) + reserved p :: u8)) = tcp_hlen p div 4"
    using assms wf_hlen(3) [OF assms] by (intro offset_byte) (auto simp: wf_packet_def)
  then show ?thesis
    using wf_hlen(4) [OF assms]
    by (simp add: doff_bytes_def encode_app_ihl [OF assms] encode_app_tcp encode_tcp_nth
        del: of_nat_mult)
qed

lemma payload_match_encode:
  assumes "wf_packet p"
  shows "payload_match (encode p @ tr) \<longleftrightarrow> payload p \<noteq> [] \<and> frag p AND 0x3fff = 0"
  using min_lens [of p] wf_hlen [OF assms] version_byte [of "ip_hlen p div 4"]
  by (auto simp: payload_match_def encode_app_ihl [OF assms] encode_app_total [OF assms]
      encode_app_doff [OF assms] encode_app_nth_hdr encode_ip_nth)
    (auto simp: total_len_def)

lemma payload_fields_encode:
  assumes "wf_packet p"
  shows "payload_fields (encode p @ tr) = info_of p"
proof -
  obtain a b c d where s: "src_addr p = (a, b, c, d)" by (metis surj_pair)
  obtain e f g h where d: "dst_addr p = (e, f, g, h)" by (metis surj_pair)
  have t0: "(encode p @ tr) ! ip_hlen p = encode_tcp p ! 0" using encode_app_tcp [of 0 p] by simp
  show ?thesis
    using s d encode_app_tcp [of 1 p, simplified] encode_app_tcp [of 2 p, simplified]
    by (simp add: payload_fields_def info_of_def Let_def encode_app_ihl [OF assms]
        encode_app_total [OF assms] encode_app_doff [OF assms] encode_app_nth_hdr
        encode_addr_nth [OF s d] encode_app_tcp t0 encode_tcp_nth [simplified] total_len_def)
qed

lemma ParsePayload_encode:
  "splittable p \<Longrightarrow> ParseIPv4TCPPayload (encode p @ tr) = Some (info_of p, True)"
  by (simp add: splittable_def ParsePayload_match payload_match_encode payload_fields_encode)

subsection \<open>Every accepted packet is a printed packet\<close>

definition decode :: "bytes \<Rightarrow> tcp_packet" where
  "decode data =
     (let t = ihl_bytes data; k = doff_bytes data; n = total_field data
      in \<lparr>tos = data ! 1, ident = be16 (data ! 4) (data ! 5), frag = be16 (data ! 6) (data ! 7),
          ttl = data ! 8, ip_checksum = be16 (data ! 10) (data ! 11),
          src_addr = (data ! 12, data ! 13, data ! 14, data ! 15),
          dst_addr = (data ! 16, data ! 17, data ! 18, data ! 19),
          ip_options = take (t - 20) (drop 20 data),
          src_port = be16 (data ! t) (data ! (t + 1)), dst_port = be16 (data ! (t + 2)) (data ! (t + 3)),
          seq_no = be32 (data ! (t + 4)) (data ! (t + 5)) (data ! (t + 6)) (data ! (t + 7)),
          ack_no = be32 (data ! (t + 8)) (data ! (t + 9)) (data ! (t + 10)) (data ! (t + 11)),
          reserved = data ! (t + 12) AND 0x0f, tcp_flags = data ! (t + 13),
          window = be16 (data ! (t + 14)) (data ! (t + 15)),
          tcp_checksum = be16 (data ! (t + 16)) (data ! (t + 17)),
          urgent = be16 (data ! (t + 18)) (data ! (t + 19)),
          tcp_options = take (k - 20) (drop (t + 20) data),
          payload = take (n - (t + k)) (drop (t + k) data)\<rparr>)"

lemma byte_split: "b = of_nat (16 * unat (drop_bit 4 b)) + (b AND 0x0f)" for b :: u8
proof (rule unsigned_word_eqI [where ?'a = nat])
  have "16 * (unat b div 16) + unat b mod 16 = unat b" by simp
  then show "unat b = unat (of_nat (16 * unat (drop_bit 4 b)) + (b AND 0x0f) :: u8)"
    using unat_u8_less [of b]
    by (simp add: unat_word_ariths unat_low_nibble drop_bit_eq_div unat_div unsigned_of_nat
        take_bit_nat_eq_self less_mult_imp_div_less)
qed

lemma version_byte_split:
  fixes b :: u8
  assumes "drop_bit 4 b = 4"
  shows "0x40 + of_nat (unat b mod 16) = b"
proof (rule unsigned_word_eqI [where ?'a = nat])
  have "unat b div 16 = 4"
    using arg_cong [OF assms, of unat] by (simp add: drop_bit_eq_div unat_div)
  then have "64 + unat b mod 16 = unat b" using div_mult_mod_eq [of "unat b" 16] by simp
  then show "unat (0x40 + of_nat (unat b mod 16) :: u8) = unat b"
    using unat_u8_less [of b]
    by (simp add: unat_word_ariths unsigned_of_nat take_bit_nat_eq_self)
qed

lemma decode_lens:
  assumes "payload_match data"
  shows "ip_hlen (decode data) = ihl_bytes data" "tcp_hlen (decode data) = doff_bytes data"
    "total_len (decode data) = total_field data"
  using assms
  by (auto simp: decode_def Let_def payload_match_def ip_hlen_def tcp_hlen_def total_len_def min_def)

lemma decode_splittable:
  assumes "payload_match data"
  shows "splittable (decode data)"
proof -
  let ?t = "ihl_bytes data" and ?k = "doff_bytes data"
  have "?t < 64" by (simp add: ihl_bytes_def)
  moreover have "unat (drop_bit 4 b) < 16" for b :: u8
    using unat_u8_less [of b] by (simp add: drop_bit_eq_div unat_div less_mult_imp_div_less)
  then have "?k < 64" by (simp add: doff_bytes_def)
  moreover have "4 dvd ?t" "4 dvd ?k" by (simp_all add: ihl_bytes_def doff_bytes_def)
  moreover have "20 \<le> ?t" "20 \<le> ?k" using assms by (auto simp: payload_match_def)
  ultimately have "?t - 20 \<le> 40" "4 dvd ?t - 20" "?k - 20 \<le> 40" "4 dvd ?k - 20" by presburger+
  moreover have "length (ip_options (decode data)) = ?t - 20"
    "length (tcp_options (decode data)) = ?k - 20"
    using decode_lens [OF assms] by (auto simp: ip_hlen_def tcp_hlen_def)
  moreover have "total_len (decode data) \<le> 65535"
    using unsigned_less [of "be16 (data ! 2) (data ! 3)", where ?'a = nat]
    by (simp add: decode_lens [OF assms] total_field_def)
  moreover have "payload (decode data) \<noteq> []"
    using assms by (auto simp: decode_def Let_def payload_match_def)
  moreover have "frag (decode data) AND 0x3fff = 0"
    using assms by (simp add: decode_def Let_def payload_match_def)
  moreover have "unat (reserved (decode data)) < 16"
    by (simp add: decode_def Let_def unat_low_nibble)
  ultimately show ?thesis by (simp add: splittable_def wf_packet_def)
qed

lemma decode_ip:
  assumes "payload_match data"
  shows "encode_ip (decode data) = take (ihl_bytes data) data"
proof -
  have m: "20 \<le> ihl_bytes data" "ihl_bytes data \<le> length data" "drop_bit 4 (data ! 0) = 4" "data ! 9 = 6"
    using assms by (auto simp: payload_match_def)
  have "take (ihl_bytes data) data = take 20 data @ take (ihl_bytes data - 20) (drop 20 data)"
    using m by (metis le_add_diff_inverse take_add)
  also have "take 20 data = map ((!) data) [0..<20]" using m by (intro take_as_map) simp
  finally have eq: "take (ihl_bytes data) data
      = map ((!) data) [0..<20] @ take (ihl_bytes data - 20) (drop 20 data)" .
  have b0: "0x40 + of_nat (ihl_bytes data div 4) = data ! 0"
    using version_byte_split [OF m(3)] by (simp add: ihl_bytes_def)
  have tot: "of_nat (total_field data) = be16 (data ! 2) (data ! 3)"
    by (simp add: total_field_def)
  show ?thesis
    using m(4) unfolding encode_ip_def encode_ip_tl_def decode_lens [OF assms] b0 tot eq
    by (simp add: decode_def Let_def u16_bytes_def upt_rec_numeral numeral_eq_Suc)
qed

lemma decode_tcp:
  assumes "payload_match data"
  shows "encode_tcp (decode data) = take (doff_bytes data) (drop (ihl_bytes data) data)"
proof -
  let ?t = "ihl_bytes data" and ?k = "doff_bytes data"
  have m: "20 \<le> ?k" "?t + ?k \<le> length data"
    using assms by (auto simp: payload_match_def)
  have "take ?k (drop ?t data) = take 20 (drop ?t data) @ take (?k - 20) (drop (?t + 20) data)"
    using m by (metis add.commute drop_drop le_add_diff_inverse take_add)
  also have "take 20 (drop ?t data) = map (\<lambda>i. data ! (?t + i)) [0..<20]"
    using m by (intro take_drop_as_map) simp
  finally have eq: "take ?k (drop ?t data)
      = map (\<lambda>i. data ! (?t + i)) [0..<20] @ take (?k - 20) (drop (?t + 20) data)" .
  have b12: "of_nat (16 * (?k div 4)) + (data ! (?t + 12) AND 0x0f) = data ! (?t + 12)"
    using byte_split [of "data ! (?t + 12)"] by (simp add: doff_bytes_def)
  have "encode_tcp (decode data) =
      [data ! ?t, data ! (?t + 1), data ! (?t + 2), data ! (?t + 3), data ! (?t + 4),
       data ! (?t + 5), data ! (?t + 6), data ! (?t + 7), data ! (?t + 8), data ! (?t + 9),
       data ! (?t + 10), data ! (?t + 11), of_nat (16 * (?k div 4)) + (data ! (?t + 12) AND 0x0f),
       data ! (?t + 13), data ! (?t + 14), data ! (?t + 15), data ! (?t + 16), data ! (?t + 17),
       data ! (?t + 18), data ! (?t + 19)] @ take (?k - 20) (drop (?t + 20) data)"
    unfolding encode_tcp_def decode_lens [OF assms]
    by (simp add: decode_def Let_def u16_bytes_def u32_bytes_def)
  then show ?thesis unfolding eq b12
    by (simp add: upt_rec_numeral numeral_eq_Suc)
qed

lemma decode_encode:
  assumes "payload_match data"
  shows "data = encode (decode data) @ drop (total_field data) data"
proof -
  let ?t = "ihl_bytes data" and ?k = "doff_bytes data" and ?n = "total_field data"
  have le: "?t + ?k \<le> ?n" using assms by (simp add: payload_match_def)
  have "data = take ?t data @ take ?k (drop ?t data) @ take (?n - (?t + ?k)) (drop (?t + ?k) data)
      @ drop ?n data"
    using le by (metis add.commute append_take_drop_id drop_drop le_add_diff_inverse2)
  moreover have "payload (decode data) = take (?n - (?t + ?k)) (drop (?t + ?k) data)"
    by (simp add: decode_def Let_def)
  ultimately show ?thesis
    by (simp add: encode_def decode_ip [OF assms] decode_tcp [OF assms])
qed

end
