(* ===== verification/Payload_Split.thy ===== *)
theory Payload_Split
  imports Payload
begin

text \<open>
  Correctness of \<open>SplitIPv4TCPPacket\<close> and \<open>fixIPv4TCPChecksums\<close>
  (\<open>src/internal/payload.go\<close>): on a printed packet the byte-level code produces exactly
  the printed forms of the two structured segments, with valid checksums; since every packet
  the parser accepts is a printed packet, this covers all inputs.
\<close>

subsection \<open>Writing into a printed packet\<close>

lemma hi_lo_zero [simp]: "hi8 0 = 0" "lo8 0 = 0"
  by (simp_all add: hi8_def lo8_def)

lemma hlen_updates [simp]:
  "ip_hlen (p\<lparr>ip_checksum := c\<rparr>) = ip_hlen p" "ip_hlen (p\<lparr>tcp_checksum := c\<rparr>) = ip_hlen p"
  "ip_hlen (p\<lparr>payload := x\<rparr>) = ip_hlen p" "ip_hlen (p\<lparr>tcp_flags := f\<rparr>) = ip_hlen p"
  "ip_hlen (p\<lparr>seq_no := s\<rparr>) = ip_hlen p"
  "tcp_hlen (p\<lparr>ip_checksum := c\<rparr>) = tcp_hlen p" "tcp_hlen (p\<lparr>tcp_checksum := c\<rparr>) = tcp_hlen p"
  "tcp_hlen (p\<lparr>payload := x\<rparr>) = tcp_hlen p" "tcp_hlen (p\<lparr>tcp_flags := f\<rparr>) = tcp_hlen p"
  "tcp_hlen (p\<lparr>seq_no := s\<rparr>) = tcp_hlen p"
  "total_len (p\<lparr>ip_checksum := c\<rparr>) = total_len p" "total_len (p\<lparr>tcp_checksum := c\<rparr>) = total_len p"
  "total_len (p\<lparr>tcp_flags := f\<rparr>) = total_len p" "total_len (p\<lparr>seq_no := s\<rparr>) = total_len p"
  by (simp_all add: ip_hlen_def tcp_hlen_def total_len_def)

lemma ip_write_len: "(encode_ip_tl L p @ B)[2 := hi8 w, 3 := lo8 w] = encode_ip_tl w p @ B"
  by (simp add: encode_ip_tl_def u16_bytes_def)

lemma ip_write_checksum:
  "(encode_ip_tl L p @ B)[10 := hi8 w, 11 := lo8 w] = encode_ip_tl L (p\<lparr>ip_checksum := w\<rparr>) @ B"
  by (simp add: encode_ip_tl_def u16_bytes_def)

lemma tcp_write_checksum:
  "(encode_tcp p)[16 := hi8 w, 17 := lo8 w] = encode_tcp (p\<lparr>tcp_checksum := w\<rparr>)"
  by (simp add: encode_tcp_def u16_bytes_def u32_bytes_def)

lemma tcp_write_flags: "(encode_tcp p)[13 := f] = encode_tcp (p\<lparr>tcp_flags := f\<rparr>)"
  by (simp add: encode_tcp_def u16_bytes_def u32_bytes_def)

lemma tcp_write_seq:
  "(encode_tcp p)[4 := ucast (drop_bit 24 w), 5 := ucast (drop_bit 16 w),
     6 := ucast (drop_bit 8 w), 7 := ucast w] = encode_tcp (p\<lparr>seq_no := w\<rparr>)"
  by (simp add: encode_tcp_def u16_bytes_def u32_bytes_def)

text \<open>Fields that one part of the header does not depend on.\<close>

lemma encode_parts_indep [simp]:
  "encode_ip_tl L (p\<lparr>tcp_checksum := c\<rparr>) = encode_ip_tl L p"
  "encode_ip_tl L (p\<lparr>payload := x\<rparr>) = encode_ip_tl L p"
  "encode_ip_tl L (p\<lparr>tcp_flags := f\<rparr>) = encode_ip_tl L p"
  "encode_ip_tl L (p\<lparr>seq_no := s\<rparr>) = encode_ip_tl L p"
  "encode_tcp (p\<lparr>ip_checksum := c\<rparr>) = encode_tcp p"
  "encode_tcp (p\<lparr>payload := x\<rparr>) = encode_tcp p"
  "encode_ip_tl L (p\<lparr>tcp_checksum := d, ip_checksum := c\<rparr>) = encode_ip_tl L (p\<lparr>ip_checksum := c\<rparr>)"
  "encode_tcp (p\<lparr>ip_checksum := c, tcp_checksum := d\<rparr>) = encode_tcp (p\<lparr>tcp_checksum := d\<rparr>)"
  by (simp_all add: encode_ip_tl_def encode_tcp_def)

text \<open>The checked writes, as the code makes them.\<close>

lemma list_update_shift:
  "length A = n \<Longrightarrow> i < length B \<Longrightarrow> (A @ B @ C)[n + i := v] = A @ B[i := v] @ C"
  by (simp add: list_update_append)

lemma Put_len:
  "PutUint16 (encode_ip_tl L p @ B) 2 w = Some (encode_ip_tl w p @ B)"
  using ip_hlen_min [of p] by (simp add: PutUint16_ok flip: ip_write_len [of L p B w])

lemma Put_ip_checksum:
  "PutUint16 (encode_ip_tl L p @ B) 10 w = Some (encode_ip_tl L (p\<lparr>ip_checksum := w\<rparr>) @ B)"
  using ip_hlen_min [of p] by (simp add: PutUint16_ok flip: ip_write_checksum)

lemma zero_ip_checksum:
  "do { x \<leftarrow> upd (encode_ip_tl L p @ B) 10 0; y \<leftarrow> upd x 11 0; f y }
     = f (encode_ip_tl L (p\<lparr>ip_checksum := 0\<rparr>) @ B)"
  using ip_hlen_min [of p] ip_write_checksum [of L p B 0] by (simp add: upd_ok)

lemma nat_shift: "nat (int n + numeral k) = n + numeral k"
  by (simp add: nat_add_distrib)

lemma upd_tcp_checksum:
  assumes "length A = n"
  shows "do { x \<leftarrow> upd (A @ encode_tcp p @ B) (int n + 16) (hi8 w); y \<leftarrow> upd x (int n + 17) (lo8 w); f y }
     = f (A @ encode_tcp (p\<lparr>tcp_checksum := w\<rparr>) @ B)"
  using tcp_hlen_min [of p] assms tcp_write_checksum [of p w]
  by (simp add: upd_ok nat_shift list_update_append)

lemma zero_tcp_checksum:
  assumes "length A = n"
  shows "do { x \<leftarrow> upd (A @ encode_tcp p @ B) (int n + 16) 0; y \<leftarrow> upd x (int n + 17) 0; f y }
     = f (A @ encode_tcp (p\<lparr>tcp_checksum := 0\<rparr>) @ B)"
  using upd_tcp_checksum [OF assms, of p B 0 f] by simp

lemma Put_tcp_checksum:
  assumes "length A = n"
  shows "PutUint16 (A @ encode_tcp p @ B) (int n + 16) w
     = Some (A @ encode_tcp (p\<lparr>tcp_checksum := w\<rparr>) @ B)"
  using tcp_hlen_min [of p] assms tcp_write_checksum [of p w]
  by (simp add: PutUint16_ok nat_shift list_update_append)

lemma Put_tcp_seq:
  assumes "length A = n"
  shows "PutUint32 (A @ encode_tcp p @ B) (int n + 4) w
     = Some (A @ encode_tcp (p\<lparr>seq_no := w\<rparr>) @ B)"
  using tcp_hlen_min [of p] assms tcp_write_seq [of p w]
  by (simp add: PutUint32_ok nat_shift list_update_append)

lemma upd_tcp_flags:
  assumes "length A = n"
  shows "idx (A @ encode_tcp p @ B) (int n + 13) = Some (tcp_flags p)"
    and "upd (A @ encode_tcp p @ B) (int n + 13) f = Some (A @ encode_tcp (p\<lparr>tcp_flags := f\<rparr>) @ B)"
  using tcp_hlen_min [of p] assms tcp_write_flags [of p f]
  by (simp_all add: upd_ok idx_ok nat_shift list_update_append nth_append encode_tcp_nth)

lemma slice_addrs:
  "slice (encode_ip_tl L p @ B) 12 16 = Some (addr_bytes (src_addr p))"
  "slice (encode_ip_tl L p @ B) 16 20 = Some (addr_bytes (dst_addr p))"
proof -
  obtain a b c d where s: "src_addr p = (a, b, c, d)" by (metis surj_pair)
  obtain e f g h where d: "dst_addr p = (e, f, g, h)" by (metis surj_pair)
  show "slice (encode_ip_tl L p @ B) 12 16 = Some (addr_bytes (src_addr p))"
    "slice (encode_ip_tl L p @ B) 16 20 = Some (addr_bytes (dst_addr p))"
    using ip_hlen_min [of p] s d
    by (simp_all add: slice_ok) (simp_all add: encode_ip_tl_def u16_bytes_def)
qed

lemma pseudo_build:
  assumes "length src = 4" "length dst = 4"
  shows "do { ps \<leftarrow> make_bytes (12 + len tcp);
              ps \<leftarrow> copy_at ps 0 4 src;
              ps \<leftarrow> copy_at ps 4 8 dst;
              ps \<leftarrow> upd ps 9 6;
              ps \<leftarrow> PutUint16 ps 10 w;
              ps \<leftarrow> copy_at ps 12 (len ps) tcp;
              f ps } = f (src @ dst @ [0, 6] @ u16_bytes w @ tcp)"
proof -
  obtain a0 a1 a2 a3 where a: "src = [a0, a1, a2, a3]"
    using assms(1) by (auto simp: numeral_eq_Suc length_Suc_conv)
  obtain b0 b1 b2 b3 where b: "dst = [b0, b1, b2, b3]"
    using assms(2) by (auto simp: numeral_eq_Suc length_Suc_conv)
  have z: "replicate (nat (12 + len tcp)) (0 :: u8) = [0,0,0,0,0,0,0,0,0,0,0,0] @ replicate (length tcp) 0"
    by (simp add: nat_add_distrib replicate_add numeral_eq_Suc)
  show ?thesis
    by (simp add: make_bytes_ok z a b copy_at_def Let_def upd_ok PutUint16_ok u16_bytes_def)
qed

subsection \<open>Recomputing the checksums\<close>

lemma fix_checksums:
  "fixIPv4TCPChecksums (encode_ip_tl L p @ encode_tcp p @ payload p) (int (ip_hlen p))
     = Some (encode (set_checksums p))"
proof -
  let ?w = "of_nat (total_len p) :: u16"
  let ?q = "p\<lparr>ip_checksum := 0, tcp_checksum := 0\<rparr>"
  let ?c = "internetChecksum (encode_ip ?q)" and ?n = "int (ip_hlen p)"
  let ?A = "encode_ip_tl ?w (p\<lparr>ip_checksum := ?c\<rparr>)"
  let ?T = "encode_tcp ?q @ payload p"
  have len: "word_of_int (len (encode_ip_tl L p @ encode_tcp p @ payload p)) = ?w"
    by (simp add: total_len_def)
  have hdr: "slice (encode_ip_tl ?w (p\<lparr>ip_checksum := 0\<rparr>) @ B) 0 ?n = Some (encode_ip ?q)" for B
    by (simp add: slice_ok encode_ip_def)
  have tail: "slice_from (?A @ B) ?n = Some B" for B
    by (simp add: slice_from_ok)
  have "fixIPv4TCPChecksums (encode_ip_tl L p @ encode_tcp p @ payload p) ?n
      = PutUint16 (?A @ ?T) (?n + 16) (internetChecksum (tcp_sum_bytes ?q))"
    unfolding fixIPv4TCPChecksums_def len Put_len bind.bind_lunit zero_ip_checksum hdr
      Put_ip_checksum tail
    by (simp add: zero_tcp_checksum tail slice_addrs pseudo_build
        tcp_sum_bytes_def pseudo_header_def)
  also have "\<dots> = Some (encode (set_checksums p))"
    by (simp add: Put_tcp_checksum set_checksums_def Let_def encode_def encode_ip_def)
  finally show ?thesis .
qed

lemma set_checksums_valid:
  assumes "wf_packet p"
  shows "checksums_valid (set_checksums p)"
proof -
  let ?q = "p\<lparr>ip_checksum := 0, tcp_checksum := 0\<rparr>"
  let ?c = "internetChecksum (encode_ip ?q)" and ?d = "internetChecksum (tcp_sum_bytes ?q)"
  have n: "ip_hlen p \<le> 60" "total_len p \<le> 65535" "20 \<le> ip_hlen p" "20 \<le> tcp_hlen p"
    using assms by (auto simp: wf_packet_def ip_hlen_def tcp_hlen_def)
  have eq_ip: "encode_ip (set_checksums p) = (encode_ip ?q)[10 := hi8 ?c, Suc 10 := lo8 ?c]"
    using ip_write_checksum [of "of_nat (total_len p)" ?q "[]" ?c]
    by (simp add: set_checksums_def Let_def encode_ip_def)
  have "encode_ip ?q ! 10 = 0" "encode_ip ?q ! Suc 10 = 0"
    by (simp_all add: encode_ip_def encode_ip_tl_def u16_bytes_def)
  then have ip: "internetChecksum (encode_ip (set_checksums p)) = 0"
    unfolding eq_ip using n by (intro core_ck.ck_fill) auto
  have len12: "length (pseudo_header ?q) = 12" by (simp add: pseudo_header_def u16_bytes_def)
  have "tcp_sum_bytes (set_checksums p) = pseudo_header ?q @ encode_tcp (?q\<lparr>tcp_checksum := ?d\<rparr>) @ payload p"
    by (simp add: tcp_sum_bytes_def set_checksums_def Let_def pseudo_header_def)
  also have "\<dots> = (tcp_sum_bytes ?q)[28 := hi8 ?d, Suc 28 := lo8 ?d]"
    using n tcp_write_checksum [of ?q ?d] by (simp add: tcp_sum_bytes_def list_update_append len12)
  finally have eq: "tcp_sum_bytes (set_checksums p) = (tcp_sum_bytes ?q)[28 := hi8 ?d, Suc 28 := lo8 ?d]" .
  have "encode_tcp ?q ! 16 = 0" "encode_tcp ?q ! 17 = 0"
    by (simp_all add: encode_tcp_def u16_bytes_def u32_bytes_def)
  then have "tcp_sum_bytes ?q ! 28 = 0" "tcp_sum_bytes ?q ! Suc 28 = 0"
    using n by (simp_all add: tcp_sum_bytes_def nth_append len12)
  moreover have "length (tcp_sum_bytes ?q) = 12 + tcp_hlen p + length (payload p)"
    by (simp add: tcp_sum_bytes_def len12)
  ultimately have "internetChecksum (tcp_sum_bytes (set_checksums p)) = 0"
    unfolding eq using n by (intro core_ck.ck_fill) (auto simp: total_len_def)
  with ip show ?thesis by (simp add: checksums_valid_def)
qed

subsection \<open>Splitting\<close>

lemma copy_fresh:
  assumes "n = length H + length D"
  shows "do { x \<leftarrow> make_bytes (int n); y \<leftarrow> copy_at x 0 (len x) H; z \<leftarrow> copy_at y (len H) (len y) D; f z }
           = f (H @ D)"
  using assms by (simp add: make_bytes_ok copy_at_def Let_def nat_int_add)

lemma Split_encode:
  assumes p: "splittable p" and k: "0 < k" "k < length (payload p)"
  shows "SplitIPv4TCPPacket (encode p @ tr) (info_of p) (int k) =
    Some (Inr (encode (set_checksums (first_segment p k)), encode (set_checksums (second_segment p k))))"
proof -
  let ?L = "of_nat (total_len p) :: u16"
  let ?H = "encode_ip_tl ?L p @ encode_tcp p" and ?P = "payload p"
  let ?o = "ip_hlen p + tcp_hlen p"
  have enc: "encode p @ tr = ?H @ ?P @ tr" by (simp add: encode_def encode_ip_def)
  have hdr: "slice (encode p @ tr) 0 (int ?o) = Some ?H"
    unfolding enc by (simp add: slice_ok)
  have pay: "slice (encode p @ tr) (int ?o) (int (total_len p)) = Some ?P"
    unfolding enc by (simp add: slice_ok total_len_def)
  have p1: "slice ?P 0 (int k) = Some (take k ?P)" using k by (simp add: slice_ok)
  have p2: "slice_from ?P (int k) = Some (drop k ?P)" using k by (simp add: slice_from_ok)
  have n1: "len ?H + int k = int (length ?H + length (take k ?P))" using k by simp
  have n2: "len ?H + len (drop k ?P) = int (length ?H + length (drop k ?P))" by simp
  have f1: "fixIPv4TCPChecksums (encode_ip_tl ?L p @ encode_tcp (p\<lparr>tcp_flags := tcp_flags p AND NOT 9\<rparr>) @ take k ?P) (int (ip_hlen p))
      = Some (encode (set_checksums (first_segment p k)))"
    using fix_checksums [of ?L "first_segment p k"] by (simp add: first_segment_def encode_tcp_def)
  have f2: "fixIPv4TCPChecksums (encode_ip_tl ?L p @ encode_tcp (p\<lparr>seq_no := seq_no p + of_nat k\<rparr>) @ drop k ?P) (int (ip_hlen p))
      = Some (encode (set_checksums (second_segment p k)))"
    using fix_checksums [of ?L "second_segment p k"] by (simp add: second_segment_def encode_tcp_def)
  have info: "PayloadLen (info_of p) = len ?P" "TotalLen (info_of p) = int (total_len p)"
    "PayloadOffset (info_of p) = int ?o" "IPHeaderLen (info_of p) = int (ip_hlen p)" "Seq (info_of p) = seq_no p"
    by (simp_all add: info_of_def)
  have guards: "\<not> (int k \<le> 0 \<or> len ?P \<le> int k)"
    "\<not> (len (encode p @ tr) < int (total_len p) \<or> int ?o < 0 \<or> int (total_len p) < int ?o)"
    using k by (auto simp: total_len_def)
  show ?thesis
    unfolding SplitIPv4TCPPacket_def info if_not_P [OF guards(1)] if_not_P [OF guards(2)]
      hdr pay bind.bind_lunit p1 p2 n1 n2 copy_fresh [OF refl]
    by (simp add: slice_from_ok upd_tcp_flags Put_tcp_seq f1 [simplified] f2)
qed

text \<open>The payload bytes and the checksum validity of a byte-level packet, read through the parser's info.\<close>

definition payload_of :: "bytes \<Rightarrow> TCPPayloadInfo \<Rightarrow> bytes" where
  "payload_of packet info = take (nat (PayloadLen info)) (drop (nat (PayloadOffset info)) packet)"

definition ip_checksum_ok :: "bytes \<Rightarrow> TCPPayloadInfo \<Rightarrow> bool" where
  "ip_checksum_ok packet info \<longleftrightarrow> internetChecksum (take (nat (IPHeaderLen info)) packet) = 0"

definition tcp_checksum_ok :: "bytes \<Rightarrow> TCPPayloadInfo \<Rightarrow> bool" where
  "tcp_checksum_ok packet info \<longleftrightarrow>
     (let seg = drop (nat (IPHeaderLen info)) packet
      in internetChecksum (take 8 (drop 12 packet) @ [0, 6] @ u16_bytes (of_nat (length seg)) @ seg) = 0)"

lemma payload_of_encode: "payload_of (encode p @ tr) (info_of p) = payload p"
  by (simp add: payload_of_def info_of_def encode_def)

lemma addrs_of_encode: "take 8 (drop 12 (encode p)) = addr_bytes (src_addr p) @ addr_bytes (dst_addr p)"
proof -
  obtain a b c d where s: "src_addr p = (a, b, c, d)" by (metis surj_pair)
  obtain e f g h where d: "dst_addr p = (e, f, g, h)" by (metis surj_pair)
  show ?thesis using s d by (simp add: encode_def encode_ip_def encode_ip_tl_def u16_bytes_def)
qed

lemma checksums_ok_encode:
  assumes "checksums_valid p"
  shows "ip_checksum_ok (encode p) (info_of p)" "tcp_checksum_ok (encode p) (info_of p)"
proof -
  have "take (ip_hlen p) (encode p) = encode_ip p" "drop (ip_hlen p) (encode p) = encode_tcp p @ payload p"
    by (simp_all add: encode_def)
  then show "ip_checksum_ok (encode p) (info_of p)" "tcp_checksum_ok (encode p) (info_of p)"
    using assms addrs_of_encode [of p]
    by (simp_all add: checksums_valid_def ip_checksum_ok_def tcp_checksum_ok_def info_of_def Let_def
        tcp_sum_bytes_def pseudo_header_def)
qed

lemma info_set_checksums [simp]: "info_of (set_checksums p) = info_of p"
  by (simp add: info_of_def set_checksums_def Let_def)

lemma payload_set_checksums [simp]: "payload (set_checksums p) = payload p"
  by (simp add: set_checksums_def Let_def)

lemma segments_splittable:
  assumes "splittable p" "0 < k" "k < length (payload p)"
  shows "splittable (set_checksums (first_segment p k))" "splittable (set_checksums (second_segment p k))"
    "wf_packet (first_segment p k)" "wf_packet (second_segment p k)"
  using assms by (auto simp: splittable_def wf_packet_def first_segment_def second_segment_def
      set_checksums_def Let_def total_len_def ip_hlen_def tcp_hlen_def)

lemma parsed_is_encoded:
  assumes "ParseIPv4TCPPayload data = Some (info, True)"
  obtains p tr where "splittable p" "data = encode p @ tr" "info = info_of p"
proof -
  have m: "payload_match data" using assms ParsePayload_no_match [of data] by fastforce
  have eq: "data = encode (decode data) @ drop (total_field data) data" by (rule decode_encode [OF m])
  have s: "splittable (decode data)" by (rule decode_splittable [OF m])
  from assms eq ParsePayload_encode [OF s, of "drop (total_field data) data"]
  have "info = info_of (decode data)" by simp
  with s eq that show ?thesis by blast
qed

lemma Split_parsed:
  assumes "ParseIPv4TCPPayload data = Some (info, True)"
  shows "SplitIPv4TCPPacket data info k = Some (Inl (SplitOffsetOutside k (PayloadLen info))) \<and> (k \<le> 0 \<or> PayloadLen info \<le> k)
    \<or> (\<exists>fs. SplitIPv4TCPPacket data info k = Some (Inr fs)) \<and> 0 < k \<and> k < PayloadLen info"
proof (cases "k \<le> 0 \<or> PayloadLen info \<le> k")
  case True
  then show ?thesis by (simp add: SplitIPv4TCPPacket_def)
next
  case False
  from assms obtain p tr where p: "splittable p" "data = encode p @ tr" "info = info_of p"
    by (rule parsed_is_encoded)
  have "0 < nat k" "nat k < length (payload p)" "k = int (nat k)"
    using False p(3) by (auto simp: info_of_def)
  then have "\<exists>fs. SplitIPv4TCPPacket data info k = Some (Inr fs)"
    unfolding p(2,3) using Split_encode [OF p(1), of "nat k" tr] by metis
  with False show ?thesis by auto
qed

lemma Split_segments:
  assumes "ParseIPv4TCPPayload data = Some (info, True)" and "0 < k" and "k < PayloadLen info"
  shows "\<exists>first second i1 i2.
     SplitIPv4TCPPacket data info k = Some (Inr (first, second))
   \<and> ParseIPv4TCPPayload first = Some (i1, True) \<and> ParseIPv4TCPPayload second = Some (i2, True)
   \<and> payload_of first i1 @ payload_of second i2 = payload_of data info
   \<and> i1 = info\<lparr>Flags := Flags info AND NOT 0x09, PayloadLen := k, TotalLen := len first\<rparr>
   \<and> i2 = info\<lparr>Seq := Seq info + word_of_int k, PayloadLen := PayloadLen info - k, TotalLen := len second\<rparr>
   \<and> ip_checksum_ok first i1 \<and> tcp_checksum_ok first i1
   \<and> ip_checksum_ok second i2 \<and> tcp_checksum_ok second i2"
proof -
  from assms(1) obtain p tr where p: "splittable p" "data = encode p @ tr" "info = info_of p"
    by (rule parsed_is_encoded)
  define n where "n = nat k"
  have n: "0 < n" "n < length (payload p)" "k = int n"
    using assms(2,3) p(3) by (auto simp: n_def info_of_def)
  let ?f = "set_checksums (first_segment p n)" and ?s = "set_checksums (second_segment p n)"
  note seg = segments_splittable [OF p(1) n(1,2)]
  have "SplitIPv4TCPPacket data info k = Some (Inr (encode ?f, encode ?s))"
    unfolding p(2,3) n(3) by (rule Split_encode [OF p(1) n(1,2)])
  moreover have "ParseIPv4TCPPayload (encode ?f) = Some (info_of ?f, True)"
    "ParseIPv4TCPPayload (encode ?s) = Some (info_of ?s, True)"
    using ParsePayload_encode [OF seg(1), of "[]"] ParsePayload_encode [OF seg(2), of "[]"] by simp_all
  moreover have "payload_of (encode ?f) (info_of ?f) @ payload_of (encode ?s) (info_of ?s) = payload_of data info"
    using payload_of_encode [of ?f "[]"] payload_of_encode [of ?s "[]"] payload_of_encode [of p tr] p
    by (simp add: first_segment_def second_segment_def)
  moreover have "info_of ?f = info\<lparr>Flags := Flags info AND NOT 0x09, PayloadLen := k, TotalLen := len (encode ?f)\<rparr>"
    using n p(3) by (simp add: info_of_def first_segment_def set_checksums_def Let_def total_len_def)
  moreover have "info_of ?s = info\<lparr>Seq := Seq info + word_of_int k, PayloadLen := PayloadLen info - k,
      TotalLen := len (encode ?s)\<rparr>"
    using n p(3) by (simp add: info_of_def second_segment_def set_checksums_def Let_def total_len_def)
  moreover note checksums_ok_encode [OF set_checksums_valid [OF seg(3)]]
    checksums_ok_encode [OF set_checksums_valid [OF seg(4)]]
  ultimately show ?thesis by blast
qed

lemma parsed_complete:
  assumes "ParseIPv4TCPPayload data = Some (info, True)"
  shows "40 \<le> length data \<and> drop_bit 4 (data ! 0) = 4"
proof -
  have "payload_match data" using assms ParsePayload_no_match [of data] by fastforce
  then show ?thesis by (simp add: payload_match_def)
qed

subsection \<open>Properties\<close>

text \<open>
  C25. The payload parser never panics and accepts exactly the complete, unfragmented IPv4
  TCP packets with a valid header length, a total length within the captured bytes and a non-empty
  payload; what it reports are the fields at their wire positions. Every accepted packet is
  the printed form of a well-formed structured packet, possibly followed by padding, and its
  fields are read back from it.
\<close>

theorem ParseIPv4TCPPayload_correct:
  "ParseIPv4TCPPayload data =
     Some (if payload_match data then payload_fields data else TCPPayloadInfo_zero, payload_match data)
   \<and> (payload_match data \<longleftrightarrow> (\<exists>p tr. splittable p \<and> data = encode p @ tr))
   \<and> (\<forall>p tr. splittable p \<longrightarrow> ParseIPv4TCPPayload (encode p @ tr) = Some (info_of p, True))"
proof -
  have "payload_match data \<longleftrightarrow> (\<exists>p tr. splittable p \<and> data = encode p @ tr)"
    using decode_encode decode_splittable payload_match_encode by (metis splittable_def)
  then show ?thesis
    using ParsePayload_match [of data] ParsePayload_no_match [of data] ParsePayload_encode by auto
qed

theorem ParseIPv4TCPPayload_correct_witness:
  "ParseIPv4TCPPayload (encode (example_packet 0x18 [1, 2, 3]) @ [0, 0])
     = Some (info_of (example_packet 0x18 [1, 2, 3]), True)"
proof -
  have "splittable (example_packet 0x18 [1, 2, 3])"
    by (simp add: splittable_def example_packet_wf) (simp add: example_packet_def)
  then show ?thesis using ParseIPv4TCPPayload_correct by blast
qed

text \<open>
  C26. Splitting is correct on every packet the parser accepts and every offset inside its
  payload: it does not panic, and the two resulting packets are again accepted by the parser,
  carry together exactly the original payload bytes in order, start at the original
  sequence number and at that number plus the offset (modulo \<open>2\<^sup>3\<^sup>2\<close>), keep addresses,
  ports, acknowledgement and header lengths, clear PSH and FIN on the first and keep all flags
  on the second, have consistent lengths, and have valid IPv4 and TCP checksums.
\<close>

theorem SplitIPv4TCPPacket_correct:
  assumes "ParseIPv4TCPPayload data = Some (info, True)" and "0 < k" and "k < PayloadLen info"
  shows "\<exists>first second i1 i2.
     SplitIPv4TCPPacket data info k = Some (Inr (first, second))
   \<and> ParseIPv4TCPPayload first = Some (i1, True) \<and> ParseIPv4TCPPayload second = Some (i2, True)
   \<and> payload_of first i1 @ payload_of second i2 = payload_of data info
   \<and> i1 = info\<lparr>Flags := Flags info AND NOT 0x09, PayloadLen := k, TotalLen := len first\<rparr>
   \<and> i2 = info\<lparr>Seq := Seq info + word_of_int k, PayloadLen := PayloadLen info - k, TotalLen := len second\<rparr>
   \<and> ip_checksum_ok first i1 \<and> tcp_checksum_ok first i1
   \<and> ip_checksum_ok second i2 \<and> tcp_checksum_ok second i2"
  using assms by (rule Split_segments)

theorem SplitIPv4TCPPacket_correct_witness:
  "\<exists>first second i1 i2.
     SplitIPv4TCPPacket (encode (example_packet 0x19 [97, 98, 99, 100, 101, 102]))
       (info_of (example_packet 0x19 [97, 98, 99, 100, 101, 102])) 1 = Some (Inr (first, second))
   \<and> payload_of first i1 @ payload_of second i2 = [97, 98, 99, 100, 101, 102]
   \<and> Seq i1 = 1000 \<and> Seq i2 = 1001 \<and> Flags i1 = 0x10 \<and> Flags i2 = 0x19
   \<and> tcp_checksum_ok first i1 \<and> tcp_checksum_ok second i2"
proof -
  let ?p = "example_packet 0x19 [97, 98, 99, 100, 101, 102]"
  have s: "splittable ?p"
    by (simp add: splittable_def example_packet_wf) (simp add: example_packet_def)
  have "ParseIPv4TCPPayload (encode ?p) = Some (info_of ?p, True)"
    using ParsePayload_encode [OF s, of "[]"] by simp
  moreover have "payload_of (encode ?p) (info_of ?p) = [97, 98, 99, 100, 101, 102]"
    using payload_of_encode [of ?p "[]"] by (simp add: example_packet_def)
  moreover have "1 < PayloadLen (info_of ?p)" "Seq (info_of ?p) = 1000" "Flags (info_of ?p) = 0x19"
    by (simp_all add: info_of_def example_packet_def)
  ultimately show ?thesis
    using SplitIPv4TCPPacket_correct [of "encode ?p" "info_of ?p" 1] by fastforce
qed

text \<open>A packet cut off behind its total length parses to the same result.\<close>

lemma parsed_take:
  assumes "ParseIPv4TCPPayload data = Some (info, True)" "TotalLen info \<le> int n"
  shows "ParseIPv4TCPPayload (take n data) = Some (info, True)"
proof -
  from assms(1) obtain p tr where p: "splittable p" "data = encode p @ tr" "info = info_of p"
    by (rule parsed_is_encoded)
  then have "take n data = encode p @ take (n - length (encode p)) tr"
    using assms(2) by (simp add: info_of_def)
  then show ?thesis using ParsePayload_encode [OF p(1)] p(3) by simp
qed

lemma parsed_total_le: "ParseIPv4TCPPayload data = Some (info, True) \<Longrightarrow> TotalLen info \<le> len data"
  by (erule parsed_is_encoded) (simp add: info_of_def)

text \<open>
  C27. Which splits are refused: given what the parser read from a packet, and the packet itself or
  any prefix of it, the splitter never panics. An offset outside the payload (zero, negative, or at least
  the payload length) is refused with the offset error, whatever the prefix; otherwise a prefix shorter
  than the total length the parser read is refused with the metadata error; everything else is split.
\<close>

theorem SplitIPv4TCPPacket_refuses:
  assumes "ParseIPv4TCPPayload data = Some (info, True)"
  shows "(SplitIPv4TCPPacket (take n data) info k = Some (Inl (SplitOffsetOutside k (PayloadLen info)))
        \<longleftrightarrow> k \<le> 0 \<or> PayloadLen info \<le> k)
   \<and> (SplitIPv4TCPPacket (take n data) info k = Some (Inl InvalidPacketMetadata)
        \<longleftrightarrow> 0 < k \<and> k < PayloadLen info \<and> int n < TotalLen info)
   \<and> ((\<exists>first second. SplitIPv4TCPPacket (take n data) info k = Some (Inr (first, second)))
        \<longleftrightarrow> 0 < k \<and> k < PayloadLen info \<and> TotalLen info \<le> int n)"
proof (cases "TotalLen info \<le> int n")
  case True
  then show ?thesis using Split_parsed [OF parsed_take [OF assms True], of k] by auto
next
  case False
  then have "len (take n data) < TotalLen info" using parsed_total_le [OF assms] by simp
  then show ?thesis using False by (auto simp: SplitIPv4TCPPacket_def)
qed

theorem SplitIPv4TCPPacket_refuses_witness:
  "SplitIPv4TCPPacket (encode (example_packet 0x18 [97, 98])) (info_of (example_packet 0x18 [97, 98])) 2
     = Some (Inl (SplitOffsetOutside 2 2))
   \<and> SplitIPv4TCPPacket (take 41 (encode (example_packet 0x18 [97, 98]))) (info_of (example_packet 0x18 [97, 98])) 1
     = Some (Inl InvalidPacketMetadata)"
proof -
  let ?p = "example_packet 0x18 [97, 98]"
  have s: "splittable ?p"
    by (simp add: splittable_def example_packet_wf) (simp add: example_packet_def)
  have p: "ParseIPv4TCPPayload (encode ?p) = Some (info_of ?p, True)"
    using ParsePayload_encode [OF s, of "[]"] by simp
  have "PayloadLen (info_of ?p) = 2" "TotalLen (info_of ?p) = 42"
    by (simp_all add: info_of_def example_packet_def total_len_def ip_hlen_def tcp_hlen_def)
  then show ?thesis
    using SplitIPv4TCPPacket_refuses [OF p, of "length (encode ?p)" 2] SplitIPv4TCPPacket_refuses [OF p, of 41 1] by simp
qed

end
