(* ===== verification/Fake_Packet.thy ===== *)
theory Fake_Packet
  imports Payload_Split
begin

text \<open>
  The fake packet of \<open>src/cmd/nfqcooldown/main.go\<close>: \<open>tcpChecksumIPv4\<close> and
  \<open>cloneWithFakePayloadAndBadTCPChecksum\<close>. \<open>crypto/rand\<close> is an argument: \<open>None\<close>
  when \<open>Read\<close> fails, otherwise the bytes it delivers by position. As before an outer
  \<open>None\<close> is a panic.
\<close>

type_synonym crypto_rand = "(nat \<Rightarrow> u8) option"

datatype fake_error =
    PacketTooShort int
  | NotIPv4
  | InvalidIPv4TCPHeaderLength
  | NotTCP
  | InvalidTCPHeaderLength
  | EmptyTCPPayload
  | FakeTooShortForTLS int
  | RandomizeFailed
  | UnknownFakeMode string

subsection \<open>The code\<close>

definition tcpChecksumIPv4 :: "bytes \<Rightarrow> int \<Rightarrow> (fake_error + u16) option" where
  "tcpChecksumIPv4 packet ipHeaderLen =
    (if len packet < ipHeaderLen + 20 then Some (Inl InvalidIPv4TCPHeaderLength)
     else do {
       let tcpLen = len packet - ipHeaderLen;
       ps \<leftarrow> make_bytes (12 + tcpLen);
       src \<leftarrow> slice packet 12 16;
       ps \<leftarrow> copy_at ps 0 4 src;
       dst \<leftarrow> slice packet 16 20;
       ps \<leftarrow> copy_at ps 4 8 dst;
       ps \<leftarrow> upd ps 8 0;
       ps \<leftarrow> upd ps 9 6;
       ps \<leftarrow> upd ps 10 (word_of_int (drop_bit 8 tcpLen));
       ps \<leftarrow> upd ps 11 (word_of_int tcpLen);
       tcp \<leftarrow> slice_from packet ipHeaderLen;
       ps \<leftarrow> copy_at ps 12 (len ps) tcp;
       ps \<leftarrow> upd ps (12 + 16) 0;
       ps \<leftarrow> upd ps (12 + 17) 0;
       Some (Inr (internetChecksum_main ps))
     })"

text \<open>The \<open>switch mode\<close> that fills the fake payload.\<close>

definition fill_fake_payload ::
  "bytes \<Rightarrow> string \<Rightarrow> int \<Rightarrow> int \<Rightarrow> crypto_rand \<Rightarrow> (fake_error + bytes) option" where
  "fill_fake_payload fake mode payloadOffset fakePayloadLen rnd =
    (if mode = ''copy'' then Some (Inr fake)
     else if mode = ''tls-invalid-length'' then do {
       fake \<leftarrow> copy_at fake payloadOffset (payloadOffset + 5) [0x16, 0x03, 0x03, 0xff, 0xff];
       if 5 < fakePayloadLen
       then do {
         rest \<leftarrow> slice_from fake (payloadOffset + 5);
         (case rnd of None \<Rightarrow> Some (Inl RandomizeFailed)
          | Some r \<Rightarrow> do {
              fake \<leftarrow> copy_at fake (payloadOffset + 5) (len fake) (map r [0..<length rest]);
              Some (Inr fake) })
       }
       else Some (Inr fake)
     }
     else Some (Inl (UnknownFakeMode mode)))"

text \<open>The part of the function after the payload is filled: the two checksums.\<close>

definition seal_fake ::
  "bytes \<Rightarrow> int \<Rightarrow> (fake_error + bytes \<times> u16) option" where
  "seal_fake fake ipHeaderLen = do {
     let checksumOffset = ipHeaderLen + 16;
     fake \<leftarrow> upd fake 10 0;
     fake \<leftarrow> upd fake 11 0;
     hdr \<leftarrow> slice fake 0 ipHeaderLen;
     let ipChecksum = internetChecksum_main hdr;
     fake \<leftarrow> upd fake 10 (hi8 ipChecksum);
     fake \<leftarrow> upd fake 11 (lo8 ipChecksum);
     r \<leftarrow> tcpChecksumIPv4 fake ipHeaderLen;
     (case r of Inl e \<Rightarrow> Some (Inl e)
      | Inr validFakeChecksum \<Rightarrow> do {
          let corrupted = validFakeChecksum XOR 0xffff;
          let corrupted = (if corrupted = validFakeChecksum then corrupted XOR 1 else corrupted);
          fake \<leftarrow> upd fake checksumOffset (hi8 corrupted);
          fake \<leftarrow> upd fake (checksumOffset + 1) (lo8 corrupted);
          Some (Inr (fake, corrupted)) })
   }"

definition cloneWithFakePayloadAndBadTCPChecksum ::
  "bytes \<Rightarrow> string \<Rightarrow> int \<Rightarrow> crypto_rand \<Rightarrow> (fake_error + bytes \<times> u16 \<times> u16 \<times> int) option" where
  "cloneWithFakePayloadAndBadTCPChecksum packet mode requestedFakeLength rnd =
    (if len packet < 20 then Some (Inl (PacketTooShort (len packet)))
     else do {
       b0 \<leftarrow> idx packet 0;
       if drop_bit 4 b0 \<noteq> 4 then Some (Inl NotIPv4)
       else do {
         let ipHeaderLen = int_of (b0 AND 0x0f) * 4;
         if ipHeaderLen < 20 \<or> len packet < ipHeaderLen + 20 then Some (Inl InvalidIPv4TCPHeaderLength)
         else do {
           b9 \<leftarrow> idx packet 9;
           if b9 \<noteq> 6 then Some (Inl NotTCP)
           else do {
             off \<leftarrow> idx packet (ipHeaderLen + 12);
             let tcpHeaderLen = int_of (drop_bit 4 off) * 4;
             let payloadOffset = ipHeaderLen + tcpHeaderLen;
             if tcpHeaderLen < 20 \<or> len packet < payloadOffset then Some (Inl InvalidTCPHeaderLength)
             else do {
               let payloadLen = len packet - payloadOffset;
               if payloadLen = 0 then Some (Inl EmptyTCPPayload)
               else do {
                 let fakePayloadLen = (if 0 < requestedFakeLength \<and> requestedFakeLength < payloadLen
                                       then requestedFakeLength else payloadLen);
                 if mode = ''tls-invalid-length'' \<and> fakePayloadLen < 5
                 then Some (Inl (FakeTooShortForTLS fakePayloadLen))
                 else do {
                   let checksumOffset = ipHeaderLen + 16;
                   c0 \<leftarrow> idx packet checksumOffset;
                   c1 \<leftarrow> idx packet (checksumOffset + 1);
                   let original = be16 c0 c1;
                   let fakePacketLen = payloadOffset + fakePayloadLen;
                   fake \<leftarrow> slice packet 0 fakePacketLen;
                   fake \<leftarrow> upd fake 2 (word_of_int (drop_bit 8 fakePacketLen));
                   fake \<leftarrow> upd fake 3 (word_of_int fakePacketLen);
                   r \<leftarrow> fill_fake_payload fake mode payloadOffset fakePayloadLen rnd;
                   (case r of Inl e \<Rightarrow> Some (Inl e)
                    | Inr fake \<Rightarrow> do {
                        s \<leftarrow> seal_fake fake ipHeaderLen;
                        (case s of Inl e \<Rightarrow> Some (Inl e)
                         | Inr (fake, corrupted) \<Rightarrow>
                             Some (Inr (fake, original, corrupted, fakePayloadLen))) })
                 }}}}}}})"

subsection \<open>The structured view\<close>

definition fake_len :: "tcp_packet \<Rightarrow> int \<Rightarrow> nat" where
  "fake_len p req = (if 0 < req \<and> req < len (payload p) then nat req else length (payload p))"

definition fake_body :: "tcp_packet \<Rightarrow> string \<Rightarrow> int \<Rightarrow> crypto_rand \<Rightarrow> fake_error + bytes" where
  "fake_body p mode req rnd =
     (let m = fake_len p req
      in if mode = ''copy'' then Inr (take m (payload p))
         else if mode = ''tls-invalid-length'' then
           (if 5 < m then case rnd of None \<Rightarrow> Inl RandomizeFailed
              | Some r \<Rightarrow> Inr ([0x16, 0x03, 0x03, 0xff, 0xff] @ map r [0..<m - 5])
            else Inr [0x16, 0x03, 0x03, 0xff, 0xff])
         else Inl (UnknownFakeMode mode))"

definition set_bad_checksums :: "tcp_packet \<Rightarrow> tcp_packet" where
  "set_bad_checksums p = (set_checksums p)\<lparr>tcp_checksum := NOT (tcp_checksum (set_checksums p))\<rparr>"

subsection \<open>The TCP checksum\<close>

lemma byte_hi: "word_of_int (drop_bit 8 n) = hi8 (word_of_int n)"
  by (rule bit_word_eqI) (auto simp: hi8_def bit_simps bit_word_of_int_iff)

lemma byte_lo: "word_of_int n = lo8 (word_of_int n)"
  by (rule bit_word_eqI) (auto simp: lo8_def bit_simps bit_word_of_int_iff)

lemma pseudo_build_main:
  assumes "length src = 4" "length dst = 4"
  shows "do { ps \<leftarrow> make_bytes (12 + len tcp);
              ps \<leftarrow> copy_at ps 0 4 src;
              ps \<leftarrow> copy_at ps 4 8 dst;
              ps \<leftarrow> upd ps 8 0;
              ps \<leftarrow> upd ps 9 6;
              ps \<leftarrow> upd ps 10 a;
              ps \<leftarrow> upd ps 11 b;
              ps \<leftarrow> copy_at ps 12 (len ps) tcp;
              f ps } = f (src @ dst @ [0, 6, a, b] @ tcp)"
proof -
  obtain a0 a1 a2 a3 where a: "src = [a0, a1, a2, a3]"
    using assms(1) by (auto simp: numeral_eq_Suc length_Suc_conv)
  obtain b0 b1 b2 b3 where b: "dst = [b0, b1, b2, b3]"
    using assms(2) by (auto simp: numeral_eq_Suc length_Suc_conv)
  have z: "replicate (nat (12 + len tcp)) (0 :: u8) = [0,0,0,0,0,0,0,0,0,0,0,0] @ replicate (length tcp) 0"
    by (simp add: nat_add_distrib replicate_add numeral_eq_Suc)
  show ?thesis
    by (simp add: make_bytes_ok z a b copy_at_def Let_def upd_ok)
qed

lemma tcpChecksum_encode:
  "tcpChecksumIPv4 (encode_ip_tl L p @ encode_tcp p @ payload p) (int (ip_hlen p))
     = Some (Inr (internetChecksum (tcp_sum_bytes (p\<lparr>tcp_checksum := 0\<rparr>))))"
proof -
  let ?T = "encode_tcp p @ payload p" and ?n = "int (ip_hlen p)"
  let ?x = "encode_ip_tl L p @ ?T"
  have l: "len ?x - ?n = len ?T" by simp
  have tail: "slice_from ?x ?n = Some ?T" by (simp add: slice_from_ok)
  let ?h = "addr_bytes (src_addr p) @ addr_bytes (dst_addr p) @ [0, 6, word_of_int (drop_bit 8 (len ?T)), word_of_int (len ?T)]"
  have h: "?h = pseudo_header (p\<lparr>tcp_checksum := 0\<rparr>)"
    unfolding byte_hi byte_lo [of "len ?T"] by (simp add: pseudo_header_def u16_bytes_def)
  have g: "\<not> len ?x < ?n + 20" using tcp_hlen_min [of p] by simp
  have upds: "upd (?h @ ?T) (12 + 16) 0 \<bind> (\<lambda>ps. upd ps (12 + 17) 0 \<bind> f)
      = f (?h @ encode_tcp (p\<lparr>tcp_checksum := 0\<rparr>) @ payload p)" for f :: "bytes \<Rightarrow> (fake_error + u16) option"
    using zero_tcp_checksum [of ?h 12 p "payload p" f] by simp
  have "tcpChecksumIPv4 ?x ?n
      = Some (Inr (internetChecksum_main (?h @ encode_tcp (p\<lparr>tcp_checksum := 0\<rparr>) @ payload p)))"
    unfolding tcpChecksumIPv4_def if_not_P [OF g] Let_def l slice_addrs bind.bind_lunit tail
      pseudo_build_main [OF addr_bytes_length addr_bytes_length]
    using upds [of "\<lambda>ps. Some (Inr (internetChecksum_main ps))"] by simp
  then show ?thesis
    unfolding h by (simp add: tcp_sum_bytes_def internetChecksum_main_eq)
qed

subsection \<open>Sealing\<close>

lemma xor_ffff: "v XOR 0xffff = NOT v" for v :: u16
proof -
  have ones: "(0xffff :: u16) = - 1" by simp
  show ?thesis unfolding ones by (rule bit_word_eqI) (simp add: bit_simps)
qed

lemma not_neq_self: "NOT v \<noteq> v" for v :: u16
proof
  assume "NOT v = v"
  then have "bit (NOT v) 0 = bit v 0" by simp
  then show False by (simp add: bit_not_iff)
qed

lemma tcp_sum_indep_ip [simp]: "tcp_sum_bytes (p\<lparr>ip_checksum := c, tcp_checksum := d\<rparr>) = tcp_sum_bytes (p\<lparr>tcp_checksum := d\<rparr>)"
  by (simp add: tcp_sum_bytes_def pseudo_header_def)

lemma tcp_checksum_set: "tcp_checksum (set_checksums p) = internetChecksum (tcp_sum_bytes (p\<lparr>tcp_checksum := 0\<rparr>))"
  by (simp add: set_checksums_def Let_def)

lemma seal_encode:
  "seal_fake (encode_ip_tl (of_nat (total_len p)) p @ encode_tcp p @ payload p) (int (ip_hlen p))
     = Some (Inr (encode (set_bad_checksums p), NOT (tcp_checksum (set_checksums p))))"
proof -
  let ?w = "of_nat (total_len p) :: u16" and ?n = "int (ip_hlen p)" and ?T = "encode_tcp p @ payload p"
  let ?q = "p\<lparr>ip_checksum := 0, tcp_checksum := 0\<rparr>"
  let ?c = "internetChecksum (encode_ip ?q)" and ?d = "NOT (tcp_checksum (set_checksums p))"
  let ?p1 = "p\<lparr>ip_checksum := ?c\<rparr>"
  have hdr: "slice (encode_ip_tl ?w (p\<lparr>ip_checksum := 0\<rparr>) @ B) 0 ?n = Some (encode_ip ?q)" for B
    by (simp add: slice_ok encode_ip_def)
  have put: "upd x 10 (hi8 ?c) \<bind> (\<lambda>y. upd y 11 (lo8 ?c) \<bind> f) = f (encode_ip_tl ?w ?p1 @ ?T)"
    if "x = encode_ip_tl ?w (p\<lparr>ip_checksum := 0\<rparr>) @ ?T" for x and f :: "bytes \<Rightarrow> (fake_error + bytes \<times> u16) option"
    using that ip_hlen_min [of p] ip_write_checksum [of ?w "p\<lparr>ip_checksum := 0\<rparr>" ?T ?c]
    by (simp add: upd_ok)
  have tck: "tcpChecksumIPv4 (encode_ip_tl ?w ?p1 @ ?T) ?n = Some (Inr (tcp_checksum (set_checksums p)))"
    using tcpChecksum_encode [of ?w ?p1] by (simp add: tcp_checksum_set)
  have bad: "(let c = v XOR 0xffff; c = (if c = v then c XOR 1 else c) in g c) = g (NOT v)" for v :: u16 and g :: "u16 \<Rightarrow> (fake_error + bytes \<times> u16) option"
    by (simp add: xor_ffff not_neq_self)
  have fin: "upd (encode_ip_tl ?w ?p1 @ ?T) (?n + 16) (hi8 ?d) \<bind> (\<lambda>y. upd y (?n + 16 + 1) (lo8 ?d) \<bind> f)
      = f (encode (set_bad_checksums p))" for f :: "bytes \<Rightarrow> (fake_error + bytes \<times> u16) option"
  proof -
    have off: "?n + 16 + 1 = ?n + 17" by simp
    have "encode_ip_tl ?w ?p1 @ encode_tcp (p\<lparr>tcp_checksum := ?d\<rparr>) @ payload p = encode (set_bad_checksums p)"
      by (simp add: set_bad_checksums_def encode_def encode_ip_def)
        (simp add: set_checksums_def Let_def encode_ip_def)
    then show ?thesis
      unfolding off using upd_tcp_checksum [of "encode_ip_tl ?w ?p1" "ip_hlen p" p "payload p" ?d f] by simp
  qed
  show ?thesis
    unfolding seal_fake_def Let_def [of "?n + 16"] zero_ip_checksum hdr bind.bind_lunit
      internetChecksum_main_eq Let_def [of ?c] put [OF refl] tck sum.case bad fin ..
qed

subsection \<open>Cloning\<close>

lemma fill_encode:
  assumes "length H = n" and "length P = m" and "mode = ''tls-invalid-length'' \<Longrightarrow> 5 \<le> m"
  shows "fill_fake_payload (H @ P) mode (int n) (int m) rnd = Some (
     if mode = ''copy'' then Inr (H @ P)
     else if mode = ''tls-invalid-length'' then
       (if 5 < m then case rnd of None \<Rightarrow> Inl RandomizeFailed
          | Some r \<Rightarrow> Inr (H @ [0x16, 0x03, 0x03, 0xff, 0xff] @ map r [0..<m - 5])
        else Inr (H @ [0x16, 0x03, 0x03, 0xff, 0xff]))
     else Inl (UnknownFakeMode mode))"
  using assms
  by (cases rnd; auto simp: fill_fake_payload_def copy_at_def slice_from_ok Let_def nat_shift
      nat_int_add; simp add: numeral_eq_Suc)

lemma fake_body_length:
  "fake_body p mode req rnd = Inr pl \<Longrightarrow> (mode = ''tls-invalid-length'' \<Longrightarrow> 5 \<le> fake_len p req)
     \<Longrightarrow> length pl = fake_len p req"
  by (auto simp: fake_body_def Let_def fake_len_def split: if_splits option.splits)

lemma fake_body_content:
  "fake_body p mode req rnd = Inr pl \<Longrightarrow>
     if mode = ''copy'' then pl = take (fake_len p req) (payload p)
     else take 5 pl = [0x16, 0x03, 0x03, 0xff, 0xff]"
  by (auto simp: fake_body_def Let_def split: if_splits option.splits)

text \<open>The front of the function: the guards, and the copy with the new total length.\<close>

lemma clone_front:
  assumes p: "splittable p" and p': "p' = p\<lparr>payload := payload p @ tr\<rparr>" and m: "m = fake_len p' req"
  shows "cloneWithFakePayloadAndBadTCPChecksum (encode p @ tr) mode req rnd =
    (if mode = ''tls-invalid-length'' \<and> m < 5 then Some (Inl (FakeTooShortForTLS (int m)))
     else do {
       r \<leftarrow> fill_fake_payload
             (encode_ip_tl (of_nat (ip_hlen p + tcp_hlen p + m)) p @ encode_tcp p @ take m (payload p'))
             mode (int (ip_hlen p + tcp_hlen p)) (int m) rnd;
       (case r of Inl e \<Rightarrow> Some (Inl e)
        | Inr fake \<Rightarrow> do {
            s \<leftarrow> seal_fake fake (int (ip_hlen p));
            (case s of Inl e \<Rightarrow> Some (Inl e)
             | Inr (fake, corrupted) \<Rightarrow> Some (Inr (fake, tcp_checksum p, corrupted, int m))) }) })"
proof -
  have wf: "wf_packet p" using p by (simp add: splittable_def)
  let ?L = "of_nat (total_len p) :: u16" and ?P = "payload p'"
  let ?t = "ip_hlen p" and ?k = "tcp_hlen p"
  let ?x = "encode p @ tr" and ?w = "of_nat (?t + ?k + m) :: u16"
  have x: "?x = encode_ip_tl ?L p @ encode_tcp p @ ?P"
    by (simp add: encode_def encode_ip_def p')
  have ml: "m \<le> length ?P" "0 < m" "?P \<noteq> []"
    using p by (auto simp: fake_len_def splittable_def p' m)
  have hl: "20 \<le> ?t" "20 \<le> ?k" using min_lens [of p] by auto
  have lx: "len ?x = int ?t + int ?k + len ?P" unfolding x by simp
  have b0: "idx ?x 0 = Some (?x ! 0)" "drop_bit 4 (?x ! 0) = 4" "int_of (?x ! 0 AND 0x0f) * 4 = int ?t"
    "idx ?x 9 = Some 6"
    using lx hl wf version_byte(1) [OF wf_hlen(1) [OF wf]] ihl_int [of ?x]
    by (auto simp: idx_def encode_app_nth_hdr encode_ip_nth encode_app_ihl)
  have doff: "idx ?x (int ?t + 12) = Some (?x ! (?t + 12))" "int_of (drop_bit 4 (?x ! (?t + 12))) * 4 = int ?k"
    using lx hl doff_int [of ?x] by (auto simp: idx_def nat_shift encode_app_ihl [OF wf] encode_app_doff [OF wf])
  have "encode_tcp p ! 16 = hi8 (tcp_checksum p)" "encode_tcp p ! 17 = lo8 (tcp_checksum p)"
    "nat (int ?t + 16 + 1) = ?t + 17"
    by (simp_all add: encode_tcp_def u16_bytes_def u32_bytes_def)
  then have ck: "idx ?x (int ?t + 16) = Some (hi8 (tcp_checksum p))"
    "idx ?x (int ?t + 16 + 1) = Some (lo8 (tcp_checksum p))"
    using lx hl by (simp_all add: idx_def nat_shift encode_app_tcp)
  have pl: "len ?x - (int ?t + int ?k) = len ?P" using lx by simp
  have fpl: "(if 0 < req \<and> req < len ?P then req else len ?P) = int m"
    by (auto simp: fake_len_def m)
  have cut: "slice ?x 0 (int ?t + int ?k + int m) = Some (encode_ip_tl ?L p @ encode_tcp p @ take m ?P)"
    unfolding x using ml by (simp add: slice_ok nat_int_add flip: of_nat_add)
  have wl: "upd (encode_ip_tl ?L p @ B) 2 (word_of_int (drop_bit 8 (int ?t + int ?k + int m)))
      \<bind> (\<lambda>y. upd y 3 (word_of_int (int ?t + int ?k + int m)) \<bind> f) = f (encode_ip_tl ?w p @ B)"
    for B and f :: "bytes \<Rightarrow> (fake_error + bytes \<times> u16 \<times> u16 \<times> int) option"
  proof -
    have "word_of_int (int ?t + int ?k + int m) = ?w" by simp
    then show ?thesis
      unfolding byte_hi byte_lo [of "int ?t + int ?k + int m"]
      using hl ip_write_len [of ?L p B ?w] by (simp add: upd_ok)
  qed
  have g: "\<not> len ?x < 20" "\<not> (int ?t < 20 \<or> len ?x < int ?t + 20)" "\<not> (int ?k < 20 \<or> len ?x < int ?t + int ?k)"
    "len ?P \<noteq> 0" using lx hl ml by auto
  show ?thesis
    unfolding cloneWithFakePayloadAndBadTCPChecksum_def if_not_P [OF g(1)] b0 bind.bind_lunit Let_def
      if_not_P [OF g(2)] doff if_not_P [OF g(3)] pl if_not_P [OF g(4)] fpl ck cut wl
    by simp
qed

lemma clone_encode:
  assumes p: "splittable p" and p': "p' = p\<lparr>payload := payload p @ tr\<rparr>" and m: "m = fake_len p' req"
  shows "cloneWithFakePayloadAndBadTCPChecksum (encode p @ tr) mode req rnd = Some (
    if mode = ''tls-invalid-length'' \<and> m < 5 then Inl (FakeTooShortForTLS (int m))
    else case fake_body p' mode req rnd of Inl e \<Rightarrow> Inl e
      | Inr pl \<Rightarrow> Inr (encode (set_bad_checksums (p'\<lparr>payload := pl\<rparr>)), tcp_checksum p,
                   NOT (tcp_checksum (set_checksums (p'\<lparr>payload := pl\<rparr>))), int m))"
proof (cases "mode = ''tls-invalid-length'' \<and> m < 5")
  case True
  then show ?thesis by (simp add: clone_front [OF p p' m])
next
  case False
  let ?H = "encode_ip_tl (of_nat (ip_hlen p + tcp_hlen p + m)) p @ encode_tcp p"
  have fill: "fill_fake_payload (?H @ take m (payload p')) mode (int (ip_hlen p + tcp_hlen p)) (int m) rnd
      = Some (case fake_body p' mode req rnd of Inl e \<Rightarrow> Inl e | Inr pl \<Rightarrow> Inr (?H @ pl))"
    using False m by (subst fill_encode)
      (auto simp: fake_body_def Let_def fake_len_def p' split: option.splits)
  have seal: "seal_fake (?H @ pl) (int (ip_hlen p)) = Some (Inr (encode (set_bad_checksums (p'\<lparr>payload := pl\<rparr>)),
      NOT (tcp_checksum (set_checksums (p'\<lparr>payload := pl\<rparr>)))))"
    if "fake_body p' mode req rnd = Inr pl" for pl
  proof -
    have "length pl = m" using False m by (intro trans [OF fake_body_length [OF that]]) auto
    then have "total_len (p'\<lparr>payload := pl\<rparr>) = ip_hlen p + tcp_hlen p + m"
      by (simp add: total_len_def p')
    then show ?thesis using seal_encode [of "p'\<lparr>payload := pl\<rparr>"] by (simp add: p')
  qed
  show ?thesis
    unfolding clone_front [OF p p' m] if_not_P [OF False]
    using fill seal by (auto split: sum.splits)
qed

lemma set_bad_checksums_props [simp]:
  "info_of (set_bad_checksums p) = info_of p" "payload (set_bad_checksums p) = payload p"
  "wf_packet (set_bad_checksums p) = wf_packet p" "frag (set_bad_checksums p) = frag p"
  by (simp_all add: set_bad_checksums_def info_of_def set_checksums_def Let_def wf_packet_def
      ip_hlen_def tcp_hlen_def total_len_def)

lemma bad_checksums_ok:
  assumes "wf_packet p"
  shows "internetChecksum (encode_ip (set_bad_checksums p)) = 0"
    and "internetChecksum (tcp_sum_bytes (set_bad_checksums p)) = 0 \<longleftrightarrow> tcp_checksum (set_checksums p) = 0"
proof -
  let ?q = "p\<lparr>tcp_checksum := 0\<rparr>" and ?d = "NOT (tcp_checksum (set_checksums p))"
  show "internetChecksum (encode_ip (set_bad_checksums p)) = 0"
    using set_checksums_valid [OF assms]
    by (simp add: checksums_valid_def set_bad_checksums_def encode_ip_def)
  have n: "total_len p \<le> 65535" "20 \<le> tcp_hlen p"
    using assms by (auto simp: wf_packet_def tcp_hlen_def)
  have len12: "length (pseudo_header ?q) = 12" by (simp add: pseudo_header_def u16_bytes_def)
  have len: "length (tcp_sum_bytes ?q) = 12 + tcp_hlen p + length (payload p)"
    by (simp add: tcp_sum_bytes_def len12)
  have "tcp_sum_bytes (set_bad_checksums p) = pseudo_header ?q @ encode_tcp (?q\<lparr>tcp_checksum := ?d\<rparr>) @ payload p"
    by (simp add: tcp_sum_bytes_def set_bad_checksums_def set_checksums_def Let_def pseudo_header_def)
  also have "\<dots> = (tcp_sum_bytes ?q)[28 := hi8 ?d, Suc 28 := lo8 ?d]"
    using n tcp_write_checksum [of ?q ?d] by (simp add: tcp_sum_bytes_def list_update_append len12)
  finally have eq: "tcp_sum_bytes (set_bad_checksums p) = (tcp_sum_bytes ?q)[28 := hi8 ?d, Suc 28 := lo8 ?d]" .
  have "encode_tcp ?q ! 16 = 0" "encode_tcp ?q ! 17 = 0"
    by (simp_all add: encode_tcp_def u16_bytes_def u32_bytes_def)
  then have z: "tcp_sum_bytes ?q ! 28 = 0" "tcp_sum_bytes ?q ! Suc 28 = 0"
    using n by (simp_all add: tcp_sum_bytes_def nth_append len12)
  have "unat ?d = 65535 - unat (internetChecksum (tcp_sum_bytes ?q))"
    by (simp add: tcp_checksum_set unat_not16)
  then show "internetChecksum (tcp_sum_bytes (set_bad_checksums p)) = 0 \<longleftrightarrow> tcp_checksum (set_checksums p) = 0"
    unfolding eq tcp_checksum_set using n len z
    by (intro core_ck.ck_fill_complement) (auto simp: total_len_def)
qed

lemma clone_parsed_total:
  assumes "ParseIPv4TCPPayload data = Some (info, True)"
  shows "\<exists>r. cloneWithFakePayloadAndBadTCPChecksum data mode req rnd = Some r"
proof -
  from assms obtain p tr where p: "splittable p" "data = encode p @ tr" by (rule parsed_is_encoded)
  show ?thesis unfolding p(2) using clone_encode [OF p(1) refl refl] by blast
qed

lemma fake_of_parsed:
  assumes "ParseIPv4TCPPayload data = Some (info, True)" and "len data \<le> 65535"
    and "cloneWithFakePayloadAndBadTCPChecksum data mode req rnd = Some (Inr (fake, orig, bad, n))"
  obtains p tr q where "splittable p" "data = encode p @ tr" "info = info_of p"
    "q = p\<lparr>payload := payload q\<rparr>" "splittable q" "length (payload q) = nat n" "0 < n"
    "fake_body (p\<lparr>payload := payload p @ tr\<rparr>) mode req rnd = Inr (payload q)"
    "n = int (fake_len (p\<lparr>payload := payload p @ tr\<rparr>) req)"
    "fake = encode (set_bad_checksums q)" "orig = tcp_checksum p" "bad = NOT (tcp_checksum (set_checksums q))"
proof -
  from assms(1) obtain p tr where p: "splittable p" "data = encode p @ tr" "info = info_of p"
    by (rule parsed_is_encoded)
  let ?p' = "p\<lparr>payload := payload p @ tr\<rparr>"
  from assms(3) obtain pl where b: "fake_body ?p' mode req rnd = Inr pl"
    and g: "\<not> (mode = ''tls-invalid-length'' \<and> fake_len ?p' req < 5)"
    and r: "fake = encode (set_bad_checksums (p\<lparr>payload := pl\<rparr>))" "orig = tcp_checksum p"
      "bad = NOT (tcp_checksum (set_checksums (p\<lparr>payload := pl\<rparr>)))" "n = int (fake_len ?p' req)"
    unfolding p(2) clone_encode [OF p(1) refl refl] by (auto split: if_splits sum.splits)
  have l: "length pl = fake_len ?p' req" using g by (intro fake_body_length [OF b]) auto
  have m: "0 < fake_len ?p' req" "fake_len ?p' req \<le> length (payload p @ tr)"
    using p(1) by (auto simp: fake_len_def splittable_def)
  have "splittable (p\<lparr>payload := pl\<rparr>)"
    using p(1) assms(2) l m by (auto simp: splittable_def wf_packet_def p(2) total_len_def ip_hlen_def tcp_hlen_def)
  with p b r l m that [of p tr "p\<lparr>payload := pl\<rparr>"] show ?thesis by simp
qed

subsection \<open>The bytes of the fake\<close>

text \<open>The header of the fake is the original header with the length and the two checksums rewritten.\<close>

lemma encode_header:
  "take (ip_hlen p + tcp_hlen p) (encode p @ tr) = encode_ip_tl (of_nat (total_len p)) p @ encode_tcp p"
  by (simp add: encode_def encode_ip_def)

lemma encode_tcp_checksum_bytes: "encode_tcp p ! 16 = hi8 (tcp_checksum p)" "encode_tcp p ! 17 = lo8 (tcp_checksum p)"
  by (simp_all add: encode_tcp_def u16_bytes_def u32_bytes_def)

lemma encode_write_tcp_checksum:
  assumes "ip_hlen p = h"
  shows "(encode p)[h + 16 := hi8 w, h + 17 := lo8 w] = encode (p\<lparr>tcp_checksum := w\<rparr>)"
  using assms tcp_hlen_min [of p] tcp_write_checksum [of p w]
  by (auto simp: encode_def encode_ip_def list_update_append total_len_def)

lemma header_rewritten:
  "(encode_ip_tl L p @ encode_tcp p)[2 := hi8 w, 3 := lo8 w, 10 := hi8 c, 11 := lo8 c,
       ip_hlen p + 16 := hi8 d, ip_hlen p + 17 := lo8 d]
     = encode_ip_tl w (p\<lparr>ip_checksum := c\<rparr>) @ encode_tcp (p\<lparr>tcp_checksum := d\<rparr>)"
  unfolding ip_write_len ip_write_checksum
  using tcp_write_checksum [of p d] by (simp add: list_update_append)

lemma ip_checksum_bytes:
  "20 \<le> ip_hlen p \<Longrightarrow> encode p ! 10 = hi8 (ip_checksum p) \<and> encode p ! 11 = lo8 (ip_checksum p)"
  by (simp add: encode_def encode_ip_def encode_ip_tl_def u16_bytes_def nth_append)

lemma fake_header_bytes:
  fixes p q :: tcp_packet
  assumes q: "q = p\<lparr>payload := pl\<rparr>"
  defines "fake \<equiv> encode (set_bad_checksums q)"
  shows "take (ip_hlen p + tcp_hlen p) fake = (take (ip_hlen p + tcp_hlen p) (encode p @ tr))
     [2 := hi8 (word_of_int (len fake)), 3 := lo8 (word_of_int (len fake)), 10 := fake ! 10, 11 := fake ! 11,
      ip_hlen p + 16 := hi8 (NOT (tcp_checksum (set_checksums q))),
      ip_hlen p + 17 := lo8 (NOT (tcp_checksum (set_checksums q)))]"
proof -
  let ?s = "set_bad_checksums q" and ?d = "NOT (tcp_checksum (set_checksums q))"
  obtain c where s: "?s = p\<lparr>payload := pl, ip_checksum := c, tcp_checksum := ?d\<rparr>"
    by (simp add: q set_bad_checksums_def set_checksums_def Let_def)
  have hl: "ip_hlen ?s = ip_hlen p" "tcp_hlen ?s = tcp_hlen p" "ip_checksum ?s = c"
    unfolding s by (simp_all add: ip_hlen_def tcp_hlen_def)
  have w: "word_of_int (len fake) = (of_nat (total_len ?s) :: u16)" by (simp add: fake_def)
  have "20 \<le> ip_hlen ?s" using min_lens(2) .
  then have c: "fake ! 10 = hi8 c" "fake ! 11 = lo8 c"
    using ip_checksum_bytes [of ?s] by (simp_all add: fake_def hl)
  have "take (ip_hlen p + tcp_hlen p) fake
      = encode_ip_tl (of_nat (total_len ?s)) ?s @ encode_tcp ?s"
    using encode_header [of ?s "[]"] by (simp add: fake_def hl)
  also have "\<dots> = encode_ip_tl (of_nat (total_len ?s)) (p\<lparr>ip_checksum := c\<rparr>) @ encode_tcp (p\<lparr>tcp_checksum := ?d\<rparr>)"
    by (subst (2 3) s) (simp add: encode_ip_tl_def encode_tcp_def)
  finally show ?thesis unfolding encode_header header_rewritten w c .
qed

lemma fake_complement_valid:
  assumes "wf_packet q"
  shows "tcp_checksum_ok ((encode (set_bad_checksums q))[ip_hlen q + 16 := hi8 (tcp_checksum (set_checksums q)),
       ip_hlen q + 17 := lo8 (tcp_checksum (set_checksums q))]) (info_of q)"
proof -
  have "(set_bad_checksums q)\<lparr>tcp_checksum := tcp_checksum (set_checksums q)\<rparr> = set_checksums q"
    by (simp add: set_bad_checksums_def)
  moreover have "ip_hlen (set_bad_checksums q) = ip_hlen q"
    by (simp add: set_bad_checksums_def set_checksums_def Let_def ip_hlen_def)
  ultimately show ?thesis
    using checksums_ok_encode(2) [OF set_checksums_valid [OF assms]]
    by (simp add: encode_write_tcp_checksum)
qed

lemma not_eq_max16: "NOT c = 0xffff \<longleftrightarrow> c = 0" for c :: u16
proof -
  have "NOT c = 0xffff \<longleftrightarrow> unat (NOT c) = unat (0xffff :: u16)"
    by (metis unsigned_word_eqI)
  moreover have "unat c < 65536" using unsigned_less [of c, where ?'a = nat] by simp
  ultimately show ?thesis by (simp only: unat_not16) (auto simp flip: unat_eq_0)
qed

lemma fake_checksums:
  assumes "wf_packet q"
  defines "fake \<equiv> encode (set_bad_checksums q)" and "bad \<equiv> NOT (tcp_checksum (set_checksums q))"
  shows "ip_checksum_ok fake (info_of q)" "tcp_checksum_ok fake (info_of q) \<longleftrightarrow> bad = 0xffff"
proof -
  let ?b = "set_bad_checksums q"
  have "take (ip_hlen q) (encode ?b) = encode_ip ?b" "drop (ip_hlen q) (encode ?b) = encode_tcp ?b @ payload ?b"
    by (simp_all add: encode_def set_bad_checksums_def set_checksums_def Let_def)
  then have "ip_checksum_ok fake (info_of q) = (internetChecksum (encode_ip ?b) = 0)"
    "tcp_checksum_ok fake (info_of q) = (internetChecksum (tcp_sum_bytes ?b) = 0)"
    using addrs_of_encode [of ?b]
    by (simp_all add: ip_checksum_ok_def tcp_checksum_ok_def info_of_def Let_def fake_def
        tcp_sum_bytes_def pseudo_header_def)
  then show "ip_checksum_ok fake (info_of q)" "tcp_checksum_ok fake (info_of q) \<longleftrightarrow> bad = 0xffff"
    using bad_checksums_ok [OF assms(1)] by (simp_all add: bad_def not_eq_max16)
qed

subsection \<open>Properties\<close>

text \<open>
  C28. The fake packet: whenever it is built from a packet the parser accepts (of at most
  65535 bytes), it is again a packet the parser accepts. Its header is the original
  header byte for byte except for the total length, the IPv4 checksum and the TCP checksum (offsets 2,
  3, 10, 11 and \<open>IPHeaderLen + 16\<close>, \<open>IPHeaderLen + 17\<close>), its length is the header plus
  the fake payload, and the reported original checksum is the one read from the packet. The payload has the requested length, or,
  when none is requested or the request is not smaller, as many bytes as follow the headers in the
  buffer (bytes beyond the total length of the packet included); in copy mode it is
  a prefix of those bytes, in the other mode it begins with the five-byte TLS
  record header declaring 65535 bytes. The IPv4 header checksum is valid; the TCP
  checksum field holds \<open>bad\<close>, the complement of the valid checksum (with \<open>NOT bad\<close> in its place the
  segment verifies), and a receiver rejects the fake except when the valid checksum is zero: then the
  complement is the other one's-complement zero and the fake verifies.
\<close>

theorem fake_packet_correct:
  assumes "ParseIPv4TCPPayload data = Some (info, True)" and "len data \<le> 65535"
    and "cloneWithFakePayloadAndBadTCPChecksum data mode req rnd = Some (Inr (fake, orig, bad, n))"
  shows "\<exists>i h k. ParseIPv4TCPPayload fake = Some (i, True)
     \<and> h = nat (IPHeaderLen info) \<and> k = nat (PayloadOffset info)
     \<and> i = info\<lparr>PayloadLen := n, TotalLen := len fake\<rparr> \<and> len fake = PayloadOffset info + n
     \<and> take k fake = (take k data)[2 := hi8 (word_of_int (len fake)), 3 := lo8 (word_of_int (len fake)),
          10 := fake ! 10, 11 := fake ! 11, h + 16 := hi8 bad, h + 17 := lo8 bad]
     \<and> n = (if 0 < req \<and> req < len data - PayloadOffset info then req else len data - PayloadOffset info)
     \<and> (if mode = ''copy'' then payload_of fake i = take (nat n) (drop (nat (PayloadOffset info)) data)
         else take 5 (payload_of fake i) = [0x16, 0x03, 0x03, 0xff, 0xff])
     \<and> data ! (h + 16) = hi8 orig \<and> data ! (h + 17) = lo8 orig
     \<and> ip_checksum_ok fake i \<and> (tcp_checksum_ok fake i \<longleftrightarrow> bad = 0xffff)
     \<and> tcp_checksum_ok (fake[h + 16 := hi8 (NOT bad), h + 17 := lo8 (NOT bad)]) i"
proof -
  from assms obtain p tr q where q: "splittable p" "data = encode p @ tr" "info = info_of p"
    "q = p\<lparr>payload := payload q\<rparr>" "splittable q" "length (payload q) = nat n" "0 < n"
    "fake_body (p\<lparr>payload := payload p @ tr\<rparr>) mode req rnd = Inr (payload q)"
    "n = int (fake_len (p\<lparr>payload := payload p @ tr\<rparr>) req)"
    "fake = encode (set_bad_checksums q)" "orig = tcp_checksum p" "bad = NOT (tcp_checksum (set_checksums q))"
    by (rule fake_of_parsed)
  let ?b = "set_bad_checksums q"
  have sb: "splittable ?b" and wf: "wf_packet q" using q(5) by (simp_all add: splittable_def)
  have 1: "ParseIPv4TCPPayload fake = Some (info_of q, True)"
    using ParsePayload_encode [OF sb, of "[]"] q(10) by simp
  have hl: "ip_hlen q = ip_hlen p" "tcp_hlen q = tcp_hlen p"
    using q(4) hlen_updates by metis+
  have k: "nat (IPHeaderLen info) = ip_hlen p" "nat (PayloadOffset info) = ip_hlen p + tcp_hlen p"
    "PayloadOffset info = int (ip_hlen p + tcp_hlen p)" by (simp_all add: q(3) info_of_def)
  have L: "len fake = PayloadOffset info + n"
    using q(6,7) by (simp add: q(10) k hl set_bad_checksums_def set_checksums_def Let_def total_len_def)
  have 2: "info_of q = info\<lparr>PayloadLen := n, TotalLen := len fake\<rparr>"
    using arg_cong [OF q(4), of info_of] q(3,6,7,10) hl
    by (simp add: info_of_def total_len_def set_bad_checksums_def set_checksums_def Let_def)
  have avail: "len data - PayloadOffset info = len (payload p @ tr)"
    by (simp add: q(2,3) info_of_def total_len_def)
  have 3: "n = (if 0 < req \<and> req < len data - PayloadOffset info then req else len data - PayloadOffset info)"
    unfolding avail using q(9) by (simp add: fake_len_def)
  have pay: "payload_of fake (info_of q) = payload q"
    using payload_of_encode [of ?b "[]"] q(10) by simp
  have "drop (nat (PayloadOffset info)) data = payload p @ tr"
    by (simp add: q(2,3) info_of_def encode_def)
  then have 4: "if mode = ''copy'' then payload_of fake (info_of q) = take (nat n) (drop (nat (PayloadOffset info)) data)
         else take 5 (payload_of fake (info_of q)) = [0x16, 0x03, 0x03, 0xff, 0xff]"
    using fake_body_content [OF q(8)] q(9) unfolding pay by simp
  have 5: "data ! (ip_hlen p + 16) = hi8 orig" "data ! (ip_hlen p + 17) = lo8 orig"
    by (simp_all add: q(2,11) encode_app_tcp encode_tcp_checksum_bytes)
  note 6 = fake_checksums [OF wf, folded q(10,12)]
  have 7: "tcp_checksum_ok (fake[ip_hlen p + 16 := hi8 (NOT bad), ip_hlen p + 17 := lo8 (NOT bad)]) (info_of q)"
    using fake_complement_valid [OF wf] by (simp add: q(10,12) hl)
  show ?thesis
    using 1 2 3 4 5 6 7 L fake_header_bytes [OF q(4), of tr, folded q(2,10,12)] unfolding k(1,2) by blast
qed

text \<open>
  A segment whose valid TCP checksum is zero, and its copy-mode fake: the payload bytes
  \<open>0xe6 0x81\<close> make the one's-complement sum all ones.
\<close>

definition zero_checksum_packet :: tcp_packet where
  "zero_checksum_packet = example_packet 0x18 [0xe6, 0x81]"

lemma zero_checksum_packet_sum: "tcp_checksum (set_checksums zero_checksum_packet) = 0"
proof -
  let ?q = "zero_checksum_packet\<lparr>tcp_checksum := 0\<rparr>"
  have w: "wsum (tcp_sum_bytes ?q) = 327675"
    by (simp add: tcp_sum_bytes_def pseudo_header_def encode_tcp_def zero_checksum_packet_def
        example_packet_def u16_bytes_def u32_bytes_def hi8_def lo8_def tcp_hlen_def)
  have l: "length (tcp_sum_bytes ?q) \<le> 131072"
    by (simp add: tcp_sum_bytes_def pseudo_header_def u16_bytes_def
        zero_checksum_packet_def example_packet_def tcp_hlen_def)
  show ?thesis
    unfolding tcp_checksum_set core_ck.ck_zero_iff [OF l] w by (simp add: ones_fold_max_iff)
qed

lemma zero_checksum_packet_splittable: "splittable zero_checksum_packet"
  by (simp add: splittable_def zero_checksum_packet_def example_packet_wf) (simp add: example_packet_def)

theorem fake_packet_correct_witness:
  "\<exists>fake orig bad n i.
     cloneWithFakePayloadAndBadTCPChecksum (encode zero_checksum_packet) ''copy'' 0 None
       = Some (Inr (fake, orig, bad, n))
   \<and> ParseIPv4TCPPayload fake = Some (i, True) \<and> ip_checksum_ok fake i \<and> tcp_checksum_ok fake i"
proof -
  let ?z = zero_checksum_packet
  note s = zero_checksum_packet_splittable
  have parse: "ParseIPv4TCPPayload (encode ?z) = Some (info_of ?z, True)"
    using ParsePayload_encode [OF s, of "[]"] by simp
  have len: "len (encode ?z) \<le> 65535"
    using s by (simp add: splittable_def wf_packet_def)
  have clone: "cloneWithFakePayloadAndBadTCPChecksum (encode ?z) ''copy'' 0 None
      = Some (Inr (encode (set_bad_checksums ?z), tcp_checksum ?z, 0xffff, 2))"
    using clone_encode [OF s refl refl, where tr = "[]" and mode = "''copy''" and req = 0 and rnd = None]
    by (simp add: fake_body_def fake_len_def zero_checksum_packet_sum)
      (simp add: zero_checksum_packet_def example_packet_def)
  from fake_packet_correct [OF parse len clone] clone show ?thesis by auto
qed

end
