(* ===== verification/Algorithm.thy ===== *)
theory Algorithm
  imports Prelude "HOL-Library.Stream"
begin

text \<open>
  \<open>src/internal/algorithm.go\<close>: the three cooldown algorithms and the rejection sampler
  they draw from. The global source of \<open>math/rand\<close> is the stream of values its
  \<open>Uint64\<close> returns, consumed from the front; every operation that draws returns the rest
  of the stream. The sampling loop may in principle run forever, so it is a partial
  function whose result \<open>None\<close> means that it does not return.

  The locale \<open>cooldown_algorithm\<close> is the Go interface \<open>Algorithm\<close> with the contract
  its users rely on; the interpretation at the end discharges it for \<open>Next\<close>.
\<close>

type_synonym rng = "u64 stream"

datatype Algorithm =
    FixedAlgorithm duration
  | RandomAlgorithm duration duration
  | JitterAlgorithm duration duration

datatype algo_error =
    CooldownNegative
  | MinDelayNegative
  | MaxDelayBelowMin
  | JitterNegative
  | BadMode string

subsection \<open>Rejection sampling\<close>

partial_function (option) sample_loop :: "u64 \<Rightarrow> u64 \<Rightarrow> rng \<Rightarrow> (u64 \<times> rng) option" where
  "sample_loop threshold sz s =
     (if threshold \<le> shd s then Some (shd s mod sz, stl s)
      else sample_loop threshold sz (stl s))"

definition randomUint64Inclusive :: "u64 \<Rightarrow> rng \<Rightarrow> (u64 \<times> rng) option" where
  "randomUint64Inclusive mx s =
     (if mx = 0xffffffffffffffff then Some (shd s, stl s)
      else let sz = mx + 1; threshold = (- sz) mod sz
           in sample_loop threshold sz s)"

definition randomDurationInclusive :: "duration \<Rightarrow> duration \<Rightarrow> rng \<Rightarrow> (duration \<times> rng) option" where
  "randomDurationInclusive mn mx s =
     (let mn = (if mn < 0 then 0 else mn)
      in if mx \<le> mn then Some (mn, s)
         else let span = word_of_int (wrap64 (mx - mn)) :: u64
              in do { (offset, s') \<leftarrow> randomUint64Inclusive span s;
                      Some (wrap64 (mn + sint offset), s') })"

subsection \<open>The algorithms\<close>

definition jitter_offset :: "duration \<Rightarrow> u64 \<Rightarrow> u64 \<Rightarrow> duration" where
  "jitter_offset base jitter raw =
     (if raw \<le> jitter
      then let negativeOffset = jitter - raw
           in if (word_of_int base :: u64) \<le> negativeOffset then 0
              else wrap64 (base - sint negativeOffset)
      else let positiveOffset = raw - jitter;
               maxPositiveOffset = word_of_int (wrap64 (MaxInt64 - base)) :: u64
           in if maxPositiveOffset < positiveOffset then MaxInt64
              else wrap64 (base + sint positiveOffset))"

fun Next :: "Algorithm \<Rightarrow> rng \<Rightarrow> (duration \<times> rng) option" where
  "Next (FixedAlgorithm cooldown) s = Some (cooldown, s)"
| "Next (RandomAlgorithm mn mx) s =
     (let mn = (if mn < 0 then 0 else mn)
      in if mx \<le> mn then Some (mn, s) else randomDurationInclusive mn mx s)"
| "Next (JitterAlgorithm base jit) s =
     (let base = (if base < 0 then 0 else base)
      in if jit \<le> 0 then Some (base, s)
         else let jitter = word_of_int jit :: u64
              in do { (raw, s') \<leftarrow> randomUint64Inclusive (jitter * 2) s;
                      Some (jitter_offset base jitter raw, s') })"

fun Name :: "Algorithm \<Rightarrow> string" where
  "Name (FixedAlgorithm _) = ''fixed''"
| "Name (RandomAlgorithm _ _) = ''random''"
| "Name (JitterAlgorithm _ _) = ''jitter''"

definition NewAlgorithm ::
  "string \<Rightarrow> duration \<Rightarrow> duration \<Rightarrow> duration \<Rightarrow> duration \<Rightarrow> algo_error + Algorithm" where
  "NewAlgorithm mode cooldown minDelay maxDelay jitter =
     (if mode = ''fixed'' then
        (if cooldown < 0 then Inl CooldownNegative else Inr (FixedAlgorithm cooldown))
      else if mode = ''random'' then
        (if minDelay < 0 then Inl MinDelayNegative
         else if maxDelay < minDelay then Inl MaxDelayBelowMin
         else Inr (RandomAlgorithm minDelay maxDelay))
      else if mode = ''jitter'' then
        (if cooldown < 0 then Inl CooldownNegative
         else if jitter < 0 then Inl JitterNegative
         else Inr (JitterAlgorithm cooldown jitter))
      else Inl (BadMode mode))"

subsection \<open>What the algorithms promise\<close>

text \<open>
  The interval an algorithm draws from, the parameters \<open>NewAlgorithm\<close> can produce, and the
  sources on which sampling ends: those with the top bit set again and again.
\<close>

fun algo_lo :: "Algorithm \<Rightarrow> duration" where
  "algo_lo (FixedAlgorithm c) = c"
| "algo_lo (RandomAlgorithm mn mx) = mn"
| "algo_lo (JitterAlgorithm b j) = max 0 (b - j)"

fun algo_hi :: "Algorithm \<Rightarrow> duration" where
  "algo_hi (FixedAlgorithm c) = c"
| "algo_hi (RandomAlgorithm mn mx) = mx"
| "algo_hi (JitterAlgorithm b j) = min MaxInt64 (b + j)"

fun valid_algorithm :: "Algorithm \<Rightarrow> bool" where
  "valid_algorithm (FixedAlgorithm c) \<longleftrightarrow> 0 \<le> c \<and> int64 c"
| "valid_algorithm (RandomAlgorithm mn mx) \<longleftrightarrow> 0 \<le> mn \<and> mn \<le> mx \<and> int64 mx"
| "valid_algorithm (JitterAlgorithm b j) \<longleftrightarrow> 0 \<le> b \<and> 0 \<le> j \<and> int64 b \<and> int64 j"

definition fair_rng :: "rng \<Rightarrow> bool" where
  "fair_rng s \<longleftrightarrow> (\<forall>n. \<exists>m\<ge>n. 0x8000000000000000 \<le> s !! m)"

locale cooldown_algorithm =
  fixes nxt :: "'a \<Rightarrow> rng \<Rightarrow> (duration \<times> rng) option"
    and lo :: "'a \<Rightarrow> duration"
    and hi :: "'a \<Rightarrow> duration"
    and ok :: "'a \<Rightarrow> bool"
  assumes nxt_range: "ok a \<Longrightarrow> nxt a s = Some (d, s') \<Longrightarrow> lo a \<le> d \<and> d \<le> hi a"
    and lo_nonneg: "ok a \<Longrightarrow> 0 \<le> lo a"
    and hi_max: "ok a \<Longrightarrow> hi a \<le> MaxInt64"
    and nxt_total: "ok a \<Longrightarrow> fair_rng s \<Longrightarrow> \<exists>d s'. nxt a s = Some (d, s') \<and> fair_rng s'"
begin

lemma nxt_int64: "ok a \<Longrightarrow> nxt a s = Some (d, s') \<Longrightarrow> int64 d"
  using nxt_range [of a s d s'] lo_nonneg [of a] hi_max [of a] by (simp add: int64_def)

lemma nxt_nonneg: "ok a \<Longrightarrow> nxt a s = Some (d, s') \<Longrightarrow> 0 \<le> d"
  using nxt_range [of a s d s'] lo_nonneg [of a] by simp

end

subsection \<open>Lemmas on the sampler\<close>

lemma fair_rng_stl: "fair_rng s \<Longrightarrow> fair_rng (stl s)"
  unfolding fair_rng_def
proof
  fix n
  assume "\<forall>n. \<exists>m\<ge>n. 0x8000000000000000 \<le> s !! m"
  then obtain m where m: "Suc n \<le> m" "0x8000000000000000 \<le> s !! m" by blast
  then have "stl s !! (m - 1) = s !! m" by (cases m) auto
  with m show "\<exists>m\<ge>n. 0x8000000000000000 \<le> stl s !! m"
    by (intro exI [of _ "m - 1"]) auto
qed

lemma fair_rng_sconst: "0x8000000000000000 \<le> v \<Longrightarrow> fair_rng (sconst v)"
  by (auto simp: fair_rng_def)

text \<open>The threshold is \<open>2\<^sup>6\<^sup>4 mod size\<close> and lies below \<open>2\<^sup>6\<^sup>3\<close>.\<close>

lemma unat_threshold:
  fixes sz :: u64
  assumes "sz \<noteq> 0"
  shows "unat ((- sz) mod sz) = 2 ^ 64 mod unat sz"
proof -
  have lt: "unat sz < 2 ^ 64" using unsigned_less [of sz, where ?'a = nat] by simp
  have "unat (- sz) = 2 ^ 64 - unat sz"
    using assms unat_sub_if_size [of 0 sz] by (simp add: unat_eq_0 word_size)
  moreover have "(2 ^ 64 - unat sz) mod unat sz = 2 ^ 64 mod unat sz"
    using lt by (simp add: le_mod_geq)
  ultimately show ?thesis by (simp add: unat_mod)
qed

lemma mod_below_half: "0 < k \<Longrightarrow> k < (2::nat) ^ 64 \<Longrightarrow> 2 ^ 64 mod k < 2 ^ 63"
proof (cases "k \<le> 2 ^ 63")
  case True
  assume "0 < k"
  then have "2 ^ 64 mod k < k" by simp
  with True show ?thesis by linarith
next
  case False
  assume "k < 2 ^ 64"
  with False have "2 ^ 64 mod k = 2 ^ 64 - k"
    by (simp add: le_mod_geq)
  with False show ?thesis by simp
qed

lemma threshold_below_half:
  fixes sz :: u64
  assumes "sz \<noteq> 0"
  shows "(- sz) mod sz < 0x8000000000000000"
proof -
  have "0 < unat sz" "unat sz < 2 ^ 64"
    using assms unsigned_less [of sz, where ?'a = nat] by (auto simp: unat_gt_0)
  from mod_below_half [OF this] show ?thesis
    using assms by (simp add: word_less_nat_alt unat_threshold)
qed

lemma sample_loop_accept:
  "threshold \<le> shd s \<Longrightarrow> sample_loop threshold sz s = Some (shd s mod sz, stl s)"
  by (subst sample_loop.simps) simp

lemma sample_loop_reject:
  "\<not> threshold \<le> shd s \<Longrightarrow> sample_loop threshold sz s = sample_loop threshold sz (stl s)"
  by (subst sample_loop.simps) simp

lemma sample_loop_total:
  assumes "threshold \<le> s !! m"
  shows "\<exists>k\<le>m. sample_loop threshold sz s = Some (s !! k mod sz, sdrop (Suc k) s)
           \<and> threshold \<le> s !! k \<and> (\<forall>i<k. s !! i < threshold)"
  using assms
proof (induction m arbitrary: s)
  case 0
  then have "sample_loop threshold sz s = Some (s !! 0 mod sz, sdrop (Suc 0) s)"
    by (simp add: sample_loop_accept)
  with 0 show ?case by auto
next
  case (Suc m)
  show ?case
  proof (cases "threshold \<le> shd s")
    case True
    then have "sample_loop threshold sz s = Some (s !! 0 mod sz, sdrop (Suc 0) s)"
      by (simp add: sample_loop_accept)
    with True show ?thesis by (intro exI [of _ 0]) auto
  next
    case False
    from Suc.prems have "threshold \<le> stl s !! m" by simp
    from Suc.IH [OF this] obtain k where
      k: "k \<le> m" "sample_loop threshold sz (stl s) = Some (stl s !! k mod sz, sdrop (Suc k) (stl s))"
        "threshold \<le> stl s !! k" "\<forall>i<k. stl s !! i < threshold" by blast
    have "sample_loop threshold sz s = sample_loop threshold sz (stl s)"
      using False by (rule sample_loop_reject)
    moreover have "\<forall>i<Suc k. s !! i < threshold"
      using False k(4) by (auto simp: less_Suc_eq_0_disj)
    ultimately show ?thesis using k by (intro exI [of _ "Suc k"]) auto
  qed
qed

lemma sample_loop_result:
  assumes "sample_loop threshold sz s = Some (r, s')"
  shows "\<exists>v. threshold \<le> v \<and> r = v mod sz"
proof -
  have "\<exists>v. threshold \<le> v \<and> fst (r, s') = v mod sz"
    by (rule sample_loop.raw_induct
          [where P = "\<lambda>t z s p. \<exists>v. t \<le> v \<and> fst p = v mod z", OF _ assms])
      (auto split: if_splits)
  then show ?thesis by simp
qed

lemma fair_rng_sdrop: "fair_rng s \<Longrightarrow> fair_rng (sdrop n s)"
  by (induction n arbitrary: s) (auto simp: fair_rng_stl)

lemma randomUint64Inclusive_total:
  assumes "fair_rng s"
  shows "\<exists>r s'. randomUint64Inclusive mx s = Some (r, s') \<and> fair_rng s'"
proof (cases "mx = 0xffffffffffffffff")
  case True
  with assms show ?thesis by (simp add: randomUint64Inclusive_def fair_rng_stl)
next
  case False
  define t where "t = (- (mx + 1)) mod (mx + 1)"
  from False have "mx + 1 \<noteq> 0" using add_eq_0_iff2 [of mx 1] by auto
  from threshold_below_half [OF this] obtain m where "t \<le> s !! m"
    using assms unfolding fair_rng_def t_def by (meson order.strict_implies_order order_trans)
  from sample_loop_total [OF this] obtain k where
    "sample_loop t (mx + 1) s = Some (s !! k mod (mx + 1), sdrop (Suc k) s)" by blast
  moreover have "fair_rng (sdrop (Suc k) s)" using assms by (rule fair_rng_sdrop)
  ultimately show ?thesis
    using False by (simp add: randomUint64Inclusive_def t_def Let_def)
qed

lemma randomUint64Inclusive_range:
  assumes "randomUint64Inclusive mx s = Some (r, s')"
  shows "r \<le> mx"
proof (cases "mx = 0xffffffffffffffff")
  case True
  then show ?thesis
    using unsigned_less [of r, where ?'a = nat] by (simp add: word_le_nat_alt)
next
  case False
  then have nz: "mx + 1 \<noteq> 0" using add_eq_0_iff2 [of mx 1] by auto
  from assms False obtain v where "r = v mod (mx + 1)"
    by (auto simp: randomUint64Inclusive_def Let_def dest: sample_loop_result)
  then have "r < mx + 1" using nz by (simp add: word_mod_less_divisor word_neq_0_conv)
  moreover have "unat (mx + 1) = Suc (unat mx)"
    using nz unatSuc [of mx] by (simp add: add.commute)
  ultimately show ?thesis by (simp add: word_less_nat_alt word_le_nat_alt)
qed

lemma uint_diff_word: "a \<le> b \<Longrightarrow> uint (b - a) = uint b - uint a" for a b :: u64
  by (simp add: uint_minus_simple_alt)

lemma jitter_offset_clamp:
  assumes base: "0 \<le> base" "int64 base" and jit: "0 \<le> jit" "int64 jit"
    and raw: "raw \<le> word_of_int jit * 2"
  shows "jitter_offset base (word_of_int jit) raw = max 0 (min MaxInt64 (base + (uint raw - jit)))"
proof -
  let ?j = "word_of_int jit :: u64"
  have uj: "uint ?j = jit" using jit by (rule uint_of_duration)
  have ub: "uint (word_of_int base :: u64) = base" using base by (rule uint_of_duration)
  have "uint (?j * 2) = jit * 2"
    using jit by (simp add: uint_word_ariths uj int64_def)
  with raw have ur: "uint raw \<le> jit * 2" by (simp add: word_le_def)
  show ?thesis
  proof (cases "raw \<le> ?j")
    case True
    then have un: "uint (?j - raw) = jit - uint raw" by (simp add: uint_diff_word uj)
    then have "sint (?j - raw) = jit - uint raw"
      using jit by (subst sint_small) (auto simp: int64_def intro: order_trans [of _ jit])
    moreover have "uint raw \<le> jit" using True by (simp add: word_le_def uj)
    ultimately show ?thesis
      using True base jit by (auto simp: jitter_offset_def Let_def word_le_def un ub uj int64_def wrap64_id)
  next
    case False
    then have lt: "jit < uint raw" by (simp add: word_le_def uj)
    have up: "uint (raw - ?j) = uint raw - jit" using False by (simp add: uint_diff_word uj)
    then have "sint (raw - ?j) = uint raw - jit"
      using jit ur by (subst sint_small) (auto simp: int64_def)
    moreover have "uint (word_of_int (wrap64 (MaxInt64 - base)) :: u64) = MaxInt64 - base"
    proof -
      have "int64 (MaxInt64 - base)" using base by (simp add: int64_def)
      moreover have "0 \<le> MaxInt64 - base" using base by (simp add: int64_def)
      ultimately show ?thesis by (metis uint_of_duration wrap64_id)
    qed
    ultimately show ?thesis
      using False lt base by (auto simp: jitter_offset_def Let_def word_less_def up int64_def wrap64_id)
  qed
qed

lemma randomDurationInclusive_range:
  assumes "0 \<le> mn" and "mn < mx" and "int64 mx"
    and "randomDurationInclusive mn mx s = Some (d, s')"
  shows "mn \<le> d \<and> d \<le> mx"
proof -
  have i: "int64 (mx - mn)" using assms(1-3) by (auto simp: int64_def)
  from assms obtain off where
    r: "randomUint64Inclusive (word_of_int (mx - mn)) s = Some (off, s')"
    and d: "d = wrap64 (mn + sint off)"
    by (auto simp: randomDurationInclusive_def Let_def wrap64_id [OF i] split: bind_splits)
  have "uint off \<le> mx - mn"
    using randomUint64Inclusive_range [OF r] uint_of_duration [of "mx - mn"] i assms(2)
    by (simp add: word_le_def)
  then have "sint off = uint off"
    using assms by (intro sint_small) (simp add: int64_def)
  moreover have "int64 (mn + uint off)"
    using \<open>uint off \<le> mx - mn\<close> assms(1-3) unsigned_greater_eq [of off, where ?'a = int]
    unfolding int64_def by linarith
  ultimately show ?thesis
    using d \<open>uint off \<le> mx - mn\<close> by (simp add: wrap64_id)
qed

lemma Next_range:
  assumes "valid_algorithm a" and "Next a s = Some (d, s')"
  shows "algo_lo a \<le> d \<and> d \<le> algo_hi a"
  using assms
proof (cases a)
  case (RandomAlgorithm mn mx)
  with assms show ?thesis
    using randomDurationInclusive_range [of mn mx s d s']
    by (cases "mn < mx") (auto simp: Let_def)
next
  case (JitterAlgorithm b j)
  show ?thesis
  proof (cases "j \<le> 0")
    case True
    with assms JitterAlgorithm show ?thesis by (auto simp: Let_def int64_def)
  next
    case False
    with assms JitterAlgorithm obtain raw where
      r: "randomUint64Inclusive (word_of_int j * 2) s = Some (raw, s')"
      and d: "d = jitter_offset b (word_of_int j) raw"
      by (auto simp: Let_def split: bind_splits)
    have le: "raw \<le> word_of_int j * 2" using r by (rule randomUint64Inclusive_range)
    have b: "0 \<le> b" "int64 b" "0 \<le> j" "int64 j" using assms JitterAlgorithm by auto
    have "uint raw \<le> j * 2"
      using le b uint_of_duration [of j] by (simp add: word_le_def uint_word_ariths int64_def)
    moreover have "d = max 0 (min MaxInt64 (b + (uint raw - j)))"
      unfolding d using b le by (intro jitter_offset_clamp)
    moreover have "max 0 (b - j) \<le> max 0 (min MaxInt64 (b + (u - j)))
        \<and> max 0 (min MaxInt64 (b + (u - j))) \<le> min MaxInt64 (b + j)"
      if "0 \<le> u" "u \<le> j * 2" for u
      using b that by (auto simp: int64_def)
    ultimately show ?thesis
      using JitterAlgorithm unsigned_greater_eq [of raw, where ?'a = int]
      by (metis algo_hi.simps(3) algo_lo.simps(3))
  qed
qed auto

lemma randomDurationInclusive_total:
  assumes "fair_rng s"
  shows "\<exists>d s'. randomDurationInclusive mn mx s = Some (d, s') \<and> fair_rng s'"
proof -
  let ?mn = "if mn < 0 then 0 else mn"
  obtain r s' where "randomUint64Inclusive (word_of_int (wrap64 (mx - ?mn))) s = Some (r, s')"
    "fair_rng s'"
    using randomUint64Inclusive_total [OF assms] by blast
  with assms show ?thesis by (auto simp: randomDurationInclusive_def Let_def)
qed

lemma Next_total:
  assumes "fair_rng s"
  shows "\<exists>d s'. Next a s = Some (d, s') \<and> fair_rng s'"
  using assms
proof (cases a)
  case (RandomAlgorithm mn mx)
  with assms show ?thesis
    using randomDurationInclusive_total [OF assms] by (auto simp: Let_def)
next
  case (JitterAlgorithm b j)
  obtain r s' where "randomUint64Inclusive (word_of_int j * 2) s = Some (r, s')" "fair_rng s'"
    using randomUint64Inclusive_total [OF assms] by blast
  with assms JitterAlgorithm show ?thesis by (auto simp: Let_def)
qed auto

interpretation alg: cooldown_algorithm Next algo_lo algo_hi valid_algorithm
proof unfold_locales
  fix a s d s'
  show "valid_algorithm a \<Longrightarrow> Next a s = Some (d, s') \<Longrightarrow> algo_lo a \<le> d \<and> d \<le> algo_hi a"
    by (rule Next_range)
  show "valid_algorithm a \<Longrightarrow> 0 \<le> algo_lo a"
    by (cases a) auto
  show "valid_algorithm a \<Longrightarrow> algo_hi a \<le> MaxInt64"
    by (cases a) (auto simp: int64_def)
  show "fair_rng s \<Longrightarrow> \<exists>d s'. Next a s = Some (d, s') \<and> fair_rng s'"
    by (rule Next_total)
qed

lemma NewAlgorithm_valid:
  assumes "int64 cooldown" "int64 maxDelay" "int64 jitter"
    and "NewAlgorithm mode cooldown minDelay maxDelay jitter = Inr a"
  shows "valid_algorithm a"
  using assms by (auto simp: NewAlgorithm_def split: if_splits)

subsection \<open>Uniformity\<close>

lemma residue_class_image:
  fixes k q t r :: nat
  assumes "0 < k" "t < k" "r < k"
  shows "{n. t \<le> n \<and> n < t + q * k \<and> n mod k = r}
           = (\<lambda>i. r + (if r < t then Suc i else i) * k) ` {..<q}"
proof (rule set_eqI, rule iffI)
  fix n
  assume "n \<in> {n. t \<le> n \<and> n < t + q * k \<and> n mod k = r}"
  then have n: "t \<le> n" "n < t + q * k" "n = r + n div k * k"
    using mod_div_mult_eq [of n k] by auto
  show "n \<in> (\<lambda>i. r + (if r < t then Suc i else i) * k) ` {..<q}"
  proof (cases "r < t")
    case True
    with n obtain m where m: "n div k = Suc m" by (cases "n div k") auto
    with n have "r + (k + m * k) < t + q * k" by simp
    with assms have "m * k < q * k" by linarith
    then have "m < q" by simp
    with n m True show ?thesis by (intro image_eqI [of _ _ m]) auto
  next
    case False
    with n have "n div k * k < q * k" by linarith
    then have "n div k < q" using assms by simp
    with n False show ?thesis by (intro image_eqI [of _ _ "n div k"]) auto
  qed
next
  fix n
  assume "n \<in> (\<lambda>i. r + (if r < t then Suc i else i) * k) ` {..<q}"
  then obtain i where i: "i < q" "n = r + (if r < t then Suc i else i) * k" by auto
  then have "Suc i * k \<le> q * k" by (intro mult_le_mono1) simp
  with i assms show "n \<in> {n. t \<le> n \<and> n < t + q * k \<and> n mod k = r}" by auto
qed

lemma residue_class_card:
  fixes k q t r :: nat
  assumes "0 < k" "t < k" "r < k"
  shows "card {n. t \<le> n \<and> n < t + q * k \<and> n mod k = r} = q"
proof -
  have "inj_on (\<lambda>i. r + (if r < t then Suc i else i) * k) {..<q}"
    using assms by (auto simp: inj_on_def)
  then show ?thesis
    by (simp add: residue_class_image [OF assms] card_image)
qed

lemma card_words: "card {v :: u64. P (unat v)} = card {n. n < 2 ^ 64 \<and> P n}"
proof -
  have "unat ` {v :: u64. P (unat v)} = {n. n < 2 ^ 64 \<and> P n}"
  proof (rule set_eqI, rule iffI)
    fix n assume "n \<in> {n. n < 2 ^ 64 \<and> P n}"
    then show "n \<in> unat ` {v :: u64. P (unat v)}"
      by (intro image_eqI [of _ _ "of_nat n"]) (auto simp: unat_of_nat take_bit_nat_eq_self unsigned_of_nat)
  qed (use unsigned_less [where ?'a = nat and ?'b = 64] in auto)
  moreover have "inj_on unat {v :: u64. P (unat v)}"
    by (auto simp: inj_on_def unsigned_word_eqI)
  ultimately show ?thesis using card_image by metis
qed

text \<open>
  C20. The rejection sampler is unbiased: for every bound below the full range, each value
  from 0 to the bound is the image of exactly the same number of accepted 64-bit draws.
\<close>

theorem randomUint64Inclusive_unbiased:
  fixes mx r :: u64
  assumes "mx \<noteq> 0xffffffffffffffff" and "r \<le> mx"
  shows "card {v. \<forall>s. randomUint64Inclusive mx (v ## s) = Some (r, s)} = 2 ^ 64 div unat (mx + 1)"
proof -
  let ?k = "unat (mx + 1)" and ?t = "(- (mx + 1)) mod (mx + 1)"
  have nz: "mx + 1 \<noteq> 0" using assms(1) add_eq_0_iff2 [of mx 1] by auto
  have k: "?k = Suc (unat mx)" using nz unatSuc [of mx] by (simp add: add.commute)
  have t: "unat ?t = 2 ^ 64 mod ?k" by (rule unat_threshold [OF nz])
  have drawn: "(\<forall>s. randomUint64Inclusive mx (v ## s) = Some (r, s)) \<longleftrightarrow> ?t \<le> v \<and> v mod (mx + 1) = r"
    (is "?L \<longleftrightarrow> ?R") for v
  proof
    assume ?R
    then show ?L
      using assms(1) by (simp add: randomUint64Inclusive_def Let_def sample_loop_accept)
  next
    assume L: ?L
    let ?s = "(0xffffffffffffffff :: u64) ## sconst 0"
    from L have eq: "sample_loop ?t (mx + 1) (v ## ?s) = Some (r, ?s)"
      using assms(1) by (simp add: randomUint64Inclusive_def Let_def)
    have "?t \<le> 0xffffffffffffffff"
      using unsigned_less [of ?t, where ?'a = nat] by (simp add: word_le_nat_alt)
    moreover have "sconst 0 \<noteq> (0xffffffffffffffff :: u64) ## sconst 0"
      by (auto dest: arg_cong [of _ _ shd])
    ultimately have "?t \<le> v"
      using eq by (cases "?t \<le> v") (auto simp: sample_loop_reject sample_loop_accept)
    with eq show ?R by (auto simp: sample_loop_accept)
  qed
  have nat_iff: "?t \<le> v \<and> v mod (mx + 1) = r
      \<longleftrightarrow> 2 ^ 64 mod ?k \<le> unat v \<and> unat v mod ?k = unat r" for v
    by (metis t unat_mod unsigned_word_eqI word_le_nat_alt)
  have "card {v. ?t \<le> v \<and> v mod (mx + 1) = r}
      = card {n. n < 2 ^ 64 \<and> 2 ^ 64 mod ?k \<le> n \<and> n mod ?k = unat r}"
    unfolding nat_iff by (rule card_words)
  also have "{n. n < 2 ^ 64 \<and> 2 ^ 64 mod ?k \<le> n \<and> n mod ?k = unat r}
      = {n. 2 ^ 64 mod ?k \<le> n \<and> n < 2 ^ 64 mod ?k + 2 ^ 64 div ?k * ?k \<and> n mod ?k = unat r}"
    by (auto simp: mod_div_mult_eq)
  also have "card \<dots> = 2 ^ 64 div ?k"
    using k assms(2) by (intro residue_class_card) (auto simp: word_le_nat_alt)
  finally show ?thesis by (simp only: drawn)
qed

theorem randomUint64Inclusive_unbiased_witness:
  "card {v. \<forall>s. randomUint64Inclusive 99 (v ## s) = Some (42, s)} = 184467440737095516"
  using randomUint64Inclusive_unbiased [of 99 42] by simp

text \<open>
  C19. Jitter and random cooldowns are computed without overflow: on every 64-bit parameter
  set that \<open>NewAlgorithm\<close> accepts, \<open>Next\<close> returns on a fair source, and whatever it
  returns lies in the documented interval: exactly the cooldown (fixed), between the
  minimum and the maximum (random), within the jitter around the base, cut off at zero and
  at the largest duration (jitter).
\<close>

theorem NewAlgorithm_Next_sound:
  assumes "int64 cooldown" "int64 maxDelay" "int64 jitter"
    and "NewAlgorithm mode cooldown minDelay maxDelay jitter = Inr a"
  shows "(\<forall>s d s'. Next a s = Some (d, s') \<longrightarrow> algo_lo a \<le> d \<and> d \<le> algo_hi a \<and> 0 \<le> d \<and> int64 d)
       \<and> (\<forall>s. fair_rng s \<longrightarrow> (\<exists>d s'. Next a s = Some (d, s') \<and> fair_rng s'))"
proof -
  have "valid_algorithm a" using assms by (rule NewAlgorithm_valid)
  then show ?thesis
    using alg.nxt_range alg.nxt_nonneg alg.nxt_int64 alg.nxt_total by blast
qed

theorem NewAlgorithm_Next_sound_witness:
  "\<exists>d s'. Next (JitterAlgorithm 500000000 100000000) (sconst 0xffffffffffffffff) = Some (d, s')
     \<and> 400000000 \<le> d \<and> d \<le> 600000000"
proof -
  have n: "NewAlgorithm ''jitter'' 500000000 0 0 100000000 = Inr (JitterAlgorithm 500000000 100000000)"
    by (simp add: NewAlgorithm_def)
  have f: "fair_rng (sconst 0xffffffffffffffff)" by (rule fair_rng_sconst) simp
  from NewAlgorithm_Next_sound [OF _ _ _ n] f show ?thesis
    by (fastforce simp: int64_def)
qed

text \<open>
  C21. \<open>NewAlgorithm\<close> accepts exactly the good parameters of the selected mode: a cooldown that is not
  negative (fixed), a minimum that is not negative and a maximum not below it (random), a cooldown and
  a jitter that are not negative (jitter). The algorithm it builds has the mode as its \<open>Name\<close> and draws
  from the interval of the parameters. Each error is returned exactly when its parameter is the
  first bad one, and an unknown mode is refused with its name. Parameters of other modes are not looked at.
\<close>

theorem NewAlgorithm_spec:
  "((\<exists>a. NewAlgorithm mode cooldown minDelay maxDelay jitter = Inr a) \<longleftrightarrow>
      (mode = ''fixed'' \<and> 0 \<le> cooldown) \<or> (mode = ''random'' \<and> 0 \<le> minDelay \<and> minDelay \<le> maxDelay)
      \<or> (mode = ''jitter'' \<and> 0 \<le> cooldown \<and> 0 \<le> jitter))
   \<and> (case NewAlgorithm mode cooldown minDelay maxDelay jitter of
        Inr a \<Rightarrow> Name a = mode \<and> (algo_lo a, algo_hi a) =
          (if mode = ''fixed'' then (cooldown, cooldown) else if mode = ''random'' then (minDelay, maxDelay)
           else (max 0 (cooldown - jitter), min MaxInt64 (cooldown + jitter)))
      | Inl e \<Rightarrow>
          (e = CooldownNegative \<longleftrightarrow> mode \<in> {''fixed'', ''jitter''} \<and> cooldown < 0)
        \<and> (e = MinDelayNegative \<longleftrightarrow> mode = ''random'' \<and> minDelay < 0)
        \<and> (e = MaxDelayBelowMin \<longleftrightarrow> mode = ''random'' \<and> 0 \<le> minDelay \<and> maxDelay < minDelay)
        \<and> (e = JitterNegative \<longleftrightarrow> mode = ''jitter'' \<and> 0 \<le> cooldown \<and> jitter < 0)
        \<and> (\<forall>m. e = BadMode m \<longleftrightarrow> m = mode \<and> mode \<notin> {''fixed'', ''random'', ''jitter''}))"
  by (auto simp: NewAlgorithm_def)

end
