(* ===== verification/Client_State.thy ===== *)
theory Client_State
  imports Algorithm
begin

text \<open>
  \<open>src/internal/state.go\<close>: the per-client cooldown table. Every method runs under the
  mutex of \<open>State\<close>, so each is one atomic step on the record; a method that draws a
  cooldown from the algorithm takes and returns the random source, and is \<open>None\<close> if the
  draw does not return. The algorithm is a value of the Go interface \<open>Algorithm\<close>: the
  methods take its \<open>Next\<close> as the argument \<open>nxt\<close>, and the lemmas are proved once
  in the context of the interface's contract.
\<close>

record ClientState =
  LastSeen :: time
  Cooldown :: duration
  DropCount :: int

record LastEvent =
  ev_Type :: string
  ev_IP :: string
  ev_PacketID :: u32
  ev_Cooldown :: duration
  ev_Elapsed :: duration
  ev_Remaining :: duration

record 'a State =
  clients :: "string \<rightharpoonup> ClientState"
  lastEvent :: LastEvent
  algorithm :: 'a

type_synonym 'a next_op = "'a \<Rightarrow> rng \<Rightarrow> (duration \<times> rng) option"

text \<open>A composite literal leaves the fields it does not name zero.\<close>

definition LastEvent_zero :: LastEvent where
  "LastEvent_zero = \<lparr>ev_Type = '''', ev_IP = '''', ev_PacketID = 0, ev_Cooldown = 0,
     ev_Elapsed = 0, ev_Remaining = 0\<rparr>"

definition event :: "string \<Rightarrow> string \<Rightarrow> u32 \<Rightarrow> LastEvent" where
  "event ty ip packetID = LastEvent_zero\<lparr>ev_Type := ty, ev_IP := ip, ev_PacketID := packetID\<rparr>"

record decision =
  d_allowed :: bool
  d_cooldown :: duration
  d_elapsed :: duration
  d_remaining :: duration
  d_event :: LastEvent

subsection \<open>The methods\<close>

definition NewState :: "'a \<Rightarrow> 'a State" where
  "NewState a = \<lparr>clients = Map.empty, lastEvent = LastEvent_zero, algorithm = a\<rparr>"

definition Decide ::
  "'a next_op \<Rightarrow> 'a State \<Rightarrow> string \<Rightarrow> time \<Rightarrow> u32 \<Rightarrow> rng \<Rightarrow> (decision \<times> 'a State \<times> rng) option" where
  "Decide nxt s ip now packetID g =
    (case clients s ip of
       None \<Rightarrow> do {
         (cd, g') \<leftarrow> nxt (algorithm s) g;
         let ev = (event ''ACCEPT-FIRST'' ip packetID)\<lparr>ev_Cooldown := cd\<rparr>;
         Some (\<lparr>d_allowed = True, d_cooldown = cd, d_elapsed = 0, d_remaining = 0, d_event = ev\<rparr>,
               s\<lparr>clients := (clients s)(ip \<mapsto> \<lparr>LastSeen = now, Cooldown = cd, DropCount = 0\<rparr>),
                 lastEvent := ev\<rparr>, g') }
     | Some st \<Rightarrow>
         (let elapsed = time_Sub now (LastSeen st)
          in if Cooldown st \<le> elapsed then do {
               (cd, g') \<leftarrow> nxt (algorithm s) g;
               let ev = (event ''ACCEPT'' ip packetID)\<lparr>ev_Cooldown := cd, ev_Elapsed := elapsed\<rparr>;
               Some (\<lparr>d_allowed = True, d_cooldown = cd, d_elapsed = elapsed, d_remaining = 0, d_event = ev\<rparr>,
                     s\<lparr>clients := (clients s)(ip \<mapsto> \<lparr>LastSeen = now, Cooldown = cd, DropCount = 0\<rparr>),
                       lastEvent := ev\<rparr>, g') }
             else
               let remaining = wrap64 (Cooldown st - elapsed);
                   ev = (event ''INSIDE-COOLDOWN'' ip packetID)\<lparr>ev_Cooldown := Cooldown st,
                          ev_Elapsed := elapsed, ev_Remaining := remaining\<rparr>
               in Some (\<lparr>d_allowed = False, d_cooldown = Cooldown st, d_elapsed = elapsed,
                         d_remaining = remaining, d_event = ev\<rparr>, s\<lparr>lastEvent := ev\<rparr>, g)))"

definition MarkDelayedAccept ::
  "'a next_op \<Rightarrow> 'a State \<Rightarrow> string \<Rightarrow> time \<Rightarrow> u32 \<Rightarrow> duration \<Rightarrow> rng
     \<Rightarrow> (duration \<times> LastEvent \<times> 'a State \<times> rng) option" where
  "MarkDelayedAccept nxt s ip now packetID waited g = do {
     (cd, g') \<leftarrow> nxt (algorithm s) g;
     let ev = (event ''ACCEPT-AFTER-DELAY'' ip packetID)\<lparr>ev_Cooldown := cd, ev_Remaining := waited\<rparr>;
     Some (cd, ev, s\<lparr>clients := (clients s)(ip \<mapsto> \<lparr>LastSeen = now, Cooldown = cd, DropCount = 0\<rparr>),
                     lastEvent := ev\<rparr>, g') }"

definition RememberEvent :: "'a State \<Rightarrow> LastEvent \<Rightarrow> 'a State" where
  "RememberEvent s ev = s\<lparr>lastEvent := ev\<rparr>"

definition Cleanup :: "'a State \<Rightarrow> time \<Rightarrow> duration \<Rightarrow> 'a State \<times> nat" where
  "Cleanup s now ttl =
     (let cutoff = time_Add now (wrap64 (- ttl));
          stale = (\<lambda>st. time_Before (LastSeen st) cutoff)
      in (s\<lparr>clients := map_remove stale (clients s)\<rparr>, map_removed stale (clients s)))"

definition State_Snapshot :: "'a State \<Rightarrow> nat \<times> LastEvent" where
  "State_Snapshot s = (card (dom (clients s)), lastEvent s)"

definition Forget :: "'a State \<Rightarrow> string \<Rightarrow> 'a State" where
  "Forget s ip = s\<lparr>clients := (clients s)(ip := None)\<rparr>"

definition IncDrop :: "'a State \<Rightarrow> string \<Rightarrow> 'a State \<times> int" where
  "IncDrop s ip =
    (case clients s ip of
       None \<Rightarrow> (s, 0)
     | Some st \<Rightarrow>
         (let st' = st\<lparr>DropCount := wrap64 (DropCount st + 1)\<rparr>
          in (s\<lparr>clients := (clients s)(ip \<mapsto> st')\<rparr>, DropCount st')))"

definition ForceAccept ::
  "'a next_op \<Rightarrow> 'a State \<Rightarrow> string \<Rightarrow> time \<Rightarrow> u32 \<Rightarrow> rng
     \<Rightarrow> (duration \<times> LastEvent \<times> 'a State \<times> rng) option" where
  "ForceAccept nxt s ip now packetID g = do {
     (cd, g') \<leftarrow> nxt (algorithm s) g;
     let ev = (event ''FORCE-ACCEPT'' ip packetID)\<lparr>ev_Cooldown := cd\<rparr>;
     Some (cd, ev, s\<lparr>clients := (clients s)(ip \<mapsto> \<lparr>LastSeen = now, Cooldown = cd, DropCount = 0\<rparr>),
                     lastEvent := ev\<rparr>, g') }"

subsection \<open>Sequences of calls\<close>

text \<open>
  The goroutines that share the table interleave at method calls. A run is therefore a list
  of calls; its log records which client was let through at which time, newest first, with
  \<open>True\<close> for an acceptance the cooldown granted and \<open>False\<close> for an exemption
  (\<open>ForceAccept\<close>, \<open>MarkDelayedAccept\<close>).
\<close>

datatype call =
    CDecide string time u32
  | CMarkDelayedAccept string time u32 duration
  | CForceAccept string time u32
  | CIncDrop string
  | CForget string
  | CCleanup time duration
  | CRemember LastEvent

type_synonym accept_log = "(string \<times> time \<times> bool) list"

fun call_step ::
  "'a next_op \<Rightarrow> call \<Rightarrow> 'a State \<times> rng \<times> accept_log \<Rightarrow> ('a State \<times> rng \<times> accept_log) option" where
  "call_step nxt (CDecide ip now pid) (s, g, l) = do {
     (d, s', g') \<leftarrow> Decide nxt s ip now pid g;
     Some (s', g', if d_allowed d then (ip, now, True) # l else l) }"
| "call_step nxt (CMarkDelayedAccept ip now pid w) (s, g, l) = do {
     (_, _, s', g') \<leftarrow> MarkDelayedAccept nxt s ip now pid w g; Some (s', g', (ip, now, False) # l) }"
| "call_step nxt (CForceAccept ip now pid) (s, g, l) = do {
     (_, _, s', g') \<leftarrow> ForceAccept nxt s ip now pid g; Some (s', g', (ip, now, False) # l) }"
| "call_step nxt (CIncDrop ip) (s, g, l) = Some (fst (IncDrop s ip), g, l)"
| "call_step nxt (CForget ip) (s, g, l) = Some (Forget s ip, g, l)"
| "call_step nxt (CCleanup now ttl) (s, g, l) = Some (fst (Cleanup s now ttl), g, l)"
| "call_step nxt (CRemember ev) (s, g, l) = Some (RememberEvent s ev, g, l)"

fun run_calls ::
  "'a next_op \<Rightarrow> call list \<Rightarrow> 'a State \<times> rng \<times> accept_log \<Rightarrow> ('a State \<times> rng \<times> accept_log) option" where
  "run_calls nxt [] c = Some c"
| "run_calls nxt (x # xs) c = do { c' \<leftarrow> call_step nxt x c; run_calls nxt xs c' }"

text \<open>
  The packet handler reads the clock before each call and makes its calls in that order. A cleanup
  reads the clock before it takes the lock, so its reading may be older than the calls before
  it; the handler does too, so that the reading of a cleanup may also be newer than those of the calls
  after it, by the time the handler waits for the lock: at most \<open>k\<close>.
\<close>

fun ordered_from :: "duration \<Rightarrow> time \<Rightarrow> call list \<Rightarrow> bool" where
  "ordered_from k c [] \<longleftrightarrow> True"
| "ordered_from k c (CDecide _ t _ # xs) \<longleftrightarrow> c \<le> t \<and> ordered_from k t xs"
| "ordered_from k c (CMarkDelayedAccept _ t _ _ # xs) \<longleftrightarrow> c \<le> t \<and> ordered_from k t xs"
| "ordered_from k c (CForceAccept _ t _ # xs) \<longleftrightarrow> c \<le> t \<and> ordered_from k t xs"
| "ordered_from k c (CCleanup t _ # xs) \<longleftrightarrow> ordered_from k (max c (t - k)) xs"
| "ordered_from k c (CIncDrop _ # xs) \<longleftrightarrow> ordered_from k c xs"
| "ordered_from k c (CForget _ # xs) \<longleftrightarrow> ordered_from k c xs"
| "ordered_from k c (CRemember _ # xs) \<longleftrightarrow> ordered_from k c xs"

text \<open>
  The calls that do not erase a running cooldown of the client \<open>who\<close>, for cooldowns of at most
  \<open>h\<close>: a cleanup keeps entries for \<open>h\<close> and the skew \<open>k\<close> of its clock reading.
\<close>

fun keeps_cooldowns :: "duration \<Rightarrow> string \<Rightarrow> duration \<Rightarrow> call \<Rightarrow> bool" where
  "keeps_cooldowns k who h (CForget ip) \<longleftrightarrow> ip \<noteq> who"
| "keeps_cooldowns k who h (CCleanup _ ttl) \<longleftrightarrow> h + k \<le> ttl \<and> ttl \<le> MaxInt64"
| "keeps_cooldowns k who h _ \<longleftrightarrow> True"

text \<open>
  Every acceptance of the client \<open>who\<close> the cooldown granted is at least \<open>d\<close> later than every earlier
  acceptance of that client, exemptions included.
\<close>

fun spaced :: "string \<Rightarrow> duration \<Rightarrow> accept_log \<Rightarrow> bool" where
  "spaced who d [] \<longleftrightarrow> True"
| "spaced who d ((ip, t, granted) # l) \<longleftrightarrow>
     (granted \<and> ip = who \<longrightarrow> (\<forall>(ip', t', _) \<in> set l. ip' = ip \<longrightarrow> d \<le> t - t')) \<and> spaced who d l"

subsection \<open>Invariant\<close>

text \<open>Stored cooldowns lie in the algorithm's interval, and drop counts are machine integers.\<close>

definition client_ok :: "duration \<Rightarrow> duration \<Rightarrow> ClientState \<Rightarrow> bool" where
  "client_ok l h st \<longleftrightarrow> l \<le> Cooldown st \<and> Cooldown st \<le> h \<and> int64 (DropCount st)"

definition state_ok :: "('a \<Rightarrow> duration) \<Rightarrow> ('a \<Rightarrow> duration) \<Rightarrow> 'a State \<Rightarrow> bool" where
  "state_ok lo hi s \<longleftrightarrow> finite (dom (clients s)) \<and>
     (\<forall>ip st. clients s ip = Some st \<longrightarrow> client_ok (lo (algorithm s)) (hi (algorithm s)) st)"

lemma state_ok_client:
  "state_ok lo hi s \<Longrightarrow> clients s ip = Some st \<Longrightarrow> client_ok (lo (algorithm s)) (hi (algorithm s)) st"
  by (simp add: state_ok_def)

lemma state_ok_update [intro]:
  "state_ok lo hi s \<Longrightarrow> client_ok (lo (algorithm s)) (hi (algorithm s)) st \<Longrightarrow>
   state_ok lo hi (s\<lparr>clients := (clients s)(ip \<mapsto> st), lastEvent := ev\<rparr>)"
  by (simp add: state_ok_def)

lemma NewState_ok: "state_ok lo hi (NewState a)"
  by (simp add: state_ok_def NewState_def)

text \<open>
  Every logged acceptance of the client is tied to the client's entry or is so old at time \<open>c\<close> that a
  cooldown of \<open>d\<close> has passed since.
\<close>

definition covered :: "string \<Rightarrow> duration \<Rightarrow> time \<Rightarrow> (string \<rightharpoonup> ClientState) \<Rightarrow> accept_log \<Rightarrow> bool" where
  "covered who d c m l \<longleftrightarrow> (\<forall>(ip, t, _) \<in> set l. ip = who \<longrightarrow> t \<le> c \<and>
     ((\<exists>st. m ip = Some st \<and> t \<le> LastSeen st) \<or> d \<le> c - t))"

lemma covered_later: "covered who d c m l \<Longrightarrow> c \<le> c' \<Longrightarrow> covered who d c' m l"
  by (fastforce simp: covered_def)

lemma covered_accept:
  assumes "covered who d c m l" "c \<le> now"
  shows "covered who d now (m(ip \<mapsto> \<lparr>LastSeen = now, Cooldown = cd, DropCount = n\<rparr>)) ((ip, now, b) # l)"
  using covered_later [OF assms] by (auto simp: covered_def)

lemma covered_drop_count:
  assumes "covered who d c m l" "m ip = Some st"
  shows "covered who d c (m(ip \<mapsto> st\<lparr>DropCount := n\<rparr>)) l"
  using assms by (fastforce simp: covered_def)

lemma covered_cleanup:
  assumes "covered who d c m l" "0 \<le> ttl" "d + k \<le> ttl" "ttl \<le> MaxInt64"
  shows "covered who d (max c (now - k)) (map_remove (\<lambda>st. time_Before (LastSeen st) (time_Add now (wrap64 (- ttl)))) m) l"
proof -
  have w: "wrap64 (- ttl) = - ttl" using assms by (intro wrap64_id) (simp add: int64_def)
  have "t \<le> max c (now - k) \<and> ((\<exists>st. map_remove (\<lambda>st. LastSeen st < now - ttl) m who = Some st \<and> t \<le> LastSeen st)
          \<or> d \<le> max c (now - k) - t)" if "(who, t, b) \<in> set l" for t b
  proof -
    have "t \<le> c" and "(\<exists>st. m who = Some st \<and> t \<le> LastSeen st) \<or> d \<le> c - t"
      using assms(1) that by (auto simp: covered_def)
    then consider st where "m who = Some st" "t \<le> LastSeen st" | "d \<le> c - t" by blast
    then show ?thesis
    proof cases
      case (1 st)
      then show ?thesis
        using \<open>t \<le> c\<close> assms(3) by (cases "LastSeen st < now - ttl") auto
    qed (use \<open>t \<le> c\<close> in auto)
  qed
  then show ?thesis
    by (auto simp: covered_def time_Before_def time_Add_def w)
qed

lemma covered_forget: "covered who d c m l \<Longrightarrow> ip \<noteq> who \<Longrightarrow> covered who d c (m(ip := None)) l"
  by (auto simp: covered_def)

subsection \<open>The methods under the contract of the algorithm\<close>

context cooldown_algorithm
begin

lemma fresh_client_ok:
  "ok a \<Longrightarrow> nxt a g = Some (cd, g') \<Longrightarrow> client_ok (lo a) (hi a) \<lparr>LastSeen = now, Cooldown = cd, DropCount = 0\<rparr>"
  using nxt_range [of a g cd g'] by (simp add: client_ok_def int64_def)

text \<open>What \<open>Decide\<close> has done when it returned: the single case rule the other proofs use.\<close>

lemma Decide_cases:
  assumes "Decide nxt s ip now pid g = Some (d, s', g')"
  obtains (accept) cd ev where "d_allowed d" "d_cooldown d = cd" "nxt (algorithm s) g = Some (cd, g')"
      "\<And>st. clients s ip = Some st \<Longrightarrow> Cooldown st \<le> time_Sub now (LastSeen st)"
      "s' = s\<lparr>clients := (clients s)(ip \<mapsto> \<lparr>LastSeen = now, Cooldown = cd, DropCount = 0\<rparr>), lastEvent := ev\<rparr>"
    | (inside) st ev where "\<not> d_allowed d" "clients s ip = Some st" "g' = g"
      "\<not> Cooldown st \<le> time_Sub now (LastSeen st)" "d_cooldown d = Cooldown st"
      "d_remaining d = wrap64 (Cooldown st - time_Sub now (LastSeen st))" "s' = s\<lparr>lastEvent := ev\<rparr>"
  using assms that by (fastforce simp: Decide_def Let_def split: option.splits if_splits bind_splits)

lemma Decide_total:
  assumes "ok (algorithm s)" and "fair_rng g"
  shows "\<exists>d s' g'. Decide nxt s ip now pid g = Some (d, s', g') \<and> fair_rng g'"
proof -
  obtain cd g' where "nxt (algorithm s) g = Some (cd, g')" "fair_rng g'"
    using nxt_total [OF assms] by blast
  with \<open>fair_rng g\<close> show ?thesis
    by (simp add: Decide_def Let_def split: option.split)
qed

text \<open>Every call keeps the algorithm and the invariant, and returns on a fair source.\<close>

lemma Decide_ok:
  assumes "Decide nxt s ip now pid g = Some (d, s', g')" "ok (algorithm s)" "state_ok lo hi s"
  shows "state_ok lo hi s' \<and> algorithm s' = algorithm s"
  using assms by (cases rule: Decide_cases) (auto simp: fresh_client_ok, auto simp: state_ok_def)

lemma IncDrop_ok: "state_ok lo hi s \<Longrightarrow> state_ok lo hi (fst (IncDrop s ip))"
  by (auto simp: IncDrop_def state_ok_def client_ok_def Let_def wrap64_int64 split: option.split)

lemma Forget_ok: "state_ok lo hi s \<Longrightarrow> state_ok lo hi (Forget s ip)"
  by (auto simp: Forget_def state_ok_def dom_def intro: rev_finite_subset)

lemma Cleanup_ok: "state_ok lo hi s \<Longrightarrow> state_ok lo hi (fst (Cleanup s now ttl))"
  by (auto simp: Cleanup_def state_ok_def dom_def Let_def intro: rev_finite_subset)

lemma ForceAccept_cases:
  assumes "ForceAccept nxt s ip now pid g = Some (cd, ev, s', g')"
  shows "nxt (algorithm s) g = Some (cd, g')"
    and "s' = s\<lparr>clients := (clients s)(ip \<mapsto> \<lparr>LastSeen = now, Cooldown = cd, DropCount = 0\<rparr>), lastEvent := ev\<rparr>"
  using assms by (auto simp: ForceAccept_def Let_def split: bind_splits)

lemma MarkDelayedAccept_cases:
  assumes "MarkDelayedAccept nxt s ip now pid w g = Some (cd, ev, s', g')"
  shows "nxt (algorithm s) g = Some (cd, g')"
    and "s' = s\<lparr>clients := (clients s)(ip \<mapsto> \<lparr>LastSeen = now, Cooldown = cd, DropCount = 0\<rparr>), lastEvent := ev\<rparr>"
  using assms by (auto simp: MarkDelayedAccept_def Let_def split: bind_splits)

lemma ForceAccept_ok:
  assumes "ForceAccept nxt s ip now pid g = Some (cd, ev, s', g')" "ok (algorithm s)" "state_ok lo hi s"
  shows "state_ok lo hi s' \<and> algorithm s' = algorithm s"
  using ForceAccept_cases [OF assms(1)] assms(2,3) fresh_client_ok [OF assms(2)] by auto

lemma MarkDelayedAccept_ok:
  assumes "MarkDelayedAccept nxt s ip now pid w g = Some (cd, ev, s', g')" "ok (algorithm s)" "state_ok lo hi s"
  shows "state_ok lo hi s' \<and> algorithm s' = algorithm s"
  using MarkDelayedAccept_cases [OF assms(1)] assms(2,3) fresh_client_ok [OF assms(2)] by auto

lemma RememberEvent_ok: "state_ok lo hi s \<Longrightarrow> state_ok lo hi (RememberEvent s ev)"
  by (simp add: RememberEvent_def state_ok_def)

lemma algorithm_kept [frame, simp]:
  "algorithm (fst (IncDrop s ip)) = algorithm s"
  "algorithm (Forget s ip) = algorithm s"
  "algorithm (fst (Cleanup s now ttl)) = algorithm s"
  "algorithm (RememberEvent s ev) = algorithm s"
  by (auto simp: IncDrop_def Forget_def Cleanup_def RememberEvent_def Let_def split: option.split)

lemmas methods_ok = Decide_ok ForceAccept_ok MarkDelayedAccept_ok

lemmas quiet_methods_ok = IncDrop_ok Forget_ok Cleanup_ok RememberEvent_ok

lemma call_step_ok:
  assumes "call_step nxt c (s, g, l) = Some (s', g', l')" "ok (algorithm s)" "state_ok lo hi s"
  shows "state_ok lo hi s' \<and> algorithm s' = algorithm s"
  using assms by (cases c) (auto simp: quiet_methods_ok split: bind_splits dest: methods_ok)

lemma ForceAccept_total:
  assumes "ok (algorithm s)" "fair_rng g"
  shows "\<exists>cd ev s' g'. ForceAccept nxt s ip now pid g = Some (cd, ev, s', g') \<and> fair_rng g'"
  using nxt_total [OF assms] by (auto simp: ForceAccept_def Let_def)

lemma MarkDelayedAccept_total:
  assumes "ok (algorithm s)" "fair_rng g"
  shows "\<exists>cd ev s' g'. MarkDelayedAccept nxt s ip now pid w g = Some (cd, ev, s', g') \<and> fair_rng g'"
  using nxt_total [OF assms] by (auto simp: MarkDelayedAccept_def Let_def)

lemma call_step_total:
  assumes "ok (algorithm s)" "fair_rng g"
  shows "\<exists>s' g' l'. call_step nxt c (s, g, l) = Some (s', g', l') \<and> fair_rng g'"
proof (cases c)
  case (CDecide ip now pid)
  then show ?thesis using Decide_total [OF assms, of ip now pid] by auto
next
  case (CMarkDelayedAccept ip now pid w)
  then show ?thesis using MarkDelayedAccept_total [OF assms, of ip now pid w] by auto
next
  case (CForceAccept ip now pid)
  then show ?thesis using ForceAccept_total [OF assms, of ip now pid] by auto
qed (use assms in auto)

text \<open>Runs: every sequence of calls returns and keeps the invariant.\<close>

lemma run_calls_total:
  assumes "ok (algorithm s)" "fair_rng g" "state_ok lo hi s"
  shows "\<exists>s' g' l'. run_calls nxt cs (s, g, l) = Some (s', g', l') \<and> state_ok lo hi s'
           \<and> algorithm s' = algorithm s"
  using assms
proof (induction cs arbitrary: s g l)
  case (Cons c cs)
  obtain s1 g1 l1 where 1: "call_step nxt c (s, g, l) = Some (s1, g1, l1)" and "fair_rng g1"
    using call_step_total [OF Cons.prems(1,2)] by blast
  moreover from 1 have "state_ok lo hi s1" "algorithm s1 = algorithm s"
    using call_step_ok Cons.prems by blast+
  ultimately show ?case using Cons.IH [of s1 g1 l1] Cons.prems by simp
qed simp

text \<open>The cooldown is enforced.\<close>

lemma accept_spaced:
  assumes "covered who (lo (algorithm s)) c (clients s) l" "c \<le> now" "ok (algorithm s)" "state_ok lo hi s"
    and "\<And>st. clients s who = Some st \<Longrightarrow> Cooldown st \<le> time_Sub now (LastSeen st)"
    and "(who, t, b) \<in> set l"
  shows "lo (algorithm s) \<le> now - t"
proof (cases "lo (algorithm s) \<le> c - t")
  case False
  then obtain st where st: "clients s who = Some st" "t \<le> LastSeen st"
    using assms(1,6) by (auto simp: covered_def)
  with assms(4) have "lo (algorithm s) \<le> Cooldown st"
    by (auto dest!: state_ok_client simp: client_ok_def)
  moreover have "Cooldown st \<le> time_Sub now (LastSeen st)" using assms(5) st by simp
  ultimately show ?thesis
    using lo_nonneg [OF assms(3)] time_Sub_lower [of "lo (algorithm s)" now "LastSeen st"] st by linarith
qed (use assms in linarith)

lemma lo_le_hi: "ok a \<Longrightarrow> fair_rng g \<Longrightarrow> lo a \<le> hi a"
  using nxt_total [of a g] nxt_range [of a g] by fastforce

lemma Decide_spaced:
  assumes "Decide nxt s ip now pid g = Some (d, s', g')" "c \<le> now" "ok (algorithm s)" "state_ok lo hi s"
    and "covered who (lo (algorithm s)) c (clients s) l" "spaced who (lo (algorithm s)) l"
    and "l' = (if d_allowed d then (ip, now, True) # l else l)"
  shows "covered who (lo (algorithm s)) now (clients s') l' \<and> spaced who (lo (algorithm s)) l'"
  using assms(1)
proof (cases rule: Decide_cases)
  case (accept cd ev)
  then show ?thesis
    using assms(2,5,6,7) accept_spaced [OF assms(5,2,3,4), of _ _] accept(4) by (auto intro: covered_accept)
qed (use assms in \<open>auto intro: covered_later\<close>)

lemma call_step_spaced:
  assumes "call_step nxt x (s, g, l) = Some (s', g', l')" "ordered_from k c (x # xs)"
    and "keeps_cooldowns k who (hi (algorithm s)) x" "ok (algorithm s)" "state_ok lo hi s" "lo (algorithm s) \<le> hi (algorithm s)"
    and "covered who (lo (algorithm s)) c (clients s) l" "spaced who (lo (algorithm s)) l"
    and "0 \<le> k"
  shows "\<exists>c'. ordered_from k c' xs \<and> covered who (lo (algorithm s)) c' (clients s') l' \<and> spaced who (lo (algorithm s)) l'"
proof (cases x)
  case (CDecide ip now pid)
  then show ?thesis using assms Decide_spaced [of s ip now pid g] by (auto split: bind_splits)
next
  case (CMarkDelayedAccept ip now pid w)
  with assms show ?thesis
    by (auto split: bind_splits dest!: MarkDelayedAccept_cases(2) intro!: exI [of _ now] covered_accept)
next
  case (CForceAccept ip now pid)
  with assms show ?thesis
    by (auto split: bind_splits dest!: ForceAccept_cases(2) intro!: exI [of _ now] covered_accept)
next
  case (CIncDrop ip)
  with assms show ?thesis
    by (auto simp: IncDrop_def Let_def intro!: exI [of _ c] covered_drop_count split: option.splits)
next
  case (CCleanup now ttl)
  with assms lo_nonneg [OF assms(4)] show ?thesis
    by (auto simp: Cleanup_def Let_def intro!: exI [of _ "max c (now - k)"] covered_cleanup)
next
  case (CForget ip)
  with assms show ?thesis by (auto simp: Forget_def intro!: exI [of _ c] covered_forget)
qed (use assms in \<open>auto simp: RememberEvent_def\<close>)

lemma run_calls_spaced:
  assumes "run_calls nxt cs (s, g, l) = Some (s', g', l')" "ordered_from k c cs"
    and "list_all (keeps_cooldowns k who (hi (algorithm s))) cs" "ok (algorithm s)" "state_ok lo hi s"
    and "lo (algorithm s) \<le> hi (algorithm s)"
    and "covered who (lo (algorithm s)) c (clients s) l" "spaced who (lo (algorithm s)) l" "0 \<le> k"
  shows "spaced who (lo (algorithm s)) l'"
  using assms
proof (induction cs arbitrary: s g l c)
  case (Cons x xs)
  then obtain s1 g1 l1 where 1: "call_step nxt x (s, g, l) = Some (s1, g1, l1)"
    and r: "run_calls nxt xs (s1, g1, l1) = Some (s', g', l')" by (auto split: bind_splits)
  have "state_ok lo hi s1" and a: "algorithm s1 = algorithm s"
    using call_step_ok [OF 1] Cons.prems by auto
  moreover obtain c' where "ordered_from k c' xs" "covered who (lo (algorithm s)) c' (clients s1) l1"
      "spaced who (lo (algorithm s)) l1"
    using call_step_spaced [OF 1 Cons.prems(2)] Cons.prems by auto
  ultimately show ?case using Cons.IH [OF r, of c'] Cons.prems by simp
qed simp

text \<open>A client that waited the longest cooldown is let through.\<close>

lemma Decide_allowed_iff:
  assumes "Decide nxt s ip now pid g = Some (d, s', g')" "ok (algorithm s)" "state_ok lo hi s"
  shows "d_allowed d \<longleftrightarrow> (\<forall>st. clients s ip = Some st \<longrightarrow> Cooldown st \<le> now - LastSeen st)"
proof -
  have "0 \<le> Cooldown st \<and> Cooldown st \<le> MaxInt64" if "clients s ip = Some st" for st
    using state_ok_client [OF assms(3) that] lo_nonneg [OF assms(2)] hi_max [OF assms(2)]
    by (auto simp: client_ok_def)
  then show ?thesis
    by (cases rule: Decide_cases [OF assms(1)]) (auto simp: time_Sub_ge_iff)
qed

lemma Decide_remaining:
  assumes "Decide nxt s ip now pid g = Some (d, s', g')" "ok (algorithm s)" "state_ok lo hi s"
    and "\<not> d_allowed d" "clients s ip = Some st" "LastSeen st \<le> now"
  shows "d_remaining d = LastSeen st + Cooldown st - now \<and> 0 < d_remaining d \<and> d_remaining d \<le> Cooldown st"
proof -
  have c: "0 \<le> Cooldown st" "Cooldown st \<le> MaxInt64"
    using state_ok_client [OF assms(3,5)] lo_nonneg [OF assms(2)] hi_max [OF assms(2)]
    by (auto simp: client_ok_def)
  have "now - LastSeen st < Cooldown st"
    using Decide_allowed_iff [OF assms(1-3)] assms(4,5) by auto
  moreover from this have "time_Sub now (LastSeen st) = now - LastSeen st"
    using c assms(6) by (intro time_Sub_exact) (simp add: int64_def)
  ultimately show ?thesis
    using c assms(4-6) by (cases rule: Decide_cases [OF assms(1)]) (auto simp: wrap64_id int64_def)
qed

text \<open>Cleaning up with a time to live of at least the longest cooldown is not observable.\<close>

lemma Cleanup_removes:
  assumes "ok (algorithm s)" "state_ok lo hi s" "hi (algorithm s) \<le> ttl" "ttl \<le> MaxInt64"
    and "clients s ip = Some st"
  shows "clients (fst (Cleanup s now ttl)) ip = (if LastSeen st < now - ttl then None else Some st)"
proof -
  have "0 \<le> ttl"
    using state_ok_client [OF assms(2,5)] lo_nonneg [OF assms(1)] assms(3) by (auto simp: client_ok_def)
  then have "wrap64 (- ttl) = - ttl" using assms(4) by (intro wrap64_id) (simp add: int64_def)
  then show ?thesis
    using assms(5) by (simp add: Cleanup_def Let_def map_remove_def time_Before_def time_Add_def)
qed

lemma Cleanup_transparent:
  assumes "ok (algorithm s)" "state_ok lo hi s" "hi (algorithm s) \<le> ttl" "ttl \<le> MaxInt64" "now \<le> now'"
  shows "map_option (\<lambda>(d, s', g'). (d_allowed d, d_cooldown d, clients s' ip, g'))
           (Decide nxt (fst (Cleanup s now ttl)) ip now' pid g)
       = map_option (\<lambda>(d, s', g'). (d_allowed d, d_cooldown d, clients s' ip, g'))
           (Decide nxt s ip now' pid g)"
proof (cases "clients (fst (Cleanup s now ttl)) ip = clients s ip")
  case True
  then show ?thesis
    by (cases "nxt (algorithm s) g") (auto simp: Decide_def Let_def split: option.split)
next
  case False
  then obtain st where st: "clients s ip = Some st"
    by (cases "clients s ip") (simp_all add: Cleanup_def Let_def map_remove_def)
  with False have rm: "clients (fst (Cleanup s now ttl)) ip = None" "LastSeen st < now - ttl"
    using Cleanup_removes [OF assms(1-4) st, of now] by (auto split: if_splits)
  have c: "0 \<le> Cooldown st" "Cooldown st \<le> hi (algorithm s)" "Cooldown st \<le> MaxInt64"
    using state_ok_client [OF assms(2) st] lo_nonneg [OF assms(1)] hi_max [OF assms(1)]
    by (auto simp: client_ok_def)
  then have "Cooldown st \<le> time_Sub now' (LastSeen st)"
    using rm(2) assms(3,5) by (simp add: time_Sub_ge_iff)
  then show ?thesis
    using st rm(1) by (cases "nxt (algorithm s) g") (auto simp: Decide_def Let_def)
qed

end

subsection \<open>The table with the program's algorithms\<close>


definition example_table :: "Algorithm State" where
  "example_table = (NewState (FixedAlgorithm 500))\<lparr>clients := [''10.0.0.1'' \<mapsto> \<lparr>LastSeen = 1000, Cooldown = 500, DropCount = 2\<rparr>]\<rparr>"

lemma example_table_ok: "state_ok algo_lo algo_hi example_table" "valid_algorithm (algorithm example_table)"
  by (simp_all add: example_table_def state_ok_def NewState_def client_ok_def int64_def)


text \<open>
  C31. However the handler and the cleanup goroutines interleave their calls, every call returns
  (the drawing of a cooldown included) and the table keeps its invariant: finitely many clients,
  every stored cooldown in the interval of the algorithm, which never changes.
\<close>

theorem State_calls_invariant:
  assumes "valid_algorithm a" "fair_rng g"
  shows "\<exists>s g' l. run_calls Next cs (NewState a, g, []) = Some (s, g', l)
     \<and> state_ok algo_lo algo_hi s \<and> algorithm s = a"
  using alg.run_calls_total [of "NewState a" g cs "[]"] assms NewState_ok [of algo_lo algo_hi a]
  by (auto simp: NewState_def)

definition example_calls :: "call list" where
  "example_calls = [CDecide ''10.0.0.1'' 1000 1, CDecide ''10.0.0.1'' 1400 2, CIncDrop ''10.0.0.1'',
     CCleanup 1450 600, CDecide ''10.0.0.2'' 1450 3, CDecide ''10.0.0.1'' 1500 4]"

theorem State_calls_invariant_witness:
  "\<exists>s g' l. run_calls Next example_calls (NewState (FixedAlgorithm 500), sconst (- 1), []) = Some (s, g', l)
     \<and> state_ok algo_lo algo_hi s"
proof -
  have "fair_rng (sconst (- 1))" by (rule fair_rng_sconst) simp
  then show ?thesis using State_calls_invariant [of "FixedAlgorithm 500" "sconst (- 1)" example_calls]
    by (auto simp: int64_def)
qed

text \<open>
  C29. The cooldown of a client is enforced on every interleaving of calls in which nobody forgets
  that client and cleanups keep entries for at least the longest cooldown, plus the time by which
  their clock readings may run ahead of those of later calls: whenever the cooldown lets the client
  through, at least the shortest cooldown has passed since every earlier moment it was let
  through, forced acceptances included. Other clients may be forgotten at any time.
\<close>

theorem cooldown_enforced:
  assumes "valid_algorithm a" "0 \<le> k" "ordered_from k c cs" "list_all (keeps_cooldowns k who (algo_hi a)) cs"
    and "run_calls Next cs (NewState a, g, []) = Some (s, g', l)"
  shows "spaced who (algo_lo a) l"
proof -
  have "algo_lo a \<le> algo_hi a" using assms(1) by (cases a) (auto simp: int64_def)
  then show ?thesis
    using alg.run_calls_spaced [OF assms(5), of k c who] assms(1-4) NewState_ok [of algo_lo algo_hi a]
    by (simp add: NewState_def covered_def)
qed

text \<open>The cleanup of the example reads the clock 50 after the call that follows it, which forgets another client.\<close>

definition skewed_calls :: "call list" where
  "skewed_calls = [CDecide ''10.0.0.1'' 1000 1, CDecide ''10.0.0.1'' 1400 2, CIncDrop ''10.0.0.1'',
     CCleanup 1500 600, CDecide ''10.0.0.2'' 1450 3, CForget ''10.0.0.2'', CDecide ''10.0.0.1'' 1500 4]"

theorem cooldown_enforced_witness:
  "\<exists>s g' l. run_calls Next skewed_calls (NewState (FixedAlgorithm 500), sconst (- 1), []) = Some (s, g', l)
     \<and> l = [(''10.0.0.1'', 1500, True), (''10.0.0.2'', 1450, True), (''10.0.0.1'', 1000, True)]
     \<and> spaced ''10.0.0.1'' 500 l"
proof -
  have w: "wrap64 (- 600) = - 600" by (intro wrap64_id) (simp add: int64_def)
  obtain s g' where r: "run_calls Next skewed_calls (NewState (FixedAlgorithm 500), sconst (- 1), []) =
     Some (s, g', [(''10.0.0.1'', 1500, True), (''10.0.0.2'', 1450, True), (''10.0.0.1'', 1000, True)])"
    by (simp add: skewed_calls_def Decide_def NewState_def time_Sub_def Let_def IncDrop_def Cleanup_def Forget_def
        map_remove_def time_Before_def time_Add_def w)
  have "spaced ''10.0.0.1'' (algo_lo (FixedAlgorithm 500))
          [(''10.0.0.1'', 1500, True), (''10.0.0.2'', 1450, True), (''10.0.0.1'', 1000, True)]"
    by (rule cooldown_enforced [OF _ _ _ _ r, of 50 0]) (simp_all add: skewed_calls_def int64_def)
  with r show ?thesis by simp
qed

text \<open>
  C32. A cleanup removes exactly the entries older than the time to live and reports how many; with
  a time to live of at least the longest cooldown (and representable), it is invisible to every
  later \<open>Decide\<close>: same outcome, same new entry, same draw.
\<close>

theorem Cleanup_correct:
  assumes "valid_algorithm (algorithm s)" "state_ok algo_lo algo_hi s" "algo_hi (algorithm s) \<le> ttl" "ttl \<le> MaxInt64"
  shows "(\<forall>ip st. clients (fst (Cleanup s now ttl)) ip = Some st
             \<longleftrightarrow> clients s ip = Some st \<and> now - ttl \<le> LastSeen st)
       \<and> fst (State_Snapshot (fst (Cleanup s now ttl))) + snd (Cleanup s now ttl) = fst (State_Snapshot s)
       \<and> (\<forall>ip now' pid g. now \<le> now' \<longrightarrow>
            map_option (\<lambda>(d, s', g'). (d_allowed d, d_cooldown d, clients s' ip, g'))
              (Decide Next (fst (Cleanup s now ttl)) ip now' pid g)
          = map_option (\<lambda>(d, s', g'). (d_allowed d, d_cooldown d, clients s' ip, g'))
              (Decide Next s ip now' pid g))"
proof (intro conjI allI impI)
  fix ip st
  show "clients (fst (Cleanup s now ttl)) ip = Some st \<longleftrightarrow> clients s ip = Some st \<and> now - ttl \<le> LastSeen st"
    using alg.Cleanup_removes [OF assms, of ip _ now]
    by (cases "clients s ip") (auto simp: Cleanup_def Let_def map_remove_def split: if_splits)
next
  have "finite (dom (clients s))" using assms(2) by (simp add: state_ok_def)
  then show "fst (State_Snapshot (fst (Cleanup s now ttl))) + snd (Cleanup s now ttl) = fst (State_Snapshot s)"
    by (simp add: Cleanup_def State_Snapshot_def Let_def map_removed_dom)
next
  fix ip now' pid g
  assume "now \<le> now'"
  then show "map_option (\<lambda>(d, s', g'). (d_allowed d, d_cooldown d, clients s' ip, g'))
              (Decide Next (fst (Cleanup s now ttl)) ip now' pid g)
          = map_option (\<lambda>(d, s', g'). (d_allowed d, d_cooldown d, clients s' ip, g'))
              (Decide Next s ip now' pid g)"
    by (rule alg.Cleanup_transparent [OF assms])
qed

theorem Cleanup_correct_witness:
  "clients (fst (Cleanup example_table 1600 500)) ''10.0.0.1'' = None
   \<and> fst (State_Snapshot (fst (Cleanup example_table 1600 500))) + snd (Cleanup example_table 1600 500) = 1"
proof -
  have h: "algo_hi (algorithm example_table) \<le> 500" by (simp add: example_table_def NewState_def)
  have "fst (State_Snapshot example_table) = 1" by (simp add: State_Snapshot_def example_table_def)
  moreover have "\<not> (clients example_table ''10.0.0.1'' = Some st \<and> 1600 - 500 \<le> LastSeen st)" for st
    by (auto simp: example_table_def)
  ultimately show ?thesis
    using Cleanup_correct [OF example_table_ok(2,1) h, of 1600]
    by (cases "clients (fst (Cleanup example_table 1600 500)) ''10.0.0.1''") simp_all
qed

end
