(* ===== verification/Stats.thy ===== *)
theory Stats
  imports Prelude
begin

text \<open>
  \<open>src/internal/stats.go\<close>: the counters. Each is a \<open>uint64\<close> changed by an atomic
  add and read by an atomic load; the word type carries the wrap-around.
\<close>

record Counters =
  Accepted :: u64
  Dropped :: u64
  Delayed :: u64
  Rejected :: u64
  DelayOverflowDropped :: u64

definition Counters_zero :: Counters where
  "Counters_zero = \<lparr>Accepted = 0, Dropped = 0, Delayed = 0, Rejected = 0, DelayOverflowDropped = 0\<rparr>"

definition IncDelayOverflowDropped :: "Counters \<Rightarrow> Counters" where
  "IncDelayOverflowDropped c = c\<lparr>DelayOverflowDropped := DelayOverflowDropped c + 1\<rparr>"

definition IncAccepted :: "Counters \<Rightarrow> Counters" where
  "IncAccepted c = c\<lparr>Accepted := Accepted c + 1\<rparr>"

definition IncDropped :: "Counters \<Rightarrow> Counters" where
  "IncDropped c = c\<lparr>Dropped := Dropped c + 1\<rparr>"

definition IncDelayed :: "Counters \<Rightarrow> Counters" where
  "IncDelayed c = c\<lparr>Delayed := Delayed c + 1\<rparr>"

definition IncRejected :: "Counters \<Rightarrow> Counters" where
  "IncRejected c = c\<lparr>Rejected := Rejected c + 1\<rparr>"

definition Counters_Snapshot :: "Counters \<Rightarrow> u64 \<times> u64 \<times> u64 \<times> u64" where
  "Counters_Snapshot c = (Accepted c, Delayed c, Dropped c, Rejected c)"

definition GetDelayOverflowDropped :: "Counters \<Rightarrow> u64" where
  "GetDelayOverflowDropped c = DelayOverflowDropped c"

lemmas counter_defs = IncDelayOverflowDropped_def IncAccepted_def IncDropped_def IncDelayed_def
  IncRejected_def Counters_Snapshot_def GetDelayOverflowDropped_def

end
