(* ===== verification/Whitelist.thy ===== *)
theory Whitelist
  imports Net_Addr
begin

text \<open>
  \<open>src/internal/whitelist.go\<close>: the comma-separated list of IPv4 addresses and networks
  whose packets are never touched. The lookup takes the printed address, as the handler passes
  it; an index panic inside \<open>IPNet.Contains\<close> is \<open>None\<close>.
\<close>

datatype whitelist_error =
    InvalidNetwork string
  | UnsupportedFamily string
  | InvalidAddress string

record Whitelist =
  nets :: "IPNet list"

text \<open>The body of the loop for an item that is not empty.\<close>

definition whitelist_item :: "string \<Rightarrow> whitelist_error + IPNet" where
  "whitelist_item item =
     (if strings_Contains item (CHR ''/'') then
        (case ParseCIDR item of
           None \<Rightarrow> Inl (InvalidNetwork item)
         | Some (ip, network) \<Rightarrow>
             (case IP_To4 ip of
                None \<Rightarrow> Inl (UnsupportedFamily item)
              | Some ip4 \<Rightarrow> Inr (network\<lparr>net_IP := ip4\<rparr>)))
      else
        (case ParseIP item of
           None \<Rightarrow> Inl (InvalidAddress item)
         | Some ip \<Rightarrow>
             (case IP_To4 ip of
                None \<Rightarrow> Inl (UnsupportedFamily item)
              | Some ip4 \<Rightarrow>
                  (case ParseCIDR (IP4_String ip4 @ ''/32'') of
                     None \<Rightarrow> Inl (InvalidAddress item)
                   | Some (_, network) \<Rightarrow> Inr network))))"

fun whitelist_loop :: "string list \<Rightarrow> Whitelist \<Rightarrow> whitelist_error + Whitelist" where
  "whitelist_loop [] w = Inr w"
| "whitelist_loop (rawItem # items) w =
     (let item = TrimSpace rawItem
      in if item = '''' then whitelist_loop items w
         else case whitelist_item item of
                Inl e \<Rightarrow> Inl e
              | Inr network \<Rightarrow> whitelist_loop items (w\<lparr>nets := nets w @ [network]\<rparr>))"

definition NewWhitelist :: "string \<Rightarrow> whitelist_error + Whitelist" where
  "NewWhitelist value =
     (let w = \<lparr>nets = []\<rparr>
      in if TrimSpace value = '''' then Inr w else whitelist_loop (Split (CHR '','') value) w)"

fun nets_contain :: "IPNet list \<Rightarrow> bytes \<Rightarrow> bool option" where
  "nets_contain [] ip = Some False"
| "nets_contain (network # ns) ip = do {
     hit \<leftarrow> IPNet_Contains network ip;
     if hit then Some True else nets_contain ns ip }"

definition Whitelist_Contains :: "Whitelist \<Rightarrow> string \<Rightarrow> bool option" where
  "Whitelist_Contains w ipStr =
     (case ParseIP ipStr of
        None \<Rightarrow> Some False
      | Some ip \<Rightarrow> (case IP_To4 ip of None \<Rightarrow> Some False | Some ip4 \<Rightarrow> nets_contain (nets w) ip4))"

definition Whitelist_Len :: "Whitelist \<Rightarrow> int" where
  "Whitelist_Len w = len (nets w)"

subsection \<open>Reference: networks as prefixes of 32-bit addresses\<close>

type_synonym addr4 = "u8 \<times> u8 \<times> u8 \<times> u8"

fun addr_word :: "addr4 \<Rightarrow> u32" where
  "addr_word (a, b, c, d) = be32 a b c d"

fun dotted :: "addr4 \<Rightarrow> string" where
  "dotted (a, b, c, d) = IPv4_String a b c d"

text \<open>An entry of the list: an address, or an address and a prefix length.\<close>

type_synonym entry = "addr4 \<times> nat option"

fun print_entry :: "entry \<Rightarrow> string" where
  "print_entry (x, None) = dotted x"
| "print_entry (x, Some n) = dotted x @ CHR ''/'' # itoa n"

fun entry_ok :: "entry \<Rightarrow> bool" where
  "entry_ok (x, None) \<longleftrightarrow> True"
| "entry_ok (x, Some n) \<longleftrightarrow> n \<le> 32"

fun matches :: "entry \<Rightarrow> addr4 \<Rightarrow> bool" where
  "matches (x, None) y \<longleftrightarrow> x = y"
| "matches (x, Some n) y \<longleftrightarrow> drop_bit (32 - n) (addr_word x) = drop_bit (32 - n) (addr_word y)"

subsection \<open>Masks\<close>

lemma bit_be32:
  "bit (be32 a b c d) k \<longleftrightarrow>
     (if k < 8 then bit d k else if k < 16 then bit c (k - 8)
      else if k < 24 then bit b (k - 16) else bit a (k - 24))"
  by (auto simp: be32_def bit_simps dest: bit_imp_le_length)

lemma be32_AND: "be32 (a AND m) (b AND n) (c AND k) (d AND l) = be32 a b c d AND be32 m n k l"
  by (rule bit_word_eqI) (auto simp: bit_be32 bit_and_iff)

lemma be32_inj: "be32 a b c d = be32 a' b' c' d' \<longleftrightarrow> a = a' \<and> b = b' \<and> c = c' \<and> d = d'"
proof
  assume e: "be32 a b c d = be32 a' b' c' d'"
  have "a = a'" "b = b'" "c = c'" "d = d'"
    using arg_cong [OF e, of "\<lambda>w. ucast (drop_bit 24 w) :: u8"] arg_cong [OF e, of "\<lambda>w. ucast (drop_bit 16 w) :: u8"]
      arg_cong [OF e, of "\<lambda>w. ucast (drop_bit 8 w) :: u8"] arg_cong [OF e, of "\<lambda>w. ucast w :: u8"]
    by simp_all
  then show "a = a' \<and> b = b' \<and> c = c' \<and> d = d'" by simp
qed simp

lemma bit_0xff: "bit (0xff :: int) i \<longleftrightarrow> i < 8"
proof -
  have "(0xff :: int) = Bit_Operations.mask 8" by (simp add: mask_eq_exp_minus_1)
  then show ?thesis by (simp only: bit_mask_iff) simp
qed

lemma mask_bytes_length [simp]: "length (mask_bytes l n) = l"
  by (induction l n rule: mask_bytes.induct) auto

lemma mask_bytes_bit:
  "j < l \<Longrightarrow> i < 8 \<Longrightarrow> bit (mask_bytes l n ! j) i \<longleftrightarrow> 8 * j + 7 < n + i"
proof (induction l n arbitrary: j rule: mask_bytes.induct)
  case (2 l n)
  show ?case
  proof (cases j)
    case 0
    with 2 have "bit (mask_bytes (Suc l) n ! j) i \<longleftrightarrow> (if 8 \<le> n then True else \<not> n + i < 8)"
      by (simp add: bit_0xff bit_not_iff bit_drop_bit_eq)
    with 0 2 show ?thesis by auto
  next
    case (Suc k)
    with 2 show ?thesis by auto
  qed
qed simp

lemma CIDRMask_32:
  assumes "n \<le> 32" "CIDRMask n 32 = [m0, m1, m2, m3]"
  shows "be32 m0 m1 m2 m3 = NOT (Bit_Operations.mask (32 - n))"
proof (rule bit_word_eqI)
  fix k assume k: "k < LENGTH(32)"
  have m: "mask_bytes 4 n = [m0, m1, m2, m3]" using assms(2) by (simp add: CIDRMask_def)
  have b: "bit (mask_bytes 4 n ! j) i \<longleftrightarrow> 8 * j + 7 < n + i" if "j < 4" "i < 8" for i j
    using that by (rule mask_bytes_bit)
  have "bit (be32 m0 m1 m2 m3) k \<longleftrightarrow> 31 < n + k"
    using b [of 0 "k - 24"] b [of 1 "k - 16"] b [of 2 "k - 8"] b [of 3 k] k by (auto simp: bit_be32 m)
  then show "bit (be32 m0 m1 m2 m3) k = bit (NOT (Bit_Operations.mask (32 - n)) :: u32) k"
    using k assms(1) by (auto simp: bit_simps)
qed

lemma AND_mask_eq_iff:
  "x AND NOT (Bit_Operations.mask k) = y AND NOT (Bit_Operations.mask k) \<longleftrightarrow> drop_bit k x = drop_bit k y"
  for x y :: "'a::len word"
proof
  assume l: "x AND NOT (Bit_Operations.mask k) = y AND NOT (Bit_Operations.mask k)"
  have "bit x (k + i) = bit y (k + i)" for i
    using arg_cong [OF l, of "\<lambda>w. bit w (k + i)"] by (auto simp: bit_simps dest: bit_imp_le_length)
  then show "drop_bit k x = drop_bit k y" by (simp add: bit_eq_iff bit_simps)
next
  assume r: "drop_bit k x = drop_bit k y"
  have "bit x i = bit y i" if "k \<le> i" for i
    using arg_cong [OF r, of "\<lambda>w. bit w (i - k)"] that by (auto simp: bit_simps)
  then show "x AND NOT (Bit_Operations.mask k) = y AND NOT (Bit_Operations.mask k)"
    by (auto simp: bit_eq_iff bit_simps)
qed

subsection \<open>Lookup in one network\<close>

definition prefix_net :: "addr4 \<Rightarrow> nat \<Rightarrow> IPNet" where
  "prefix_net x n = (case x of (a, b, c, d) \<Rightarrow> \<lparr>net_IP = [a, b, c, d], net_Mask = CIDRMask n 32\<rparr>)"

lemma CIDRMask_length: "length (CIDRMask n 32) = 4"
  by (simp add: CIDRMask_def)

lemma CIDRMask_bytes: obtains m0 m1 m2 m3 where "CIDRMask n 32 = [m0, m1, m2, m3]"
proof -
  obtain m0 m1 m2 m3 where "CIDRMask n 32 = [m0, m1, m2, m3]"
    using CIDRMask_length [of n] by (auto simp: numeral_eq_Suc length_Suc_conv)
  then show thesis by (rule that)
qed

lemma prefix_net_Contains:
  assumes "n \<le> 32"
  shows "IPNet_Contains (prefix_net (a, b, c, d) n) [a', b', c', d'] =
     Some (drop_bit (32 - n) (be32 a b c d) = drop_bit (32 - n) (be32 a' b' c' d'))"
proof -
  obtain m0 m1 m2 m3 where m: "CIDRMask n 32 = [m0, m1, m2, m3]" by (rule CIDRMask_bytes)
  have "IPNet_Contains (prefix_net (a, b, c, d) n) [a', b', c', d'] =
      Some (be32 (a AND m0) (b AND m1) (c AND m2) (d AND m3) = be32 (a' AND m0) (b' AND m1) (c' AND m2) (d' AND m3))"
    by (auto simp: IPNet_Contains_def prefix_net_def networkNumberAndMask_def IP_To4_def m be32_inj)
  then show ?thesis
    by (simp only: be32_AND CIDRMask_32 [OF assms m] AND_mask_eq_iff)
qed

lemma ParseCIDR_print:
  assumes "n \<le> 32"
  shows "ParseCIDR (IPv4_String a b c d @ CHR ''/'' # itoa n) =
     Some (net_IPv4 a b c d, \<lparr>net_IP = IP_Mask (net_IPv4 a b c d) (CIDRMask n 32), net_Mask = CIDRMask n 32\<rparr>)"
proof -
  have "CHR ''/'' \<notin> set (IPv4_String a b c d)"
    using IPv4_String_chars [of "CHR ''/''" a b c d] by (auto simp: is_dec_iff)
  then show ?thesis
    using assms by (simp add: ParseCIDR_def Cut_append dtoi_itoa Let_def)
qed

lemma mask_bytes_full: "8 * l \<le> n \<Longrightarrow> mask_bytes l n = replicate l 0xff"
  by (induction l n rule: mask_bytes.induct) auto

lemma IP_Mask_32: "IP_Mask (net_IPv4 a b c d) (CIDRMask 32 32) = [a, b, c, d]"
proof -
  have "CIDRMask 32 32 = [0xff, 0xff, 0xff, 0xff]" by (simp add: CIDRMask_def mask_bytes_full) (simp add: numeral_eq_Suc)
  moreover have "x AND 0xff = x" for x :: u8
    by (rule bit_word_eqI) (simp add: bit_and_iff bit_0xff)
  ultimately show ?thesis by (simp add: IP_Mask_def net_IPv4_def)
qed

subsection \<open>Lists of entries\<close>

fun entry_net :: "entry \<Rightarrow> IPNet" where
  "entry_net (x, None) = prefix_net x 32"
| "entry_net (x, Some n) = prefix_net x n"

definition entry_char :: "char \<Rightarrow> bool" where
  "entry_char c \<longleftrightarrow> is_dec c \<or> c = CHR ''.'' \<or> c = CHR ''/''"

lemma entry_char_plain: "entry_char c \<Longrightarrow> plain c \<and> c \<noteq> CHR '',''"
  by (auto simp: entry_char_def is_dec_iff plain_def)

lemma dotted_chars: "c \<in> set (dotted x) \<Longrightarrow> entry_char c \<and> c \<noteq> CHR ''/''"
  by (cases x) (auto dest!: IPv4_String_chars simp: entry_char_def is_dec_iff)

lemma print_entry_chars: "c \<in> set (print_entry e) \<Longrightarrow> entry_char c"
  by (cases e rule: print_entry.cases) (auto dest: dotted_chars itoa_digits simp: entry_char_def)

lemma print_entry_not_Nil [simp]: "print_entry e \<noteq> []"
  by (cases e rule: print_entry.cases) (auto simp: IPv4_String_def)

lemma print_entry_plain:
  "plain (hd (print_entry e))" "plain (last (print_entry e))" "CHR '','' \<notin> set (print_entry e)"
  using print_entry_chars [of _ e] entry_char_plain by (meson hd_in_set last_in_set print_entry_not_Nil, meson hd_in_set last_in_set print_entry_not_Nil, blast)

lemma whitelist_item_entry:
  assumes "entry_ok e"
  shows "whitelist_item (print_entry e) = Inr (entry_net e)"
proof -
  obtain a b c d n where e: "e = ((a, b, c, d), n)" by (metis prod.exhaust)
  show ?thesis
  proof (cases n)
    case None
    have "CHR ''/'' \<notin> set (IPv4_String a b c d)" using dotted_chars [of "CHR ''/''" "(a, b, c, d)"] by auto
    moreover have "''/32'' = CHR ''/'' # itoa 32" by (simp add: print_base.simps digit_def char_of_def bit_0)
    ultimately show ?thesis
      using ParseCIDR_print [of 32 a b c d]
      by (simp add: e None whitelist_item_def strings_Contains_def IP4_String_def IP_Mask_32 prefix_net_def)
  next
    case (Some k)
    then show ?thesis
      using assms by (simp add: e whitelist_item_def strings_Contains_def ParseCIDR_print prefix_net_def)
  qed
qed

lemma entry_net_Contains:
  assumes "entry_ok e"
  shows "IPNet_Contains (entry_net e) [a, b, c, d] = Some (matches e (a, b, c, d))"
  using assms by (cases e rule: print_entry.cases) (auto simp: prefix_net_Contains be32_inj)

lemma whitelist_loop_entries:
  "list_all entry_ok es \<Longrightarrow>
   whitelist_loop (map print_entry es) w = Inr (w\<lparr>nets := nets w @ map entry_net es\<rparr>)"
proof (induction es arbitrary: w)
  case (Cons e es)
  have "TrimSpace (print_entry e) = print_entry e"
    by (intro TrimSpace_plain) (simp_all add: print_entry_plain)
  with Cons show ?case by (simp add: whitelist_item_entry Let_def)
qed simp

lemma nets_contain_entries:
  "list_all entry_ok es \<Longrightarrow> nets_contain (map entry_net es) [a, b, c, d] = Some (\<exists>e \<in> set es. matches e (a, b, c, d))"
  by (induction es) (auto simp: entry_net_Contains)

lemma join_plain:
  "es \<noteq> [] \<Longrightarrow> join (CHR '','') (map print_entry es) \<noteq> []
     \<and> plain (hd (join (CHR '','') (map print_entry es))) \<and> plain (last (join (CHR '','') (map print_entry es)))"
proof (induction es rule: induct_list012)
  case (2 e)
  then show ?case using print_entry_plain [of e] by simp
next
  case (3 e e' es)
  then show ?case using print_entry_plain [of e] by (simp add: hd_append)
qed simp

text \<open>
  C33. A whitelist built from a comma-separated list of dotted addresses and prefixes has one
  network per entry, and the lookup of a printed address answers, without a panic, whether the
  address equals a listed address or agrees with a listed prefix in its first \<open>n\<close> bits.
\<close>

theorem Whitelist_correct:
  assumes "es \<noteq> []" "list_all entry_ok es"
  shows "\<exists>w. NewWhitelist (join (CHR '','') (map print_entry es)) = Inr w
     \<and> Whitelist_Len w = len es
     \<and> (\<forall>y. Whitelist_Contains w (dotted y) = Some (\<exists>e \<in> set es. matches e y))"
proof -
  define w where "w = \<lparr>nets = map entry_net es\<rparr>"
  have "Split (CHR '','') (join (CHR '','') (map print_entry es)) = map print_entry es"
    using assms(1) by (intro Split_join) (auto simp: print_entry_plain)
  moreover have "TrimSpace (join (CHR '','') (map print_entry es)) \<noteq> ''''"
    using join_plain [OF assms(1)] by (simp add: TrimSpace_plain)
  ultimately have "NewWhitelist (join (CHR '','') (map print_entry es)) = Inr w"
    using assms(2) by (simp add: NewWhitelist_def Let_def whitelist_loop_entries w_def)
  moreover have "Whitelist_Contains w (dotted y) = Some (\<exists>e \<in> set es. matches e y)" for y
    by (cases y) (simp add: Whitelist_Contains_def w_def nets_contain_entries [OF assms(2)])
  ultimately show ?thesis by (auto simp: w_def Whitelist_Len_def)
qed


theorem Whitelist_correct_witness:
  "\<exists>w. NewWhitelist ''10.1.0.0/15,192.168.7.9'' = Inr w \<and> Whitelist_Len w = 2
     \<and> Whitelist_Contains w (dotted (10, 0, 3, 4)) = Some True
     \<and> Whitelist_Contains w (dotted (10, 2, 3, 4)) = Some False"
proof -
  define es :: "entry list" where "es = [((10, 1, 0, 0), Some 15), ((192, 168, 7, 9), None)]"
  have "join (CHR '','') (map print_entry es) = ''10.1.0.0/15,192.168.7.9''"
    by (simp add: es_def IPv4_String_def print_base.simps digit_def char_of_def bit_0)
  then show ?thesis
    using Whitelist_correct [of es] by (auto simp: es_def be32_def)
qed

lemma IP_To4_length: "IP_To4 ip = Some ip4 \<Longrightarrow> length ip4 = 4"
  by (auto simp: IP_To4_def split: if_splits)

lemma ParseCIDR_mask: "ParseCIDR s = Some (ip, n) \<Longrightarrow> length (net_Mask n) = 4 \<or> length (net_Mask n) = 16"
  by (auto simp: ParseCIDR_def CIDRMask_def Let_def split: bind_splits if_splits)

definition net_ok :: "IPNet \<Rightarrow> bool" where
  "net_ok n \<longleftrightarrow> length (net_IP n) = 4 \<and> (length (net_Mask n) = 4 \<or> length (net_Mask n) = 16)"

lemma contains_loop_total: "length nn = length xs \<Longrightarrow> length ms = length xs \<Longrightarrow> contains_loop nn ms xs \<noteq> None"
  by (induction nn ms xs rule: contains_loop.induct) auto

lemma net_ok_total:
  assumes "net_ok n" "length ip = 4"
  shows "IPNet_Contains n ip \<noteq> None"
  using assms contains_loop_total
  by (auto simp: IPNet_Contains_def networkNumberAndMask_def IP_To4_def net_ok_def)

lemma whitelist_item_ok: "whitelist_item item = Inr n \<Longrightarrow> net_ok n"
proof -
  assume i: "whitelist_item item = Inr n"
  show ?thesis
  proof (cases "strings_Contains item (CHR ''/'')")
    case True
    with i show ?thesis
      by (auto simp: whitelist_item_def net_ok_def IP_To4_length dest!: ParseCIDR_mask split: option.splits)
  next
    case False
    with i obtain ip4 x where 4: "length ip4 = 4" "ParseCIDR (IP4_String ip4 @ ''/32'') = Some (x, n)"
      by (auto simp: whitelist_item_def dest: IP_To4_length split: option.splits)
    have "''/32'' = CHR ''/'' # itoa 32" by (simp add: print_base.simps digit_def char_of_def bit_0)
    with 4 show ?thesis
      using ParseCIDR_print [of 32 "ip4 ! 0" "ip4 ! 1" "ip4 ! 2" "ip4 ! 3"]
      by (auto simp: IP4_String_def IP_Mask_32 net_ok_def CIDRMask_length)
  qed
qed

lemma whitelist_loop_shape:
  "(case whitelist_loop items w of
      Inl e \<Rightarrow> \<exists>raw \<in> set items. TrimSpace raw \<noteq> '''' \<and> whitelist_item (TrimSpace raw) = Inl e
    | Inr w' \<Rightarrow> (list_all net_ok (nets w) \<longrightarrow> list_all net_ok (nets w')) \<and>
        length (nets w') = length (nets w) + length (filter (\<lambda>raw. TrimSpace raw \<noteq> '''') items))"
proof (induction items arbitrary: w)
  case (Cons raw items)
  consider "TrimSpace raw = ''''" | e where "TrimSpace raw \<noteq> ''''" "whitelist_item (TrimSpace raw) = Inl e"
    | n where "TrimSpace raw \<noteq> ''''" "whitelist_item (TrimSpace raw) = Inr n"
    by (cases "whitelist_item (TrimSpace raw)") auto
  then show ?case
  proof cases
    case 1
    then show ?thesis using Cons.IH [of w] by (auto simp: Let_def split: sum.splits)
  next
    case (3 n)
    then show ?thesis
      using Cons.IH [of "w\<lparr>nets := nets w @ [n]\<rparr>"] whitelist_item_ok [OF 3(2)]
      by (auto simp: Let_def split: sum.splits)
  qed (simp add: Let_def)
qed simp

lemma nets_contain_total: "list_all net_ok ns \<Longrightarrow> length ip = 4 \<Longrightarrow> nets_contain ns ip \<noteq> None"
  using net_ok_total by (induction ns) fastforce+

lemma Whitelist_Contains_total: "list_all net_ok (nets w) \<Longrightarrow> Whitelist_Contains w s \<noteq> None"
  using nets_contain_total by (auto simp: Whitelist_Contains_def dest: IP_To4_length split: option.splits)

lemma NewWhitelist_nets_ok: "NewWhitelist value = Inr w \<Longrightarrow> list_all net_ok (nets w)"
  using whitelist_loop_shape [of "Split (CHR '','') value" "\<lparr>nets = []\<rparr>"]
  by (auto simp: NewWhitelist_def Let_def split: if_splits)

text \<open>
  C34. For every text, \<open>NewWhitelist\<close> either reports the error of one of its nonblank items, or
  builds a whitelist with one network per nonblank item in which no lookup panics, whatever the
  text looked up.
\<close>

theorem NewWhitelist_total:
  "(case NewWhitelist value of
      Inl e \<Rightarrow> \<exists>raw \<in> set (Split (CHR '','') value). TrimSpace raw \<noteq> '''' \<and> whitelist_item (TrimSpace raw) = Inl e
    | Inr w \<Rightarrow> Whitelist_Len w = (if TrimSpace value = '''' then 0
            else len (filter (\<lambda>raw. TrimSpace raw \<noteq> '''') (Split (CHR '','') value)))
        \<and> (\<forall>ipStr. Whitelist_Contains w ipStr \<noteq> None))"
  using whitelist_loop_shape [of "Split (CHR '','') value" "\<lparr>nets = []\<rparr>"] NewWhitelist_nets_ok [of "value"]
    Whitelist_Contains_total
  by (auto simp: NewWhitelist_def Let_def Whitelist_Len_def split: sum.splits)

end
