(* ===== verification/Go_Parse.thy ===== *)
theory Go_Parse
  imports Go_Text
begin

text \<open>
  \<open>strconv.ParseUint\<close> and \<open>strconv.ParseInt\<close> with base 0, \<open>strconv.ParseBool\<close> and
  \<open>time.ParseDuration\<close>, as the command line and the configuration use them. They return \<open>None\<close> for
  an error: the callers only test it against \<open>nil\<close>.
\<close>

subsection \<open>strconv.ParseUint(s, 0, bitSize)\<close>

text \<open>\<open>lower(c)\<close> sets the bit that distinguishes the cases of an ASCII letter.\<close>

definition lower_code :: "char \<Rightarrow> nat" where
  "lower_code c = or (of_char c) 0x20"

definition digit_val :: "char \<Rightarrow> nat option" where
  "digit_val c =
     (if is_dec c then Some (dec_val c)
      else if 97 \<le> lower_code c \<and> lower_code c \<le> 122 then Some (lower_code c - 87)
      else None)"

text \<open>
  The digit loop. The tests for an overflow of the 64-bit multiplication and of the sum and the test
  against the largest value of the size fire exactly if the exact value is too large.
\<close>

fun uint_loop :: "nat \<Rightarrow> nat \<Rightarrow> string \<Rightarrow> nat \<Rightarrow> nat option" where
  "uint_loop bits base [] n = Some n"
| "uint_loop bits base (c # s) n =
     (if c = CHR ''_'' then uint_loop bits base s n
      else case digit_val c of
        None \<Rightarrow> None
      | Some d \<Rightarrow>
          if base \<le> d then None
          else if 2 ^ bits - 1 < n * base + d then None
          else uint_loop bits base s (n * base + d))"

fun underscore_loop :: "bool \<Rightarrow> char \<Rightarrow> string \<Rightarrow> bool" where
  "underscore_loop hex saw [] \<longleftrightarrow> saw \<noteq> CHR ''_''"
| "underscore_loop hex saw (c # s) \<longleftrightarrow>
     (if is_dec c \<or> (hex \<and> 97 \<le> lower_code c \<and> lower_code c \<le> 102) then underscore_loop hex (CHR ''0'') s
      else if c = CHR ''_'' then saw = CHR ''0'' \<and> underscore_loop hex (CHR ''_'') s
      else saw \<noteq> CHR ''_'' \<and> underscore_loop hex (CHR ''!'') s)"

definition base_letter :: "string \<Rightarrow> nat option" where
  "base_letter s =
     (case s of z # b # _ \<Rightarrow>
        if z \<noteq> CHR ''0'' then None
        else if lower_code b = 98 then Some 2 else if lower_code b = 111 then Some 8
        else if lower_code b = 120 then Some 16 else None
      | _ \<Rightarrow> None)"

definition underscoreOK :: "string \<Rightarrow> bool" where
  "underscoreOK s0 =
     (let s = (if s0 \<noteq> [] \<and> hd s0 \<in> {CHR ''-'', CHR ''+''} then tl s0 else s0)
      in case base_letter s of
           Some b \<Rightarrow> underscore_loop (b = 16) (CHR ''0'') (drop 2 s)
         | None \<Rightarrow> underscore_loop False (CHR ''^'') s)"

definition ParseUint :: "nat \<Rightarrow> string \<Rightarrow> nat option" where
  "ParseUint bits s0 =
     (if s0 = '''' then None
      else let (base, s) =
             (if hd s0 = CHR ''0'' then
                (case base_letter s0 of
                   Some b \<Rightarrow> if 3 \<le> length s0 then (b, drop 2 s0) else (8, tl s0)
                 | None \<Rightarrow> (8, tl s0))
              else (10, s0))
      in case uint_loop bits base s 0 of
           None \<Rightarrow> None
         | Some n \<Rightarrow> if CHR ''_'' \<in> set s \<and> \<not> underscoreOK s0 then None else Some n)"

abbreviation ParseUint32 :: "string \<Rightarrow> nat option" where
  "ParseUint32 \<equiv> ParseUint 32"

text \<open>
  \<open>strconv.ParseInt(s, 0, 64)\<close>. An unsigned value out of range is out of range for the signed
  type too, so that all errors are alike.
\<close>

definition ParseInt64 :: "string \<Rightarrow> int option" where
  "ParseInt64 s0 =
     (if s0 = '''' then None
      else let (neg, s) = (if hd s0 = CHR ''+'' then (False, tl s0) else if hd s0 = CHR ''-'' then (True, tl s0) else (False, s0))
      in case ParseUint 64 s of
           None \<Rightarrow> None
         | Some un \<Rightarrow>
             if \<not> neg \<and> 2 ^ 63 \<le> un then None
             else if neg \<and> 2 ^ 63 < un then None
             else Some (if neg then - int un else int un))"

definition ParseBool :: "string \<Rightarrow> bool option" where
  "ParseBool s =
     (if s \<in> {''1'', ''t'', ''T'', ''true'', ''TRUE'', ''True''} then Some True
      else if s \<in> {''0'', ''f'', ''F'', ''false'', ''FALSE'', ''False''} then Some False
      else None)"

lemma uint_loop_bound: "uint_loop bits base s n = Some m \<Longrightarrow> n < 2 ^ bits \<Longrightarrow> m < 2 ^ bits"
  by (induction bits base s n rule: uint_loop.induct) (auto simp: not_less split: if_splits option.splits)

lemma ParseUint_bound: "ParseUint bits s = Some n \<Longrightarrow> n < 2 ^ bits"
  by (auto simp: ParseUint_def Let_def dest: uint_loop_bound split: if_splits option.splits)

lemmas ParseUint32_bound = ParseUint_bound [of 32]

text \<open>What a base prints, it reads.\<close>

lemma digit_val_digits: "list_all (\<lambda>d. digit_val (digit d) = Some d \<and> digit d \<noteq> CHR ''_'') [0..<16]"
  by (simp add: upt_rec digit_def digit_val_def is_dec_iff dec_val_def lower_code_def char_of_def bit_0)

lemma digit_val_digit: "d < 16 \<Longrightarrow> digit_val (digit d) = Some d \<and> digit d \<noteq> CHR ''_''"
  using digit_val_digits by (simp add: list_all_iff)

lemma uint_loop_app:
  "uint_loop bits b (s @ t) n = Option.bind (uint_loop bits b s n) (uint_loop bits b t)"
  by (induction bits b s n rule: uint_loop.induct) (auto split: option.splits)

lemma print_base_step: "2 \<le> b \<Longrightarrow> b \<le> n \<Longrightarrow> print_base b n = print_base b (n div b) @ [digit (n mod b)]"
  by (subst print_base.simps) simp

lemma uint_loop_print:
  assumes "2 \<le> b" "b \<le> 16"
  shows "n < 2 ^ bits \<Longrightarrow> uint_loop bits b (print_base b n) 0 = Some n"
proof (induction n rule: less_induct)
  case (less n)
  show ?case
  proof (cases "n < b")
    case True
    then show ?thesis using digit_val_digit [of n] assms less.prems by (simp add: print_base.simps)
  next
    case False
    have "uint_loop bits b (print_base b (n div b)) 0 = Some (n div b)"
      using less False assms by (intro less.IH) (auto intro: le_less_trans [OF div_le_dividend])
    moreover have "\<not> b \<le> n mod b" using mod_less_divisor [of b n] assms by linarith
    moreover have "digit_val (digit (n mod b)) = Some (n mod b) \<and> digit (n mod b) \<noteq> CHR ''_''"
      using mod_less_divisor [of b n] assms by (intro digit_val_digit) linarith
    ultimately show ?thesis
      using False less.prems assms by (simp add: print_base_step uint_loop_app not_less)
  qed
qed

lemma print_base_no_underscore:
  assumes "2 \<le> b" "b \<le> 16"
  shows "CHR ''_'' \<notin> set (print_base b n)"
proof (induction n rule: less_induct)
  case (less n)
  have "n mod b < 16" using assms by (simp add: less_le_trans [of _ b])
  then show ?case
    using less assms digit_val_digit [of n] digit_val_digit [of "n mod b"] print_base_step [of b n]
    by (cases "n < b") (auto simp: print_base.simps [of b n] dest: sym)
qed

lemma ParseUint32_hex: "n < 2 ^ 32 \<Longrightarrow> ParseUint32 (''0x'' @ print_base 16 n) = Some n"
  using uint_loop_print [of 16 n 32] print_base_no_underscore [of 16 n]
  by (cases "print_base 16 n") (auto simp: ParseUint_def base_letter_def lower_code_def)

text \<open>A decimal number has no leading zero.\<close>

lemma itoa_hd: "0 < n \<Longrightarrow> itoa n \<noteq> '''' \<and> is_dec (hd (itoa n)) \<and> hd (itoa n) \<noteq> CHR ''0''"
proof (induction n rule: less_induct)
  case (less n)
  show ?case
  proof (cases "n < 10")
    case True
    then show ?thesis using less.prems dec_val_digit [of n] by (auto simp: print_base.simps dec_val_def)
  next
    case False
    then show ?thesis using less.IH [of "n div 10"] by (simp add: print_base_step)
  qed
qed

lemma ParseUint_itoa:
  assumes "n < 2 ^ bits"
  shows "ParseUint bits (itoa n) = Some n"
proof (cases "n = 0")
  case True
  have "itoa 0 = ''0''" by (simp add: print_base.simps digit_def char_of_def bit_0)
  then show ?thesis by (simp add: True ParseUint_def base_letter_def)
next
  case False
  then have "hd (itoa n) \<noteq> CHR ''0''" using itoa_hd [of n] by simp
  then show ?thesis
    using uint_loop_print [of 10 n bits] print_base_no_underscore [of 10 n] assms by (simp add: ParseUint_def)
qed

subsection \<open>float64 arithmetic of durations\<close>

text \<open>
  \<open>ParseDuration\<close> scales the fraction in \<open>float64\<close>. A positive double is a significand and
  an exponent; the quotient or product of two is rounded to 53 bits, ties to even. The values
  that occur are between \<open>10 ^ - 19\<close> and \<open>2 ^ 63\<close>, far from the subnormal numbers and
  from overflow.
\<close>

function bitlen :: "nat \<Rightarrow> nat" where
  "bitlen n = (if n = 0 then 0 else Suc (bitlen (n div 2)))"
  by pat_completeness auto

termination bitlen
  by (relation "measure id") auto

declare bitlen.simps [simp del]

definition div_half_even :: "nat \<Rightarrow> nat \<Rightarrow> nat" where
  "div_half_even p q =
     (let d = p div q; r = p mod q
      in if 2 * r < q \<or> (2 * r = q \<and> even d) then d else d + 1)"

type_synonym double = "nat \<times> int"

definition scaled :: "nat \<Rightarrow> nat \<Rightarrow> int \<Rightarrow> nat \<times> nat" where
  "scaled p q e = (p * 2 ^ nat (- e), q * 2 ^ nat e)"

text \<open>The double nearest to \<open>p / q\<close>: the exponent leaves a quotient of exactly 53 bits.\<close>

definition round_ratio :: "nat \<Rightarrow> nat \<Rightarrow> double" where
  "round_ratio p q =
     (if p = 0 then (0, 0)
      else let e0 = int (bitlen p) - int (bitlen q) - 53;
               (p0, q0) = scaled p q e0;
               e = (if 2 ^ 53 \<le> p0 div q0 then e0 + 1 else e0);
               (p1, q1) = scaled p q e
           in (div_half_even p1 q1, e))"

definition mult_double :: "double \<Rightarrow> double \<Rightarrow> double" where
  "mult_double x y =
     (let (m, e) = round_ratio (fst x * fst y) 1 in (m, e + snd x + snd y))"

definition trunc_double :: "double \<Rightarrow> nat" where
  "trunc_double x = (let (p, q) = scaled (fst x) 1 (- snd x) in p div q)"

text \<open>\<open>uint64(float64(f) * (float64(unit) / scale))\<close> with \<open>scale = 10 ^ k\<close>.\<close>

definition fraction_ns :: "nat \<Rightarrow> nat \<Rightarrow> nat \<Rightarrow> nat" where
  "fraction_ns f unit k =
     trunc_double (mult_double (round_ratio f 1) (round_ratio unit (10 ^ k)))"

subsection \<open>time.ParseDuration\<close>

definition unitMap :: "string \<Rightarrow> nat option" where
  "unitMap u =
     (if u = ''ns'' then Some 1
      else if u = ''us'' \<or> u = [CHR 0xC2, CHR 0xB5, CHR ''s''] \<or> u = [CHR 0xCE, CHR 0xBC, CHR ''s''] then Some 1000
      else if u = ''ms'' then Some 1000000
      else if u = ''s'' then Some 1000000000
      else if u = ''m'' then Some 60000000000
      else if u = ''h'' then Some 3600000000000
      else None)"

fun leadingInt :: "string \<Rightarrow> nat \<Rightarrow> (nat \<times> string) option" where
  "leadingInt [] x = Some (x, [])"
| "leadingInt (c # s) x =
     (if \<not> is_dec c then Some (x, c # s)
      else if 2 ^ 63 div 10 < x then None
      else let x = x * 10 + dec_val c in if 2 ^ 63 < x then None else leadingInt s x)"

text \<open>The digits of a fraction: the value, the number of digits it has, and the rest.\<close>

fun leadingFraction :: "string \<Rightarrow> nat \<Rightarrow> nat \<Rightarrow> bool \<Rightarrow> nat \<times> nat \<times> string" where
  "leadingFraction [] x k overflow = (x, k, [])"
| "leadingFraction (c # s) x k overflow =
     (if \<not> is_dec c then (x, k, c # s)
      else if overflow then leadingFraction s x k overflow
      else if (2 ^ 63 - 1) div 10 < x then leadingFraction s x k True
      else let y = x * 10 + dec_val c
           in if 2 ^ 63 < y then leadingFraction s x k True
              else leadingFraction s y (k + 1) overflow)"

text \<open>One round of the loop: a number, its fraction and its unit; the nanoseconds and the rest.\<close>

definition duration_term :: "string \<Rightarrow> (nat \<times> string) option" where
  "duration_term s =
     (if s = [] \<or> \<not> (hd s = CHR ''.'' \<or> is_dec (hd s)) then None
      else case leadingInt s 0 of
        None \<Rightarrow> None
      | Some (v, s1) \<Rightarrow>
          let pre = length s \<noteq> length s1;
              (f, k, s2, post) =
                (if s1 \<noteq> [] \<and> hd s1 = CHR ''.''
                 then (case leadingFraction (tl s1) 0 0 False of (f, k, s2) \<Rightarrow> (f, k, s2, length (tl s1) \<noteq> length s2))
                 else (0, 0, s1, False));
              u = takeWhile (\<lambda>c. \<not> (c = CHR ''.'' \<or> is_dec c)) s2
          in if \<not> pre \<and> \<not> post then None
             else if u = [] then None
             else case unitMap u of
               None \<Rightarrow> None
             | Some unit \<Rightarrow>
                 if 2 ^ 63 div unit < v then None
                 else let v' = v * unit + (if 0 < f then fraction_ns f unit k else 0)
                      in if 2 ^ 63 < v' then None else Some (v', drop (length u) s2))"

lemma leadingInt_length: "leadingInt s x = Some (v, s') \<Longrightarrow> length s' \<le> length s"
  by (induction s x rule: leadingInt.induct) (auto simp: Let_def split: if_splits)

lemma leadingFraction_length: "leadingFraction s x k b = (f, k', s') \<Longrightarrow> length s' \<le> length s"
  by (induction s x k b rule: leadingFraction.induct) (auto simp: Let_def split: if_splits)

lemma duration_term_shorter:
  assumes "duration_term s = Some (v, s')"
  shows "length s' < length s"
proof -
  obtain v0 s1 where 1: "leadingInt s 0 = Some (v0, s1)"
    using assms by (auto simp: duration_term_def split: if_splits option.splits)
  obtain f k s2 where 2: "leadingFraction (tl s1) 0 0 False = (f, k, s2)" by (metis prod.exhaust)
  have "length s1 \<le> length s" "length s2 \<le> length (tl s1)"
    using leadingInt_length [OF 1] leadingFraction_length [OF 2] by auto
  moreover obtain u s3 :: string where "s' = drop (length u) s3" "u \<noteq> []" "length u \<le> length s3" "s3 = s1 \<or> s3 = s2"
  proof (cases "s1 \<noteq> [] \<and> hd s1 = CHR ''.''")
    case True
    then show thesis
      using assms 1 2 that [of "takeWhile (\<lambda>c. \<not> (c = CHR ''.'' \<or> is_dec c)) s2" s2]
      by (auto simp: duration_term_def Let_def length_takeWhile_le split: if_splits option.splits)
  next
    case False
    then show thesis
      using assms 1 that [of "takeWhile (\<lambda>c. \<not> (c = CHR ''.'' \<or> is_dec c)) s1" s1]
      by (auto simp: duration_term_def Let_def length_takeWhile_le split: if_splits option.splits)
  qed
  ultimately show ?thesis by (cases u) auto
qed

function duration_loop :: "string \<Rightarrow> nat \<Rightarrow> nat option" where
  "duration_loop s d =
     (if s = [] then Some d
      else case duration_term s of
        None \<Rightarrow> None
      | Some (v, s') \<Rightarrow> if 2 ^ 63 < d + v then None else duration_loop s' (d + v))"
  by pat_completeness auto

termination duration_loop
  by (relation "measure (\<lambda>(s, d). length s)") (auto dest: duration_term_shorter)

declare duration_loop.simps [simp del]

definition ParseDuration :: "string \<Rightarrow> duration option" where
  "ParseDuration orig =
     (let neg = (orig \<noteq> [] \<and> hd orig = CHR ''-'');
          s = (if orig \<noteq> [] \<and> hd orig \<in> {CHR ''-'', CHR ''+''} then tl orig else orig)
      in if s = ''0'' then Some 0
         else if s = '''' then None
         else case duration_loop s 0 of
           None \<Rightarrow> None
         | Some d \<Rightarrow> if neg then Some (- int d) else if 2 ^ 63 - 1 < d then None else Some (int d))"

lemma duration_loop_bound: "duration_loop s d = Some r \<Longrightarrow> d \<le> 2 ^ 63 \<Longrightarrow> r \<le> 2 ^ 63"
  by (induction s d rule: duration_loop.induct)
     (simp add: duration_loop.simps split: if_splits option.splits prod.splits)

lemma ParseDuration_int64:
  assumes "ParseDuration s = Some d"
  shows "int64 d"
proof -
  have "r \<le> 2 ^ 63" if "duration_loop t 0 = Some r" for t r
    using duration_loop_bound [OF that] by simp
  then show ?thesis
    using assms by (fastforce simp: ParseDuration_def Let_def int64_def split: if_splits option.splits)
qed

end
