(* ===== verification/Config.thy ===== *)
theory Config
  imports Go_Parse
begin

text \<open>
  The configuration of \<open>src/cmd/nfqcooldown/main.go\<close>. \<open>flag.Parse\<close> leaves the values
  of the flags in the record \<open>flags\<close>; \<open>parseConfig\<close> converts and checks them. A call of
  \<open>fatalf\<close>, which ends the process, is the error of a sum.
\<close>

record flags =
  f_queue :: u64
  f_action :: string
  f_mode :: string
  f_cooldown :: string
  f_min_delay :: string
  f_max_delay :: string
  f_jitter :: string
  f_whitelist :: string
  f_verbose :: bool
  f_seed :: int
  f_stats_every :: string
  f_cleanup_after :: string
  f_cleanup_every :: string
  f_forget_on_drop :: bool
  f_max_drops_per_ip :: int
  f_packet :: string
  f_max_pending_delays :: int
  f_burst_interval :: string
  f_burst_max_delay :: string
  f_skip_mark :: string
  f_reject_mark :: string
  f_split_at :: int
  f_split_mark :: string
  f_split_delay :: string
  f_split_seen_ttl :: string
  f_split_probe :: bool
  f_split_reverse :: bool
  f_fake_bad_checksum :: bool
  f_fake_payload :: string
  f_fake_length :: int
  f_fake_delay :: string
  f_pass_window :: string

text \<open>The defaults the flags are declared with.\<close>

definition default_flags :: flags where
  "default_flags = \<lparr>f_queue = 443, f_action = ''drop'', f_mode = ''fixed'', f_cooldown = ''500ms'',
     f_min_delay = ''300ms'', f_max_delay = ''700ms'', f_jitter = ''100ms'', f_whitelist = '''',
     f_verbose = False, f_seed = 0, f_stats_every = ''30s'', f_cleanup_after = ''10m'', f_cleanup_every = ''30s'',
     f_forget_on_drop = False, f_max_drops_per_ip = 0, f_packet = ''syn'', f_max_pending_delays = 0,
     f_burst_interval = ''100ms'', f_burst_max_delay = ''1s'', f_skip_mark = '''', f_reject_mark = '''',
     f_split_at = 1, f_split_mark = ''0x1000'', f_split_delay = ''1ms'', f_split_seen_ttl = ''1m'',
     f_split_probe = False, f_split_reverse = False, f_fake_bad_checksum = False,
     f_fake_payload = ''tls-invalid-length'', f_fake_length = 0, f_fake_delay = ''5ms'', f_pass_window = ''0''\<rparr>"

record Config =
  QueueNum :: u64
  Action :: string
  Mode :: string
  cfg_Cooldown :: duration
  MinDelay :: duration
  MaxDelay :: duration
  Jitter :: duration
  cfg_Whitelist :: string
  Verbose :: bool
  Seed :: int
  StatsEvery :: duration
  CleanupAfter :: duration
  CleanupEvery :: duration
  ForgetOnDrop :: bool
  MaxDropsPerIP :: int
  Packet :: string
  MaxPendingDelays :: int
  BurstInterval :: duration
  BurstMaxDelay :: duration
  SkipMarkEnabled :: bool
  SkipMarkValue :: u32
  SkipMarkMask :: u32
  SkipMarkSpec :: string
  RejectMarkEnabled :: bool
  RejectMarkValue :: u32
  RejectMarkSpec :: string
  SplitAt :: int
  SplitMarkEnabled :: bool
  SplitMarkValue :: u32
  SplitMarkSpec :: string
  SplitDelay :: duration
  SplitSeenTTL :: duration
  SplitProbe :: bool
  SplitReverse :: bool
  FakeBadChecksum :: bool
  FakePayload :: string
  FakeLength :: int
  FakeDelay :: duration
  PassWindow :: duration

datatype config_error =
    BadDuration string string
  | BadMarkSyntax string string
  | InvalidMark string string
  | EmptyMask string string
  | InvalidMask string string
  | ZeroMask string string
  | ZeroMark string string
  | BadAction string
  | BadModeFlag string
  | BadPacket string
  | ShapeRequiresSyn
  | SplitRequiresPayload
  | PayloadRequiresSplit
  | SplitRequiresMark
  | BadSplitAt int
  | BadSplitDelay string
  | ProbeWithReverse
  | FakeWithProbe
  | BadFakePayload string
  | BadFakeLength int
  | FakeLengthBelowTLSHeader int
  | BadFakeDelay string
  | BadPassWindow string
  | BadSplitSeenTTL string
  | BadMaxDropsPerIP int
  | BadMaxPendingDelays int
  | BadBurstInterval string
  | BadBurstMaxDelay string

subsection \<open>Marks and durations\<close>

definition bindE :: "'e + 'a \<Rightarrow> ('a \<Rightarrow> 'e + 'b) \<Rightarrow> 'e + 'b" where
  "bindE r k = (case r of Inl e \<Rightarrow> Inl e | Inr x \<Rightarrow> k x)"

definition mustDuration :: "string \<Rightarrow> string \<Rightarrow> config_error + duration" where
  "mustDuration name value =
     (case ParseDuration value of None \<Rightarrow> Inl (BadDuration name value) | Some d \<Rightarrow> Inr d)"

definition mustMarkSpec :: "string \<Rightarrow> string \<Rightarrow> config_error + bool \<times> u32 \<times> u32" where
  "mustMarkSpec name value0 =
     (let value = TrimSpace value0
      in if value = '''' then Inr (False, 0, 0)
         else let parts = Split (CHR ''/'') value
         in if 2 < length parts \<or> hd parts = '''' then Inl (BadMarkSyntax name value)
         else case ParseUint32 (hd parts) of
           None \<Rightarrow> Inl (InvalidMark name value)
         | Some mark \<Rightarrow>
             if length parts = 2 then
               (if parts ! 1 = '''' then Inl (EmptyMask name value)
                else case ParseUint32 (parts ! 1) of
                  None \<Rightarrow> Inl (InvalidMask name value)
                | Some m \<Rightarrow> if m = 0 then Inl (ZeroMask name value)
                             else Inr (True, of_nat mark, of_nat m))
             else Inr (True, of_nat mark, 0xffffffff))"

definition mustMark :: "string \<Rightarrow> string \<Rightarrow> config_error + bool \<times> u32" where
  "mustMark name value0 =
     (let value = TrimSpace value0
      in if value = '''' then Inr (False, 0)
         else case ParseUint32 value of
           None \<Rightarrow> Inl (InvalidMark name value)
         | Some mark \<Rightarrow> if mark = 0 then Inl (ZeroMark name value) else Inr (True, of_nat mark))"

definition formatSkipMark :: "Config \<Rightarrow> string" where
  "formatSkipMark cfg =
     (if \<not> SkipMarkEnabled cfg then ''disabled''
      else ''0x'' @ print_base 16 (unat (SkipMarkValue cfg)) @ ''/0x'' @ print_base 16 (unat (SkipMarkMask cfg)))"

definition formatRejectMark :: "Config \<Rightarrow> string" where
  "formatRejectMark cfg =
     (if \<not> RejectMarkEnabled cfg then ''disabled''
      else ''0x'' @ print_base 16 (unat (RejectMarkValue cfg)))"

subsection \<open>parseConfig\<close>

text \<open>The sequence of \<open>if ... { fatalf(...) }\<close>: the first condition that holds ends the process.\<close>

fun first_fatal :: "(bool \<times> 'e) list \<Rightarrow> 'e option" where
  "first_fatal [] = None"
| "first_fatal ((c, e) # cs) = (if c then Some e else first_fatal cs)"

definition config_checks ::
  "flags \<Rightarrow> bool \<Rightarrow> duration \<Rightarrow> duration \<Rightarrow> duration \<Rightarrow> duration \<Rightarrow> duration \<Rightarrow> duration \<Rightarrow> (bool \<times> config_error) list" where
  "config_checks f splitMarkEnabled splitDelay fakeDelay passWindow splitSeenTTL burstInterval burstMaxDelay =
     [(f_action f \<noteq> ''drop'' \<and> f_action f \<noteq> ''shape'' \<and> f_action f \<noteq> ''split'', BadAction (f_action f)),
      (f_mode f \<noteq> ''fixed'' \<and> f_mode f \<noteq> ''random'' \<and> f_mode f \<noteq> ''jitter'', BadModeFlag (f_mode f)),
      (f_packet f \<noteq> ''syn'' \<and> f_packet f \<noteq> ''synack'' \<and> f_packet f \<noteq> ''payload'', BadPacket (f_packet f)),
      (f_action f = ''shape'' \<and> f_packet f \<noteq> ''syn'', ShapeRequiresSyn),
      (f_action f = ''split'' \<and> f_packet f \<noteq> ''payload'', SplitRequiresPayload),
      (f_packet f = ''payload'' \<and> f_action f \<noteq> ''split'', PayloadRequiresSplit),
      (f_action f = ''split'' \<and> \<not> splitMarkEnabled, SplitRequiresMark),
      (f_split_at f \<le> 0, BadSplitAt (f_split_at f)),
      (splitDelay < 0, BadSplitDelay (f_split_delay f)),
      (f_split_probe f \<and> f_split_reverse f, ProbeWithReverse),
      (f_fake_bad_checksum f \<and> f_split_probe f, FakeWithProbe),
      (f_fake_payload f \<noteq> ''copy'' \<and> f_fake_payload f \<noteq> ''tls-invalid-length'', BadFakePayload (f_fake_payload f)),
      (f_fake_length f < 0, BadFakeLength (f_fake_length f)),
      (0 < f_fake_length f \<and> f_fake_payload f = ''tls-invalid-length'' \<and> f_fake_length f < 5,
         FakeLengthBelowTLSHeader (f_fake_length f)),
      (fakeDelay < 0, BadFakeDelay (f_fake_delay f)),
      (passWindow < 0, BadPassWindow (f_pass_window f)),
      (splitSeenTTL \<le> 0, BadSplitSeenTTL (f_split_seen_ttl f)),
      (f_max_drops_per_ip f < 0, BadMaxDropsPerIP (f_max_drops_per_ip f)),
      (f_max_pending_delays f < 0, BadMaxPendingDelays (f_max_pending_delays f)),
      (burstInterval \<le> 0, BadBurstInterval (f_burst_interval f)),
      (burstMaxDelay < 0, BadBurstMaxDelay (f_burst_max_delay f))]"

text \<open>The composite literal \<open>parseConfig\<close> returns.\<close>

definition config_of ::
  "flags \<Rightarrow> duration \<Rightarrow> duration \<Rightarrow> duration \<Rightarrow> duration \<Rightarrow> duration \<Rightarrow> duration \<Rightarrow> duration \<Rightarrow> duration \<Rightarrow> duration
    \<Rightarrow> bool \<times> u32 \<times> u32 \<Rightarrow> bool \<times> u32 \<Rightarrow> bool \<times> u32 \<Rightarrow> duration \<Rightarrow> duration \<Rightarrow> duration \<Rightarrow> duration \<Rightarrow> Config" where
  "config_of f cooldown minDelay maxDelay jitter statsEvery cleanupAfter cleanupEvery burstInterval burstMaxDelay
     skipMark rejectMark splitMark splitDelay splitSeenTTL fakeDelay passWindow =
     \<lparr>QueueNum = f_queue f, Action = f_action f, Mode = f_mode f, cfg_Cooldown = cooldown,
     MinDelay = minDelay, MaxDelay = maxDelay, Jitter = jitter, cfg_Whitelist = f_whitelist f,
     Verbose = f_verbose f, Seed = f_seed f, StatsEvery = statsEvery, CleanupAfter = cleanupAfter,
     CleanupEvery = cleanupEvery, ForgetOnDrop = f_forget_on_drop f, MaxDropsPerIP = f_max_drops_per_ip f,
     Packet = f_packet f, MaxPendingDelays = f_max_pending_delays f, BurstInterval = burstInterval,
     BurstMaxDelay = burstMaxDelay, SkipMarkEnabled = fst skipMark, SkipMarkValue = fst (snd skipMark),
     SkipMarkMask = snd (snd skipMark), SkipMarkSpec = TrimSpace (f_skip_mark f),
     RejectMarkEnabled = fst rejectMark, RejectMarkValue = snd rejectMark,
     RejectMarkSpec = TrimSpace (f_reject_mark f), SplitAt = f_split_at f, SplitMarkEnabled = fst splitMark,
     SplitMarkValue = snd splitMark, SplitMarkSpec = TrimSpace (f_split_mark f), SplitDelay = splitDelay,
     SplitSeenTTL = splitSeenTTL, SplitProbe = f_split_probe f, SplitReverse = f_split_reverse f,
     FakeBadChecksum = f_fake_bad_checksum f, FakePayload = f_fake_payload f, FakeLength = f_fake_length f,
     FakeDelay = fakeDelay, PassWindow = passWindow\<rparr>"

definition parseConfig :: "flags \<Rightarrow> config_error + Config" where
  "parseConfig f =
     bindE (mustDuration ''cooldown'' (f_cooldown f)) (\<lambda>cooldown.
     bindE (mustDuration ''min-delay'' (f_min_delay f)) (\<lambda>minDelay.
     bindE (mustDuration ''max-delay'' (f_max_delay f)) (\<lambda>maxDelay.
     bindE (mustDuration ''jitter'' (f_jitter f)) (\<lambda>jitter.
     bindE (mustDuration ''stats-every'' (f_stats_every f)) (\<lambda>statsEvery.
     bindE (mustDuration ''cleanup-after'' (f_cleanup_after f)) (\<lambda>cleanupAfter.
     bindE (mustDuration ''cleanup-every'' (f_cleanup_every f)) (\<lambda>cleanupEvery.
     bindE (mustDuration ''burst-interval'' (f_burst_interval f)) (\<lambda>burstInterval.
     bindE (mustDuration ''burst-max-delay'' (f_burst_max_delay f)) (\<lambda>burstMaxDelay.
     bindE (mustMarkSpec ''skip-mark'' (f_skip_mark f)) (\<lambda>skipMark.
     bindE (mustMark ''reject-mark'' (f_reject_mark f)) (\<lambda>rejectMark.
     bindE (mustMark ''split-mark'' (f_split_mark f)) (\<lambda>splitMark.
     bindE (mustDuration ''split-delay'' (f_split_delay f)) (\<lambda>splitDelay.
     bindE (mustDuration ''split-seen-ttl'' (f_split_seen_ttl f)) (\<lambda>splitSeenTTL.
     bindE (mustDuration ''fake-delay'' (f_fake_delay f)) (\<lambda>fakeDelay.
     bindE (mustDuration ''pass-window'' (f_pass_window f)) (\<lambda>passWindow.
     case first_fatal (config_checks f (fst splitMark) splitDelay fakeDelay passWindow splitSeenTTL
                         burstInterval burstMaxDelay) of
       Some e \<Rightarrow> Inl e
     | None \<Rightarrow> Inr (config_of f cooldown minDelay maxDelay jitter statsEvery cleanupAfter cleanupEvery
         burstInterval burstMaxDelay skipMark rejectMark splitMark splitDelay splitSeenTTL fakeDelay passWindow)))))))))))))))))"

text \<open>
  The scan of the arguments before \<open>flag.Parse\<close>: \<open>--help\<close> and \<open>--version\<close> end
  the process before anything else is read.
\<close>

datatype early_exit = ShowUsage | ShowVersion

fun scan_args :: "string list \<Rightarrow> early_exit option" where
  "scan_args [] = None"
| "scan_args (arg # args) =
     (if arg = ''--help'' then Some ShowUsage
      else if arg = ''--version'' then Some ShowVersion
      else scan_args args)"

subsection \<open>What a parsed configuration guarantees\<close>

definition durations :: "Config \<Rightarrow> duration list" where
  "durations cfg = [cfg_Cooldown cfg, MinDelay cfg, MaxDelay cfg, Jitter cfg, StatsEvery cfg, CleanupAfter cfg,
     CleanupEvery cfg, BurstInterval cfg, BurstMaxDelay cfg, SplitDelay cfg, SplitSeenTTL cfg, FakeDelay cfg,
     PassWindow cfg]"

definition config_ok :: "Config \<Rightarrow> bool" where
  "config_ok cfg \<longleftrightarrow>
     Action cfg \<in> {''drop'', ''shape'', ''split''} \<and> Mode cfg \<in> {''fixed'', ''random'', ''jitter''}
   \<and> Packet cfg \<in> {''syn'', ''synack'', ''payload''}
   \<and> (Action cfg = ''shape'' \<longrightarrow> Packet cfg = ''syn'') \<and> (Action cfg = ''split'' \<longleftrightarrow> Packet cfg = ''payload'')
   \<and> (Action cfg = ''split'' \<longrightarrow> SplitMarkValue cfg \<noteq> 0)
   \<and> (SkipMarkEnabled cfg \<longrightarrow> SkipMarkMask cfg \<noteq> 0) \<and> (RejectMarkEnabled cfg \<longrightarrow> RejectMarkValue cfg \<noteq> 0)
   \<and> 0 < SplitAt cfg \<and> 0 \<le> SplitDelay cfg \<and> 0 < SplitSeenTTL cfg
   \<and> \<not> (SplitProbe cfg \<and> SplitReverse cfg) \<and> \<not> (FakeBadChecksum cfg \<and> SplitProbe cfg)
   \<and> FakePayload cfg \<in> {''copy'', ''tls-invalid-length''} \<and> 0 \<le> FakeLength cfg
   \<and> (FakePayload cfg = ''tls-invalid-length'' \<longrightarrow> FakeLength cfg = 0 \<or> 5 \<le> FakeLength cfg)
   \<and> 0 \<le> FakeDelay cfg \<and> 0 \<le> PassWindow cfg \<and> 0 \<le> MaxDropsPerIP cfg \<and> 0 \<le> MaxPendingDelays cfg
   \<and> 0 < BurstInterval cfg \<and> 0 \<le> BurstMaxDelay cfg \<and> list_all int64 (durations cfg)"

lemma bindE_Inr_iff: "bindE r k = Inr y \<longleftrightarrow> (\<exists>x. r = Inr x \<and> k x = Inr y)"
  by (auto simp: bindE_def split: sum.splits)

lemma first_fatal_None: "first_fatal cs = None \<longleftrightarrow> (\<forall>(c, e) \<in> set cs. \<not> c)"
  by (induction cs rule: first_fatal.induct) auto

lemma mustDuration_Inr: "mustDuration n v = Inr d \<longleftrightarrow> ParseDuration v = Some d"
  by (auto simp: mustDuration_def split: option.splits)

lemma unat_of_nat_u32: "n < 2 ^ 32 \<Longrightarrow> unat (of_nat n :: u32) = n"
  by (simp add: unsigned_of_nat take_bit_nat_eq_self)

lemma of_nat_u32_zero_iff: "n < 2 ^ 32 \<Longrightarrow> (of_nat n :: u32) = 0 \<longleftrightarrow> n = 0"
  using unat_of_nat_u32 [of n] unat_of_nat_u32 [of 0] by fastforce

lemma mustMark_nonzero: "mustMark n v = Inr (en, m) \<Longrightarrow> en \<longleftrightarrow> m \<noteq> 0"
  by (auto simp: mustMark_def Let_def of_nat_u32_zero_iff [OF ParseUint32_bound] split: if_splits option.splits)

lemma mustMarkSpec_mask: "mustMarkSpec n v = Inr (en, m, k) \<Longrightarrow> en \<longleftrightarrow> k \<noteq> 0"
  by (auto simp: mustMarkSpec_def Let_def of_nat_u32_zero_iff [OF ParseUint32_bound] split: if_splits option.splits)

lemma bindE_InrE: "bindE r k = Inr y \<Longrightarrow> (\<And>x. r = Inr x \<Longrightarrow> k x = Inr y \<Longrightarrow> P) \<Longrightarrow> P"
  by (auto simp: bindE_Inr_iff)

lemma config_of_fields:
  "Action (config_of f d1 d2 d3 d4 d5 d6 d7 d8 d9 sk rj sp d10 d11 d12 d13) = f_action f"
  "Mode (config_of f d1 d2 d3 d4 d5 d6 d7 d8 d9 sk rj sp d10 d11 d12 d13) = f_mode f"
  "Packet (config_of f d1 d2 d3 d4 d5 d6 d7 d8 d9 sk rj sp d10 d11 d12 d13) = f_packet f"
  "cfg_Cooldown (config_of f d1 d2 d3 d4 d5 d6 d7 d8 d9 sk rj sp d10 d11 d12 d13) = d1"
  "MinDelay (config_of f d1 d2 d3 d4 d5 d6 d7 d8 d9 sk rj sp d10 d11 d12 d13) = d2"
  "MaxDelay (config_of f d1 d2 d3 d4 d5 d6 d7 d8 d9 sk rj sp d10 d11 d12 d13) = d3"
  "Jitter (config_of f d1 d2 d3 d4 d5 d6 d7 d8 d9 sk rj sp d10 d11 d12 d13) = d4"
  "StatsEvery (config_of f d1 d2 d3 d4 d5 d6 d7 d8 d9 sk rj sp d10 d11 d12 d13) = d5"
  "CleanupAfter (config_of f d1 d2 d3 d4 d5 d6 d7 d8 d9 sk rj sp d10 d11 d12 d13) = d6"
  "CleanupEvery (config_of f d1 d2 d3 d4 d5 d6 d7 d8 d9 sk rj sp d10 d11 d12 d13) = d7"
  "BurstInterval (config_of f d1 d2 d3 d4 d5 d6 d7 d8 d9 sk rj sp d10 d11 d12 d13) = d8"
  "BurstMaxDelay (config_of f d1 d2 d3 d4 d5 d6 d7 d8 d9 sk rj sp d10 d11 d12 d13) = d9"
  "SkipMarkEnabled (config_of f d1 d2 d3 d4 d5 d6 d7 d8 d9 sk rj sp d10 d11 d12 d13) = fst sk"
  "SkipMarkMask (config_of f d1 d2 d3 d4 d5 d6 d7 d8 d9 sk rj sp d10 d11 d12 d13) = snd (snd sk)"
  "RejectMarkEnabled (config_of f d1 d2 d3 d4 d5 d6 d7 d8 d9 sk rj sp d10 d11 d12 d13) = fst rj"
  "RejectMarkValue (config_of f d1 d2 d3 d4 d5 d6 d7 d8 d9 sk rj sp d10 d11 d12 d13) = snd rj"
  "SplitMarkValue (config_of f d1 d2 d3 d4 d5 d6 d7 d8 d9 sk rj sp d10 d11 d12 d13) = snd sp"
  "SplitAt (config_of f d1 d2 d3 d4 d5 d6 d7 d8 d9 sk rj sp d10 d11 d12 d13) = f_split_at f"
  "SplitDelay (config_of f d1 d2 d3 d4 d5 d6 d7 d8 d9 sk rj sp d10 d11 d12 d13) = d10"
  "SplitSeenTTL (config_of f d1 d2 d3 d4 d5 d6 d7 d8 d9 sk rj sp d10 d11 d12 d13) = d11"
  "SplitProbe (config_of f d1 d2 d3 d4 d5 d6 d7 d8 d9 sk rj sp d10 d11 d12 d13) = f_split_probe f"
  "SplitReverse (config_of f d1 d2 d3 d4 d5 d6 d7 d8 d9 sk rj sp d10 d11 d12 d13) = f_split_reverse f"
  "FakeBadChecksum (config_of f d1 d2 d3 d4 d5 d6 d7 d8 d9 sk rj sp d10 d11 d12 d13) = f_fake_bad_checksum f"
  "FakePayload (config_of f d1 d2 d3 d4 d5 d6 d7 d8 d9 sk rj sp d10 d11 d12 d13) = f_fake_payload f"
  "FakeLength (config_of f d1 d2 d3 d4 d5 d6 d7 d8 d9 sk rj sp d10 d11 d12 d13) = f_fake_length f"
  "FakeDelay (config_of f d1 d2 d3 d4 d5 d6 d7 d8 d9 sk rj sp d10 d11 d12 d13) = d12"
  "PassWindow (config_of f d1 d2 d3 d4 d5 d6 d7 d8 d9 sk rj sp d10 d11 d12 d13) = d13"
  "MaxDropsPerIP (config_of f d1 d2 d3 d4 d5 d6 d7 d8 d9 sk rj sp d10 d11 d12 d13) = f_max_drops_per_ip f"
  "MaxPendingDelays (config_of f d1 d2 d3 d4 d5 d6 d7 d8 d9 sk rj sp d10 d11 d12 d13) = f_max_pending_delays f"
  "QueueNum (config_of f d1 d2 d3 d4 d5 d6 d7 d8 d9 sk rj sp d10 d11 d12 d13) = f_queue f"
  "cfg_Whitelist (config_of f d1 d2 d3 d4 d5 d6 d7 d8 d9 sk rj sp d10 d11 d12 d13) = f_whitelist f"
  "Verbose (config_of f d1 d2 d3 d4 d5 d6 d7 d8 d9 sk rj sp d10 d11 d12 d13) = f_verbose f"
  "Seed (config_of f d1 d2 d3 d4 d5 d6 d7 d8 d9 sk rj sp d10 d11 d12 d13) = f_seed f"
  "ForgetOnDrop (config_of f d1 d2 d3 d4 d5 d6 d7 d8 d9 sk rj sp d10 d11 d12 d13) = f_forget_on_drop f"
  "SkipMarkValue (config_of f d1 d2 d3 d4 d5 d6 d7 d8 d9 sk rj sp d10 d11 d12 d13) = fst (snd sk)"
  by (simp_all add: config_of_def)

lemma config_of_ok:
  assumes "list_all int64 [d1, d2, d3, d4, d5, d6, d7, d8, d9, d10, d11, d12, d13]"
    and "fst sk \<longleftrightarrow> snd (snd sk) \<noteq> 0" "fst rj \<longleftrightarrow> snd rj \<noteq> 0" "fst sp \<longleftrightarrow> snd sp \<noteq> 0"
    and "first_fatal (config_checks f (fst sp) d10 d12 d13 d11 d8 d9) = None"
  shows "config_ok (config_of f d1 d2 d3 d4 d5 d6 d7 d8 d9 sk rj sp d10 d11 d12 d13)"
proof -
  note checks = assms(5) [unfolded first_fatal_None config_checks_def, simplified]
  have nums: "0 < f_split_at f" "0 \<le> d10" "0 < d11" "0 \<le> f_fake_length f" "0 \<le> d12" "0 \<le> d13" "0 < d8" "0 \<le> d9"
      "0 \<le> f_max_drops_per_ip f" "0 \<le> f_max_pending_delays f"
    using checks by (simp_all only: linorder_not_le linorder_not_less)
  have "f_fake_length f = 0 \<or> 5 \<le> f_fake_length f" if "f_fake_payload f = ''tls-invalid-length''"
  proof -
    have "0 < f_fake_length f \<longrightarrow> \<not> f_fake_length f < 5" using checks that by blast
    then show ?thesis using nums(4) by linarith
  qed
  then show ?thesis
    unfolding config_ok_def durations_def config_of_fields insert_iff empty_iff
    by (intro conjI) (use checks nums assms(1-4) in blast)+
qed

lemma parsed_config_ok:
  assumes "parseConfig f = Inr cfg"
  shows "config_ok cfg"
  using assms unfolding parseConfig_def
  by (elim bindE_InrE)
     (auto simp del: first_fatal.simps simp: mustDuration_Inr ParseDuration_int64 intro!: config_of_ok
        dest: mustMarkSpec_mask mustMark_nonzero split: option.splits)

text \<open>
  C35. Whatever the flags are, a configuration that \<open>parseConfig\<close> returns is consistent:
  action, packet type and mode are known and fit together, the marks that are enabled are not zero,
  the split position is positive, the counts and delays are not negative, the burst interval and the
  remembering time of split mode are positive, a TLS fake has room for its header, and every duration
  is a 64-bit number. The intervals \<open>--cleanup-every\<close> and \<open>--stats-every\<close> are not among these
  conditions: the code does not check them, see \<open>Observations.zero_interval_panics\<close>.
\<close>

theorem parseConfig_sound:
  assumes "parseConfig f = Inr cfg"
  shows "config_ok cfg"
  using assms by (rule parsed_config_ok)

lemmas duration_eval = ParseDuration_def duration_loop.simps duration_term_def unitMap_def is_dec_iff dec_val_def Let_def

lemma default_durations:
  "ParseDuration ''500ms'' = Some 500000000" "ParseDuration ''300ms'' = Some 300000000"
  "ParseDuration ''700ms'' = Some 700000000" "ParseDuration ''100ms'' = Some 100000000"
  "ParseDuration ''30s'' = Some 30000000000" "ParseDuration ''10m'' = Some 600000000000"
  "ParseDuration ''1s'' = Some 1000000000" "ParseDuration ''1ms'' = Some 1000000"
  "ParseDuration ''1m'' = Some 60000000000" "ParseDuration ''5ms'' = Some 5000000"
  "ParseDuration ''0'' = Some 0"
  by (simp_all add: duration_eval)

lemma default_marks:
  "mustMark n ''0x1000'' = Inr (True, 0x1000)" "mustMark n '''' = Inr (False, 0)"
  "mustMarkSpec n '''' = Inr (False, 0, 0)"
proof -
  have "TrimSpace ''0x1000'' = ''0x1000''" by (rule TrimSpace_plain) (simp_all add: plain_def)
  moreover have "ParseUint32 ''0x1000'' = Some 0x1000"
    using ParseUint32_hex [of "0x1000"] by (simp add: print_base.simps digit_def char_of_def bit_0)
  ultimately show "mustMark n ''0x1000'' = Inr (True, 0x1000)" by (simp add: mustMark_def)
qed (simp_all add: mustMark_def mustMarkSpec_def)

theorem parseConfig_sound_witness:
  "\<exists>cfg. parseConfig default_flags = Inr cfg \<and> config_ok cfg \<and> Action cfg = ''drop'' \<and> cfg_Cooldown cfg = 500000000"
proof -
  have "\<exists>cfg. parseConfig default_flags = Inr cfg \<and> Action cfg = ''drop'' \<and> cfg_Cooldown cfg = 500000000"
    by (simp add: parseConfig_def default_flags_def mustDuration_def default_durations default_marks bindE_def
        config_checks_def config_of_fields)
  then show ?thesis using parseConfig_sound by blast
qed

subsection \<open>Printed marks\<close>

lemma hex_digit_plain: "list_all (\<lambda>d. plain (digit d) \<and> digit d \<noteq> CHR ''/'') [0..<16]"
  by (simp add: upt_rec digit_def plain_def char_of_def bit_0)

lemma print_hex_plain: "c \<in> set (print_base 16 n) \<Longrightarrow> plain c \<and> c \<noteq> CHR ''/''"
proof (induction n rule: less_induct)
  case (less n)
  have d: "plain (digit k) \<and> digit k \<noteq> CHR ''/''" if "k < 16" for k
    using hex_digit_plain that by (simp add: list_all_iff)
  show ?case
  proof (cases "n < 16")
    case True
    then show ?thesis using less.prems d [of n] by (simp add: print_base.simps)
  next
    case False
    then show ?thesis
      using less.prems d [of "n mod 16"] less.IH [of "n div 16"] by (auto simp: print_base_step)
  qed
qed

definition hex_mark :: "u32 \<Rightarrow> string" where
  "hex_mark w = ''0x'' @ print_base 16 (unat w)"

lemma hex_mark_ends:
  "hex_mark w \<noteq> []" "plain (hd (hex_mark w))" "plain (last (hex_mark w))" "CHR ''/'' \<notin> set (hex_mark w)"
  using print_hex_plain [of "last (print_base 16 (unat w))" "unat w"] print_hex_plain [of "CHR ''/''" "unat w"]
  by (auto simp: hex_mark_def plain_def)

lemma ParseUint32_hex_mark: "ParseUint32 (hex_mark w) = Some (unat w)"
  unfolding hex_mark_def using unsigned_less [of w, where ?'a = nat] by (intro ParseUint32_hex) simp

lemma mustMark_hex: "w \<noteq> 0 \<Longrightarrow> mustMark n (hex_mark w) = Inr (True, w)"
  by (simp add: mustMark_def TrimSpace_plain hex_mark_ends ParseUint32_hex_mark unat_eq_zero)

lemma mustMarkSpec_hex: "m \<noteq> 0 \<Longrightarrow> mustMarkSpec n (hex_mark w @ CHR ''/'' # hex_mark m) = Inr (True, w, m)"
  by (simp add: mustMarkSpec_def TrimSpace_plain hex_mark_ends ParseUint32_hex_mark unat_eq_zero
      Split_append Split_no_sep Let_def)

text \<open>
  C36. The marks the startup message prints are the ones the flags accept: in a parsed configuration,
  parsing the printed reject mark or skip mark and mask gives the same values back.
\<close>

theorem printed_marks_roundtrip:
  assumes "parseConfig f = Inr cfg"
  shows "(RejectMarkEnabled cfg \<longrightarrow> mustMark name (formatRejectMark cfg) = Inr (True, RejectMarkValue cfg))
       \<and> (SkipMarkEnabled cfg \<longrightarrow>
            mustMarkSpec name (formatSkipMark cfg) = Inr (True, SkipMarkValue cfg, SkipMarkMask cfg))"
proof -
  have "config_ok cfg" using assms by (rule parsed_config_ok)
  then show ?thesis
    using mustMark_hex [of "RejectMarkValue cfg" name]
      mustMarkSpec_hex [of "SkipMarkMask cfg" name "SkipMarkValue cfg"]
    by (auto simp: config_ok_def formatRejectMark_def formatSkipMark_def hex_mark_def)
qed

theorem printed_marks_roundtrip_witness:
  "\<exists>cfg. parseConfig (default_flags\<lparr>f_reject_mark := ''0x1000''\<rparr>) = Inr cfg
     \<and> formatRejectMark cfg = ''0x1000'' \<and> mustMark ''reject-mark'' (formatRejectMark cfg) = Inr (True, 0x1000)"
proof -
  obtain cfg where c: "parseConfig (default_flags\<lparr>f_reject_mark := ''0x1000''\<rparr>) = Inr cfg"
      "RejectMarkEnabled cfg" "RejectMarkValue cfg = 0x1000"
    by (simp add: parseConfig_def default_flags_def mustDuration_def default_durations default_marks bindE_def
        config_checks_def config_of_fields)
  then show ?thesis
    using printed_marks_roundtrip [OF c(1), of "''reject-mark''"]
    by (simp add: formatRejectMark_def print_base.simps digit_def char_of_def bit_0)
qed

end
