(* ===== verification/Raw_Sender.thy ===== *)
theory Raw_Sender
  imports Prelude
begin

text \<open>
  \<open>src/internal/raw_linux.go\<close> and \<open>raw_other.go\<close>: the raw socket the split segments
  and fakes are sent through. The results of the system calls are arguments (an error number or
  success); the model returns the calls made, in order, next to the result. \<open>Send\<close> runs
  under the sender's mutex, so its calls are not interleaved with those of another \<open>Send\<close>.
\<close>

type_synonym errno = nat

datatype syscall =
    SysSocket
  | SysSetHdrIncl int
  | SysSetMark int int
  | SysSendto int bytes bytes
  | SysClose int

datatype send_error =
    SenderNotInitialized
  | NotCompleteIPv4
  | SenderClosed
  | SendErrno errno
  | OnlyOnLinux

record RawIPv4Sender =
  fd :: int

definition NewRawIPv4Sender ::
  "errno + int \<Rightarrow> errno option \<Rightarrow> (send_error + RawIPv4Sender) \<times> syscall list" where
  "NewRawIPv4Sender socket_result hdrincl_result =
     (case socket_result of
        Inl e \<Rightarrow> (Inl (SendErrno e), [SysSocket])
      | Inr d \<Rightarrow>
          (case hdrincl_result of
             Some e \<Rightarrow> (Inl (SendErrno e), [SysSocket, SysSetHdrIncl d, SysClose d])
           | None \<Rightarrow> (Inr \<lparr>fd = d\<rparr>, [SysSocket, SysSetHdrIncl d])))"

text \<open>\<open>None\<close> is the nil receiver, which \<open>Close\<close> and \<open>Send\<close> test for.\<close>

definition Close ::
  "RawIPv4Sender option \<Rightarrow> errno option \<Rightarrow> send_error option \<times> RawIPv4Sender option \<times> syscall list" where
  "Close s close_result =
     (case s of
        None \<Rightarrow> (None, None, [])
      | Some r \<Rightarrow>
          if fd r < 0 then (None, s, [])
          else (map_option SendErrno close_result, Some (r\<lparr>fd := - 1\<rparr>), [SysClose (fd r)]))"

definition Send ::
  "RawIPv4Sender option \<Rightarrow> bytes \<Rightarrow> u32 \<Rightarrow> errno option \<Rightarrow> errno option \<Rightarrow> (send_error option \<times> syscall list) option" where
  "Send s packet mark setmark_result sendto_result =
     (case s of
        None \<Rightarrow> Some (Some SenderNotInitialized, [])
      | Some r \<Rightarrow> do {
          bad \<leftarrow> (if len packet < 20 then Some True
                  else do { b0 \<leftarrow> idx packet 0; Some (drop_bit 4 b0 \<noteq> 4) });
          if bad then Some (Some NotCompleteIPv4, [])
          else if fd r < 0 then Some (Some SenderClosed, [])
          else (case setmark_result of
            Some e \<Rightarrow> Some (Some (SendErrno e), [SysSetMark (fd r) (int_of mark)])
          | None \<Rightarrow> do {
              dst \<leftarrow> slice packet 16 20;
              addr \<leftarrow> copy_at [0, 0, 0, 0] 0 4 dst;
              Some (map_option SendErrno sendto_result,
                    [SysSetMark (fd r) (int_of mark), SysSendto (fd r) packet addr]) })
        })"

text \<open>The implementation for other systems refuses to work.\<close>

definition NewRawIPv4Sender_other :: "send_error + RawIPv4Sender" where
  "NewRawIPv4Sender_other = Inl OnlyOnLinux"

definition Close_other :: "send_error option" where
  "Close_other = None"

definition Send_other :: "bytes \<Rightarrow> u32 \<Rightarrow> send_error option" where
  "Send_other packet mark = Some OnlyOnLinux"

subsection \<open>What reaches the wire\<close>

text \<open>
  The kernel's view: a socket has one current mark, and a datagram leaves with the mark the
  socket has at that moment.
\<close>

fun wire :: "int \<Rightarrow> syscall list \<Rightarrow> (bytes \<times> bytes \<times> int) list" where
  "wire m [] = []"
| "wire m (SysSetMark _ m' # cs) = wire m' cs"
| "wire m (SysSendto _ p addr # cs) = (p, addr, m) # wire m cs"
| "wire m (_ # cs) = wire m cs"

definition complete_ipv4 :: "bytes \<Rightarrow> bool" where
  "complete_ipv4 p \<longleftrightarrow> 20 \<le> length p \<and> drop_bit 4 (p ! 0) = 4"

text \<open>When a \<open>Send\<close> hands its packet to the kernel: the sender is open, the packet is complete and the mark was set.\<close>

definition hands_over :: "RawIPv4Sender option \<Rightarrow> bytes \<Rightarrow> errno option \<Rightarrow> bool" where
  "hands_over s p setmark_result \<longleftrightarrow>
     (case s of None \<Rightarrow> False | Some r \<Rightarrow> 0 \<le> fd r) \<and> complete_ipv4 p \<and> setmark_result = None"

lemma Send_handed_over:
  assumes "hands_over (Some r) p a"
  shows "Send (Some r) p mark a b =
     Some (map_option SendErrno b, [SysSetMark (fd r) (uint mark), SysSendto (fd r) p (take 4 (drop 16 p))])"
proof -
  have "p \<noteq> []" "20 \<le> length p" "length (take 4 (drop 16 p)) = 4"
    using assms by (auto simp: hands_over_def complete_ipv4_def)
  then show ?thesis
    using assms
    by (simp add: Send_def hands_over_def complete_ipv4_def idx_def slice_def copy_at_def int_of_def)
qed

lemma Send_not_handed_over:
  assumes "\<not> hands_over s p a"
  shows "\<exists>e cs. Send s p mark a b = Some (Some e, cs) \<and> (cs = [] \<or> (\<exists>d m. cs = [SysSetMark d m]))"
proof (cases s)
  case (Some r)
  show ?thesis
  proof (cases "complete_ipv4 p")
    case True
    then have "p \<noteq> []" "20 \<le> length p" by (auto simp: complete_ipv4_def)
    with True Some assms show ?thesis
      by (auto simp: Send_def hands_over_def complete_ipv4_def idx_def)
  next
    case False
    then show ?thesis by (cases "p = []") (auto simp: Some Send_def complete_ipv4_def idx_def)
  qed
qed (simp add: Send_def)

text \<open>A sequence of sends, serialized by the mutex, with the results of their system calls.\<close>

fun send_all ::
  "RawIPv4Sender option \<Rightarrow> (bytes \<times> u32 \<times> errno option \<times> errno option) list \<Rightarrow> (send_error option list \<times> syscall list) option" where
  "send_all s [] = Some ([], [])"
| "send_all s ((p, mark, a, b) # xs) = do {
     (e, cs) \<leftarrow> Send s p mark a b;
     (es, cs') \<leftarrow> send_all s xs;
     Some (e # es, cs @ cs') }"

text \<open>
  C18. Sends never panic, and although the mark is a property of the shared socket, what leaves the
  machine is exactly the sequence of the packets that were handed over, each with the mark of its own
  \<open>Send\<close> and addressed to the destination address of its own IPv4 header. A \<open>Send\<close>
  reports success exactly if its packet was handed over and the kernel took it.
\<close>

theorem Send_mark_and_destination:
  "\<exists>es cs. send_all s xs = Some (es, cs)
     \<and> (\<forall>m. wire m cs = map (\<lambda>(p, mark, _). (p, take 4 (drop 16 p), uint mark))
                          (filter (\<lambda>(p, _, a, _). hands_over s p a) xs))
     \<and> map (\<lambda>e. e = None) es = map (\<lambda>(p, _, a, b). hands_over s p a \<and> b = None) xs"
proof (induction xs)
  case (Cons x xs)
  obtain p mark a b where x: "x = (p, mark, a, b)" by (metis prod.exhaust)
  show ?case
  proof (cases "hands_over s p a")
    case True
    then obtain r where "s = Some r" by (auto simp: hands_over_def split: option.splits)
    with True Cons Send_handed_over [of r p a mark b] show ?thesis by (auto simp: x)
  next
    case False
    with Cons Send_not_handed_over [of s p a mark b] show ?thesis by (fastforce simp: x)
  qed
qed simp

lemma Send_total: "\<exists>e cs. Send s p mark a b = Some (e, cs)"
proof (cases "hands_over s p a")
  case True
  then obtain r where "s = Some r" by (auto simp: hands_over_def split: option.splits)
  with True Send_handed_over show ?thesis by blast
next
  case False
  then show ?thesis using Send_not_handed_over by blast
qed

end
