(* ===== verification/Split_Window.thy ===== *)
theory Split_Window
  imports Prelude
begin

text \<open>
  \<open>splitPayloadWindowState\<close> of \<open>src/cmd/nfqcooldown/main.go\<close>: the first payload
  packet to a client passes unchanged and opens a window in which later ones are split. The map
  is keyed by the four address bytes; reading a missing key gives the zero time.
\<close>

type_synonym ip4 = bytes

record splitPayloadWindowState =
  lastPass :: "ip4 \<rightharpoonup> time"

definition newSplitPayloadWindowState :: splitPayloadWindowState where
  "newSplitPayloadWindowState = \<lparr>lastPass = Map.empty\<rparr>"

definition window_decide ::
  "splitPayloadWindowState \<Rightarrow> ip4 \<Rightarrow> time \<Rightarrow> duration \<Rightarrow> (bool \<times> duration) \<times> splitPayloadWindowState" where
  "window_decide s clientIP now window =
     (let last = (case lastPass s clientIP of None \<Rightarrow> 0 | Some t \<Rightarrow> t)
      in if time_IsZero last \<or> window \<le> time_Sub now last
         then ((False, if time_IsZero last then 0 else time_Sub now last),
               s\<lparr>lastPass := (lastPass s)(clientIP \<mapsto> now)\<rparr>)
         else ((True, time_Sub now last), s))"

definition window_cleanup ::
  "splitPayloadWindowState \<Rightarrow> time \<Rightarrow> duration \<Rightarrow> splitPayloadWindowState \<times> nat" where
  "window_cleanup s now ttl =
     (let expired = (\<lambda>last. ttl < time_Sub now last)
      in (s\<lparr>lastPass := map_remove expired (lastPass s)\<rparr>, map_removed expired (lastPass s)))"

subsection \<open>Specification\<close>

text \<open>
  The abstract window: per client the time of the last packet that passed. A packet passes if it
  is the first or the window has elapsed since the last one that passed.
\<close>

definition spec_decide :: "(ip4 \<rightharpoonup> time) \<Rightarrow> ip4 \<Rightarrow> time \<Rightarrow> duration \<Rightarrow> bool \<times> (ip4 \<rightharpoonup> time)" where
  "spec_decide m ip now window =
     (if \<forall>p. m ip = Some p \<longrightarrow> window \<le> now - p then (False, m(ip \<mapsto> now)) else (True, m))"

datatype window_call = WDecide ip4 time | WCleanup time

text \<open>
  A run with the configured window, which is also the time to live of the cleanup; the outcome of
  each decision is recorded. The specification ignores cleanups.
\<close>

fun window_run :: "duration \<Rightarrow> window_call list \<Rightarrow> splitPayloadWindowState \<Rightarrow> bool list \<times> splitPayloadWindowState" where
  "window_run w [] s = ([], s)"
| "window_run w (WDecide ip now # cs) s =
     (case window_decide s ip now w of ((split, _), s') \<Rightarrow>
        (case window_run w cs s' of (bs, s'') \<Rightarrow> (split # bs, s'')))"
| "window_run w (WCleanup now # cs) s = window_run w cs (fst (window_cleanup s now w))"

fun spec_run :: "duration \<Rightarrow> window_call list \<Rightarrow> (ip4 \<rightharpoonup> time) \<Rightarrow> bool list" where
  "spec_run w [] m = []"
| "spec_run w (WDecide ip now # cs) m =
     (case spec_decide m ip now w of (split, m') \<Rightarrow> split # spec_run w cs m')"
| "spec_run w (WCleanup now # cs) m = spec_run w cs m"

fun window_call_time :: "window_call \<Rightarrow> time" where
  "window_call_time (WDecide _ t) = t"
| "window_call_time (WCleanup t) = t"

text \<open>
  The clock does not run backwards between a call and a later decision, and is past Go's zero time.
\<close>

fun window_ordered :: "time \<Rightarrow> window_call list \<Rightarrow> bool" where
  "window_ordered c [] \<longleftrightarrow> True"
| "window_ordered c (WDecide _ t # cs) \<longleftrightarrow> c \<le> t \<and> window_ordered t cs"
| "window_ordered c (WCleanup t # cs) \<longleftrightarrow> window_ordered (max c t) cs"

text \<open>
  Simulation: the entries agree with the specification, except that an entry whose window has
  passed may be missing.
\<close>

definition window_sim :: "duration \<Rightarrow> time \<Rightarrow> splitPayloadWindowState \<Rightarrow> (ip4 \<rightharpoonup> time) \<Rightarrow> bool" where
  "window_sim w c s m \<longleftrightarrow> (\<forall>ip. lastPass s ip = m ip \<or> (lastPass s ip = None \<and> (\<exists>p. m ip = Some p \<and> w \<le> c - p)))
     \<and> (\<forall>ip p. m ip = Some p \<longrightarrow> 0 < p \<and> p \<le> c)"

lemma window_sim_later: "window_sim w c s m \<Longrightarrow> c \<le> c' \<Longrightarrow> window_sim w c' s m"
  by (fastforce simp: window_sim_def)

lemma window_sim_entry:
  "window_sim w c s m \<Longrightarrow> lastPass s ip = m ip \<or> (lastPass s ip = None \<and> (\<exists>p. m ip = Some p \<and> w \<le> c - p))"
  by (simp add: window_sim_def)

lemma window_sim_time: "window_sim w c s m \<Longrightarrow> m ip = Some p \<Longrightarrow> 0 < p \<and> p \<le> c"
  by (simp add: window_sim_def)

lemma window_sim_update:
  "window_sim w now s m \<Longrightarrow> 0 < now \<Longrightarrow> window_sim w now (s\<lparr>lastPass := (lastPass s)(ip \<mapsto> now)\<rparr>) (m(ip \<mapsto> now))"
  by (simp add: window_sim_def)

lemma decide_refines:
  assumes "window_sim w c s m" "c \<le> now" "0 < now" "0 \<le> w" "w \<le> MaxInt64"
    and "window_decide s ip now w = ((split, since), s')" "spec_decide m ip now w = (split', m')"
  shows "split' = split \<and> window_sim w now s' m'"
proof -
  have sim: "window_sim w now s m" using window_sim_later assms(1,2) by blast
  show ?thesis
  proof (cases "lastPass s ip")
    case None
    then have "\<forall>p. m ip = Some p \<longrightarrow> w \<le> now - p"
      using window_sim_entry [OF sim, of ip] by auto
    then show ?thesis
      using None window_sim_update [OF sim assms(3), of ip] assms(6,7)
      by (auto simp: window_decide_def spec_decide_def time_IsZero_def)
  next
    case (Some p)
    then have m: "m ip = Some p" using window_sim_entry [OF sim, of ip] by auto
    moreover from this have "p \<noteq> 0" using window_sim_time [OF sim] by fastforce
    ultimately show ?thesis
      using Some sim window_sim_update [OF sim assms(3), of ip] assms(4-7)
      by (auto simp: window_decide_def spec_decide_def time_IsZero_def time_Sub_ge_iff split: if_splits)
  qed
qed

lemma cleanup_refines:
  assumes "window_sim w c s m" "0 \<le> w"
  shows "window_sim w (max c now) (fst (window_cleanup s now w)) m"
proof -
  have sim: "window_sim w (max c now) s m" using window_sim_later [OF assms(1)] by simp
  have gone: "w \<le> max c now - p" if "w < time_Sub now p" for p
    using that assms(2) time_Sub_lower [of w now p] by simp
  have "lastPass (fst (window_cleanup s now w)) ip = m ip \<or>
     (lastPass (fst (window_cleanup s now w)) ip = None \<and> (\<exists>p. m ip = Some p \<and> w \<le> max c now - p))" for ip
    using window_sim_entry [OF sim, of ip] gone
    by (cases "lastPass s ip"; cases "m ip") (auto simp: window_cleanup_def Let_def map_remove_def)
  then show ?thesis using window_sim_time [OF sim] by (simp add: window_sim_def)
qed

lemma window_run_refines:
  assumes "window_sim w c s m" "window_ordered c cs" "0 < c" "0 \<le> w" "w \<le> MaxInt64"
  shows "fst (window_run w cs s) = spec_run w cs m"
  using assms
proof (induction cs arbitrary: s m c)
  case (Cons x cs)
  show ?case
  proof (cases x)
    case (WDecide ip now)
    obtain b since s' where d: "window_decide s ip now w = ((b, since), s')" by (metis prod.exhaust)
    obtain b' m' where e: "spec_decide m ip now w = (b', m')" by (metis prod.exhaust)
    have "b' = b" "window_sim w now s' m'"
      using decide_refines [OF Cons.prems(1) _ _ _ _ d e] Cons.prems WDecide by auto
    then show ?thesis
      using Cons.IH [of now s' m'] Cons.prems WDecide d e by (auto split: prod.splits)
  next
    case (WCleanup now)
    then show ?thesis
      using Cons.IH [OF cleanup_refines [OF Cons.prems(1,4), of now]] Cons.prems by auto
  qed
qed simp

text \<open>
  C17. The window map refines its specification under every interleaving of decisions and cleanups
  in clock order: a packet passes exactly if it is the first to that client or the window has
  elapsed since the last one that passed, and is split otherwise. Cleaning up expired entries
  never changes a decision.
\<close>

theorem split_window_refines:
  assumes "window_ordered c cs" "0 < c" "0 \<le> w" "w \<le> MaxInt64"
  shows "fst (window_run w cs newSplitPayloadWindowState) = spec_run w cs Map.empty"
proof -
  have "window_sim w c newSplitPayloadWindowState Map.empty"
    by (simp add: window_sim_def newSplitPayloadWindowState_def)
  then show ?thesis using assms by (intro window_run_refines)
qed

theorem split_window_refines_witness:
  "fst (window_run 100 [WDecide [10, 0, 0, 1] 1000, WDecide [10, 0, 0, 1] 1099, WCleanup 1101, WDecide [10, 0, 0, 1] 1102]
      newSplitPayloadWindowState) = [False, True, False]"
  by (subst split_window_refines [of 1]) (simp_all add: spec_decide_def)

end
