(* ===== verification/Daemon.thy ===== *)
theory Daemon
  imports Payload_Split Parser Fake_Packet Client_State Stats Whitelist Config Raw_Sender Split_Window
begin

text \<open>
  The packet handler of \<open>src/cmd/nfqcooldown/main.go\<close> and the state \<open>main\<close> shares
  between the handler, the goroutines it starts and the periodic loops.

  \<^item> A handler invocation is a function on the record \<open>daemon\<close>; \<open>None\<close> is a panic
    (an index out of range) or a draw from the random source that does not return. What the code
    asks its environment for (clock readings, the results of system calls and of the one verdict whose
    error is tested, random bytes) is the record \<open>env\<close>, one field per place that asks.
  \<^item> Effects on the outside are appended to \<open>outputs\<close> in order. Of a log line the model
    keeps the tag, the first word of its format.
  \<^item> A goroutine that was started is an entry of \<open>releases\<close> or \<open>second_sends\<close>.
  \<^item> The pacers are shared through pointers: \<open>pacers\<close> is the store, and
    \<open>burstPacerByIP\<close> and the release goroutines hold addresses.
\<close>

subsection \<open>Data\<close>

record shapeFlowKey =
  fk_ClientIP :: string
  fk_ClientPort :: u16
  fk_ServerPort :: u16
  fk_Seq :: u32

record burstPacerState =
  LastRelease :: time
  pacer_LastSeen :: time
  Pending :: bool

definition burstPacer_zero :: burstPacerState where
  "burstPacer_zero = \<lparr>LastRelease = 0, pacer_LastSeen = 0, Pending = False\<rparr>"

record splitSegmentKey =
  key_SrcIP :: bytes
  key_DstIP :: bytes
  key_SrcPort :: u16
  key_DstPort :: u16
  key_Seq :: u32
  key_PayloadLen :: int

record attribute =
  attr_PacketID :: "u32 option"
  attr_Payload :: "bytes option"
  attr_Mark :: "u32 option"

datatype verdict = NfDrop | NfAccept

datatype effect =
    SetVerdict u32 verdict
  | SetVerdictWithMark u32 verdict int
  | SetVerdictModPacketWithConnMark u32 verdict int bytes bool
  | Syscall syscall
  | Sleep duration
  | Printed string
  | PrintedErr string
  | CancelContext
  | CloseQueue

text \<open>The program counter of the goroutine that releases a delayed packet.\<close>

datatype release_pc = R_Sleep | R_DeleteFlow | R_Count | R_Verdict | R_Exit

record release_task =
  rt_pc :: release_pc
  rt_packetID :: u32
  rt_ip :: string
  rt_key :: shapeFlowKey
  rt_delay :: duration
  rt_pacer :: nat
  rt_started :: time

text \<open>The goroutine that sends a second segment; after a failed send it has still to forget the key.\<close>

record second_task =
  ss_packet :: bytes
  ss_mark :: u32
  ss_key :: splitSegmentKey
  ss_failed :: bool

text \<open>
  A sweep of \<open>shapeCleanupLoop\<close> over the pacers: the tick that started it, the keys
  \<open>Range\<close> has still to visit, the number removed so far, and a key found stale but not yet deleted.
\<close>

record shape_sweep =
  sweep_now :: time
  sweep_todo :: "string list"
  sweep_removed :: nat
  sweep_stale :: "string option"

text \<open>The same for a sweep of \<open>splitSeenCleanupLoop\<close> over the remembered segments.\<close>

record seen_sweep =
  seen_now :: time
  seen_todo :: "splitSegmentKey list"
  seen_removed :: nat
  seen_stale :: "splitSegmentKey option"

record daemon =
  state :: "Algorithm State"
  counters :: Counters
  pendingDelays :: int
  burstPacerByIP :: "string \<rightharpoonup> nat"
  pacers :: "nat \<Rightarrow> burstPacerState"
  next_pacer :: nat
  shapePendingFlows :: "shapeFlowKey \<rightharpoonup> bool"
  splitSeen :: "splitSegmentKey \<rightharpoonup> time"
  splitPayloadWindow :: splitPayloadWindowState
  rawSender :: "RawIPv4Sender option"
  rand_source :: rng
  releases :: "release_task list"
  second_sends :: "second_task list"
  shapeSweep :: "shape_sweep option"
  seenSweep :: "seen_sweep option"
  outputs :: "effect list"

text \<open>
  The drop action calls the client table several times, each time under its lock, and the cleanup loop may run in
  between: \<open>cleanups_decided\<close> and \<open>cleanups_counted\<close> are the times of the cleanups that run after
  \<open>Decide\<close> and after \<open>IncDrop\<close>.
\<close>

record env =
  now_window :: time
  now_passed :: time
  now_seen :: time
  now_second :: time
  now_main :: time
  now_force :: time
  random_bytes :: crypto_rand
  fake_setmark :: "errno option"
  fake_sendto :: "errno option"
  second_setmark :: "errno option"
  second_sendto :: "errno option"
  mod_verdict_ok :: bool
  cleanups_decided :: "time list"
  cleanups_counted :: "time list"

subsection \<open>Effects\<close>

definition emit :: "effect \<Rightarrow> daemon \<Rightarrow> daemon" where
  "emit x d = d\<lparr>outputs := outputs d @ [x]\<rparr>"

definition emit_all :: "effect list \<Rightarrow> daemon \<Rightarrow> daemon" where
  "emit_all xs d = d\<lparr>outputs := outputs d @ xs\<rparr>"

definition logVerbose :: "Config \<Rightarrow> string \<Rightarrow> daemon \<Rightarrow> daemon" where
  "logVerbose cfg tag d = (if Verbose cfg then emit (Printed tag) d else d)"

definition remember :: "LastEvent \<Rightarrow> daemon \<Rightarrow> daemon" where
  "remember ev d = d\<lparr>state := RememberEvent (state d) ev\<rparr>"

definition bump :: "(Counters \<Rightarrow> Counters) \<Rightarrow> daemon \<Rightarrow> daemon" where
  "bump inc d = d\<lparr>counters := inc (counters d)\<rparr>"

text \<open>A loop that removed something says so. One tick of \<open>cleanupLoop\<close>, and several.\<close>

definition report :: "nat \<Rightarrow> string \<Rightarrow> daemon \<Rightarrow> daemon" where
  "report removed what d = (if 0 < removed then emit (Printed what) d else d)"

definition cleanupLoop_tick :: "Config \<Rightarrow> time \<Rightarrow> daemon \<Rightarrow> daemon" where
  "cleanupLoop_tick cfg now d =
     (case Cleanup (state d) now (CleanupAfter cfg) of
        (s, removed) \<Rightarrow> report removed ''cleanup removed'' (d\<lparr>state := s\<rparr>))"

fun cleanup_ticks :: "Config \<Rightarrow> time list \<Rightarrow> daemon \<Rightarrow> daemon" where
  "cleanup_ticks cfg [] d = d"
| "cleanup_ticks cfg (t # ts) d = cleanup_ticks cfg ts (cleanupLoop_tick cfg t d)"

definition accept :: "u32 \<Rightarrow> daemon \<Rightarrow> daemon" where
  "accept pid = emit (SetVerdict pid NfAccept)"

definition dropOrReject :: "Config \<Rightarrow> u32 \<Rightarrow> u32 option \<Rightarrow> daemon \<Rightarrow> daemon" where
  "dropOrReject cfg pid packetMark d =
     (if \<not> RejectMarkEnabled cfg then emit (SetVerdict pid NfDrop) d
      else let mark = RejectMarkValue cfg;
               mark = (case packetMark of None \<Rightarrow> mark | Some m \<Rightarrow> mark OR m)
           in emit (SetVerdictWithMark pid NfAccept (int_of mark)) d)"

definition skip_mark_matches :: "Config \<Rightarrow> u32 option \<Rightarrow> bool" where
  "skip_mark_matches cfg packetMark \<longleftrightarrow>
     SkipMarkEnabled cfg \<and>
     (case packetMark of None \<Rightarrow> False
      | Some m \<Rightarrow> m AND SkipMarkMask cfg = SkipMarkValue cfg AND SkipMarkMask cfg)"

subsection \<open>Splitting payload packets\<close>

text \<open>\<open>copy(key[:], ip.To4())\<close> into a zeroed array of four bytes.\<close>

definition ip_key :: "bytes \<Rightarrow> bytes" where
  "ip_key ip = (case IP_To4 ip of None \<Rightarrow> [0, 0, 0, 0] | Some b \<Rightarrow> b)"

definition split_key :: "TCPPayloadInfo \<Rightarrow> splitSegmentKey" where
  "split_key info = \<lparr>key_SrcIP = ip_key (SrcIP info), key_DstIP = ip_key (DstIP info), key_SrcPort = SrcPort info,
     key_DstPort = DstPort info, key_Seq = Seq info, key_PayloadLen = PayloadLen info\<rparr>"

definition second_key :: "Config \<Rightarrow> TCPPayloadInfo \<Rightarrow> splitSegmentKey" where
  "second_key cfg info = (split_key info)\<lparr>key_Seq := Seq info + word_of_int (SplitAt cfg),
     key_PayloadLen := PayloadLen info - SplitAt cfg\<rparr>"

definition seen_store :: "splitSegmentKey \<Rightarrow> time \<Rightarrow> daemon \<Rightarrow> daemon" where
  "seen_store k t d = d\<lparr>splitSeen := (splitSeen d)(k \<mapsto> t)\<rparr>"

definition seen_delete :: "splitSegmentKey \<Rightarrow> daemon \<Rightarrow> daemon" where
  "seen_delete k d = d\<lparr>splitSeen := (splitSeen d)(k := None)\<rparr>"

definition raw_send :: "bytes \<Rightarrow> u32 \<Rightarrow> errno option \<Rightarrow> errno option \<Rightarrow> daemon \<Rightarrow> (send_error option \<times> daemon) option" where
  "raw_send packet mark setmark sendto d = do {
     (err, calls) \<leftarrow> Send (rawSender d) packet mark setmark sendto;
     Some (err, emit_all (map Syscall calls) d) }"

definition segment_mark :: "Config \<Rightarrow> u32 option \<Rightarrow> u32" where
  "segment_mark cfg packetMark =
     (let mark = SplitMarkValue cfg in case packetMark of None \<Rightarrow> mark | Some m \<Rightarrow> mark OR m)"

text \<open>The fake before the real packet. \<open>Inl\<close>: the handler has returned; \<open>Inr\<close>: it goes on to split.\<close>

definition send_fake ::
  "Config \<Rightarrow> u32 \<Rightarrow> bytes \<Rightarrow> u32 \<Rightarrow> splitSegmentKey \<Rightarrow> env \<Rightarrow> daemon \<Rightarrow> (daemon + daemon) option" where
  "send_fake cfg pid pkt mark splitKey e d = do {
     r \<leftarrow> cloneWithFakePayloadAndBadTCPChecksum pkt (FakePayload cfg) (FakeLength cfg) (random_bytes e);
     (case r of
        Inl _ \<Rightarrow> Some (Inl (accept pid (logVerbose cfg ''FAKE-BAD-CHECKSUM-SKIP'' (seen_delete splitKey d))))
      | Inr (fake, _, _, _) \<Rightarrow> do {
          (err, d) \<leftarrow> raw_send fake mark (fake_setmark e) (fake_sendto e) d;
          if err \<noteq> None then
            Some (Inl (accept pid (emit (PrintedErr ''fake bad-checksum raw send failed'') (seen_delete splitKey d))))
          else
            let d = logVerbose cfg ''FAKE-BAD-CHECKSUM-SENT'' d;
                d = (if 0 < FakeDelay cfg then emit (Sleep (FakeDelay cfg)) d else d)
            in if \<not> SplitReverse cfg then
                 let d = emit (SetVerdictModPacketWithConnMark pid NfAccept (int_of mark) pkt (mod_verdict_ok e)) d
                 in if \<not> mod_verdict_ok e then
                      Some (Inl (accept pid (emit (PrintedErr ''fake original verdict failed'') (seen_delete splitKey d))))
                    else Some (Inl (logVerbose cfg ''FAKE-BAD-CHECKSUM-ORIGINAL'' d))
               else Some (Inr (logVerbose cfg ''FAKE-BAD-CHECKSUM-BEFORE-REVERSE'' d)) })
   }"

definition send_reverse ::
  "Config \<Rightarrow> u32 \<Rightarrow> bytes \<Rightarrow> bytes \<Rightarrow> u32 \<Rightarrow> splitSegmentKey \<Rightarrow> splitSegmentKey \<Rightarrow> env \<Rightarrow> daemon \<Rightarrow> daemon option" where
  "send_reverse cfg pid first second mark splitKey secondKey e d = do {
     let d = seen_store secondKey (now_second e) d;
     (err, d) \<leftarrow> raw_send second mark (second_setmark e) (second_sendto e) d;
     if err \<noteq> None then
       Some (accept pid (emit (PrintedErr ''reverse split raw send failed'')
              (seen_delete secondKey (seen_delete splitKey d))))
     else
       let d = logVerbose cfg ''SPLIT-REVERSE-RAW-SENT'' d;
           d = (if 0 < SplitDelay cfg then emit (Sleep (SplitDelay cfg)) d else d);
           d = emit (SetVerdictModPacketWithConnMark pid NfAccept (int_of mark) first (mod_verdict_ok e)) d
       in if \<not> mod_verdict_ok e then
            Some (accept pid (emit (PrintedErr ''reverse split verdict failed'') (seen_delete splitKey d)))
          else Some (logVerbose cfg ''SPLIT-REVERSE'' d)
   }"

definition send_forward ::
  "Config \<Rightarrow> u32 \<Rightarrow> bytes \<Rightarrow> bytes \<Rightarrow> u32 \<Rightarrow> splitSegmentKey \<Rightarrow> splitSegmentKey \<Rightarrow> env \<Rightarrow> daemon \<Rightarrow> daemon" where
  "send_forward cfg pid first second mark splitKey secondKey e d =
     (let d = emit (SetVerdictModPacketWithConnMark pid NfAccept (int_of mark) first (mod_verdict_ok e)) d
      in if \<not> mod_verdict_ok e then
           accept pid (emit (PrintedErr ''split verdict failed'') (seen_delete splitKey d))
         else if SplitProbe cfg then logVerbose cfg ''SPLIT-PROBE'' d
         else let d = seen_store secondKey (now_second e) d;
                  d = d\<lparr>second_sends := second_sends d @ [\<lparr>ss_packet = second, ss_mark = mark, ss_key = secondKey,
                    ss_failed = False\<rparr>]\<rparr>
              in logVerbose cfg ''SPLIT'' d)"

definition send_segments ::
  "Config \<Rightarrow> u32 \<Rightarrow> bytes \<Rightarrow> TCPPayloadInfo \<Rightarrow> u32 \<Rightarrow> env \<Rightarrow> daemon \<Rightarrow> daemon option" where
  "send_segments cfg pid pkt info mark e d = do {
     s \<leftarrow> SplitIPv4TCPPacket pkt info (SplitAt cfg);
     (case s of
        Inl _ \<Rightarrow> Some (accept pid (logVerbose cfg ''SPLIT-SKIP'' (seen_delete (split_key info) d)))
      | Inr (first, second) \<Rightarrow>
          let secondKey = second_key cfg info
          in if SplitReverse cfg then send_reverse cfg pid first second mark (split_key info) secondKey e d
             else Some (send_forward cfg pid first second mark (split_key info) secondKey e d))
   }"

definition split_packet ::
  "Config \<Rightarrow> u32 \<Rightarrow> u32 option \<Rightarrow> bytes \<Rightarrow> TCPPayloadInfo \<Rightarrow> env \<Rightarrow> daemon \<Rightarrow> daemon option" where
  "split_packet cfg pid packetMark pkt info e d = do {
     let d = seen_store (split_key info) (now_seen e) d;
     let mark = segment_mark cfg packetMark;
     r \<leftarrow> (if FakeBadChecksum cfg then send_fake cfg pid pkt mark (split_key info) e d else Some (Inr d));
     (case r of
        Inl d \<Rightarrow> Some d
      | Inr d \<Rightarrow> send_segments cfg pid pkt info mark e d)
   }"

definition handle_payload ::
  "Config \<Rightarrow> u32 \<Rightarrow> u32 option \<Rightarrow> bytes \<Rightarrow> env \<Rightarrow> daemon \<Rightarrow> daemon option" where
  "handle_payload cfg pid packetMark pkt e d = do {
     (info, ok) \<leftarrow> ParseIPv4TCPPayload pkt;
     if \<not> ok then Some (accept pid d)
     else if skip_mark_matches cfg packetMark then Some (accept pid d)
     else if splitSeen d (split_key info) \<noteq> None then
       Some (accept pid (logVerbose cfg ''SPLIT-RETRANSMIT-PASS'' d))
     else if 0 < PassWindow cfg then
       (case window_decide (splitPayloadWindow d) (ip_key (DstIP info)) (now_window e) (PassWindow cfg) of
          ((shouldSplit, _), w) \<Rightarrow>
            let d = d\<lparr>splitPayloadWindow := w\<rparr>
            in if \<not> shouldSplit then
                 Some (accept pid (logVerbose cfg ''SPLIT-PASS-WINDOW'' (seen_store (split_key info) (now_passed e) d)))
               else split_packet cfg pid packetMark pkt info e (logVerbose cfg ''SPLIT-ACTIVE-WINDOW'' d))
     else split_packet cfg pid packetMark pkt info e d
   }"

subsection \<open>Shaping\<close>

text \<open>\<open>burstPacerByIP.LoadOrStore(ip, &burstPacerState{})\<close>.\<close>

definition load_pacer :: "string \<Rightarrow> daemon \<Rightarrow> nat \<times> daemon" where
  "load_pacer ip d =
     (case burstPacerByIP d ip of
        Some a \<Rightarrow> (a, d)
      | None \<Rightarrow> (next_pacer d, d\<lparr>burstPacerByIP := (burstPacerByIP d)(ip \<mapsto> next_pacer d),
                   pacers := (pacers d)(next_pacer d := burstPacer_zero), next_pacer := next_pacer d + 1\<rparr>))"

definition set_pacer :: "nat \<Rightarrow> burstPacerState \<Rightarrow> daemon \<Rightarrow> daemon" where
  "set_pacer a p d = d\<lparr>pacers := (pacers d)(a := p)\<rparr>"

text \<open>The branches that drop: count, remember the event if there is one, log, give the verdict.\<close>

definition shape_drop :: "Config \<Rightarrow> u32 \<Rightarrow> u32 option \<Rightarrow> LastEvent option \<Rightarrow> string \<Rightarrow> daemon \<Rightarrow> daemon" where
  "shape_drop cfg pid packetMark ev tag d =
     (let d = bump IncDelayOverflowDropped d;
          d = (case ev of None \<Rightarrow> d | Some ev \<Rightarrow> remember ev d)
      in dropOrReject cfg pid packetMark (logVerbose cfg tag d))"

definition shape_accept :: "Config \<Rightarrow> u32 \<Rightarrow> string \<Rightarrow> time \<Rightarrow> nat \<Rightarrow> daemon \<Rightarrow> daemon" where
  "shape_accept cfg pid srcIP now a d =
     (let d = set_pacer a \<lparr>LastRelease = now, pacer_LastSeen = now, Pending = False\<rparr> d;
          d = bump IncAccepted d;
          d = remember (event ''SHAPE-ACCEPT'' srcIP pid) d
      in accept pid (logVerbose cfg ''SHAPE-ACCEPT'' d))"

definition shape_delay ::
  "Config \<Rightarrow> u32 \<Rightarrow> string \<Rightarrow> shapeFlowKey \<Rightarrow> time \<Rightarrow> duration \<Rightarrow> nat \<Rightarrow> daemon \<Rightarrow> daemon" where
  "shape_delay cfg pid srcIP flowKey now actualDelay a d =
     (let d = set_pacer a ((pacers d a)\<lparr>Pending := True\<rparr>) d;
          d = d\<lparr>shapePendingFlows := (shapePendingFlows d)(flowKey \<mapsto> True)\<rparr>;
          d = bump IncDelayed d;
          d = d\<lparr>pendingDelays := wrap64 (pendingDelays d + 1)\<rparr>;
          d = remember ((event ''SHAPE-DELAY'' srcIP pid)\<lparr>ev_Remaining := actualDelay\<rparr>) d;
          d = logVerbose cfg ''SHAPE-DELAY'' d
      in d\<lparr>releases := releases d @ [\<lparr>rt_pc = R_Sleep, rt_packetID = pid, rt_ip = srcIP, rt_key = flowKey,
             rt_delay = actualDelay, rt_pacer = a, rt_started = now\<rparr>]\<rparr>)"

definition handle_shape ::
  "Config \<Rightarrow> u32 \<Rightarrow> u32 option \<Rightarrow> string \<Rightarrow> PacketInfo \<Rightarrow> time \<Rightarrow> daemon \<Rightarrow> daemon" where
  "handle_shape cfg pid packetMark srcIP synInfo now d =
     (let flowKey = \<lparr>fk_ClientIP = ClientIP synInfo, fk_ClientPort = ClientPort synInfo,
                      fk_ServerPort = ServerPort synInfo, fk_Seq = pi_Seq synInfo\<rparr>
      in if shapePendingFlows d flowKey \<noteq> None then
           shape_drop cfg pid packetMark (Some (event ''SHAPE-FLOW-PENDING-DROP'' srcIP pid)) ''SHAPE-FLOW-PENDING-DROP'' d
         else
           let (a, d) = load_pacer srcIP d;
               p = pacers d a;
               d = set_pacer a (p\<lparr>pacer_LastSeen := now\<rparr>) d
           in if time_IsZero (LastRelease p) \<or> BurstInterval cfg \<le> time_Sub now (LastRelease p)
              then shape_accept cfg pid srcIP now a d
              else
                let actualDelay = wrap64 (BurstInterval cfg - time_Sub now (LastRelease p));
                    actualDelay = (if actualDelay < 0 then 0 else actualDelay)
                in if 0 < BurstMaxDelay cfg \<and> BurstMaxDelay cfg < actualDelay then
                     shape_drop cfg pid packetMark
                       (Some ((event ''SHAPE-OVERFLOW-DROP'' srcIP pid)\<lparr>ev_Remaining := actualDelay\<rparr>))
                       ''SHAPE-OVERFLOW-DROP'' d
                   else if Pending p then
                     shape_drop cfg pid packetMark
                       (Some ((event ''SHAPE-IP-PENDING-DROP'' srcIP pid)\<lparr>ev_Remaining := actualDelay\<rparr>))
                       ''SHAPE-IP-PENDING-DROP'' d
                   else if 0 < MaxPendingDelays cfg \<and> MaxPendingDelays cfg \<le> pendingDelays d then
                     shape_drop cfg pid packetMark None ''SHAPE-PENDING-DROP'' d
                   else shape_delay cfg pid srcIP flowKey now actualDelay a d)"

subsection \<open>Dropping within the cooldown\<close>

definition handle_drop ::
  "Config \<Rightarrow> u32 \<Rightarrow> u32 option \<Rightarrow> string \<Rightarrow> time \<Rightarrow> env \<Rightarrow> daemon \<Rightarrow> daemon option" where
  "handle_drop cfg pid packetMark srcIP now e d = do {
     (dec, s, g) \<leftarrow> Decide Next (state d) srcIP now pid (rand_source d);
     let d = d\<lparr>state := s, rand_source := g\<rparr>;
     if d_allowed dec then Some (accept pid (logVerbose cfg ''ACCEPT'' (bump IncAccepted d)))
     else do {
       let d = cleanup_ticks cfg (cleanups_decided e) d;
       let (s, dropCount) = IncDrop (state d) srcIP;
       let d = cleanup_ticks cfg (cleanups_counted e) (d\<lparr>state := s\<rparr>);
       if 0 < MaxDropsPerIP cfg \<and> MaxDropsPerIP cfg < dropCount then do {
         (_, _, s, g) \<leftarrow> ForceAccept Next (state d) srcIP (now_force e) pid (rand_source d);
         let d = d\<lparr>state := s, rand_source := g\<rparr>;
         Some (accept pid (logVerbose cfg ''FORCE-ACCEPT'' (bump IncAccepted d)))
       }
       else
         let d = bump IncDropped d;
             d = remember ((event ''DROP'' srcIP pid)\<lparr>ev_Cooldown := d_cooldown dec, ev_Elapsed := d_elapsed dec,
                             ev_Remaining := d_remaining dec\<rparr>) d;
             d = (if ForgetOnDrop cfg then d\<lparr>state := Forget (state d) srcIP\<rparr> else d)
         in Some (dropOrReject cfg pid packetMark (logVerbose cfg ''DROP'' d))
     }
   }"

subsection \<open>The handler\<close>

text \<open>The \<open>switch cfg.Packet\<close>: the client address and the SYN's fields of a packet that matches.\<close>

definition match_packet :: "Config \<Rightarrow> bytes \<Rightarrow> (string \<times> PacketInfo) option option" where
  "match_packet cfg pkt =
     (if Packet cfg = ''syn'' then do {
        (info, ok) \<leftarrow> ParseIPv4PureTCPSYNInfo pkt;
        Some (if ok then Some (ClientIP info, info) else None) }
      else if Packet cfg = ''synack'' then do {
        (info, ok) \<leftarrow> ParseIPv4TCPSYNACK pkt;
        Some (if ok then Some (ClientIP info, PacketInfo_zero) else None) }
      else Some None)"

definition handle_matched ::
  "Config \<Rightarrow> Whitelist \<Rightarrow> u32 \<Rightarrow> u32 option \<Rightarrow> string \<Rightarrow> PacketInfo \<Rightarrow> env \<Rightarrow> daemon \<Rightarrow> daemon option" where
  "handle_matched cfg wl pid packetMark srcIP synInfo e d =
     (if skip_mark_matches cfg packetMark then
        Some (accept pid (logVerbose cfg ''ACCEPT-SKIP-MARK''
               (bump IncAccepted (remember (event ''ACCEPT-SKIP-MARK'' srcIP pid) d))))
      else do {
        listed \<leftarrow> Whitelist_Contains wl srcIP;
        if listed then
          Some (accept pid (logVerbose cfg ''ACCEPT-WHITELIST''
                 (bump IncAccepted (remember (event ''ACCEPT-WHITELIST'' srcIP pid) d))))
        else if Action cfg = ''shape'' then Some (handle_shape cfg pid packetMark srcIP synInfo (now_main e) d)
        else handle_drop cfg pid packetMark srcIP (now_main e) e d
      })"

definition handler :: "Config \<Rightarrow> Whitelist \<Rightarrow> attribute \<Rightarrow> env \<Rightarrow> daemon \<Rightarrow> daemon option" where
  "handler cfg wl a e d =
     (case attr_PacketID a of
        None \<Rightarrow> Some d
      | Some pid \<Rightarrow>
          (case attr_Payload a of
             None \<Rightarrow> Some (accept pid d)
           | Some pkt \<Rightarrow>
               if Packet cfg = ''payload'' then handle_payload cfg pid (attr_Mark a) pkt e d
               else do {
                 m \<leftarrow> match_packet cfg pkt;
                 (case m of
                    None \<Rightarrow> Some (accept pid d)
                  | Some (srcIP, synInfo) \<Rightarrow> handle_matched cfg wl pid (attr_Mark a) srcIP synInfo e d)
               }))"

end
