(* ===== verification/Handler_Proofs.thy ===== *)
theory Handler_Proofs
  imports Daemon
begin

text \<open>
  What one invocation of the handler does: it never panics and always returns, it settles its
  packet exactly once (one successful verdict, or one goroutine that will give it), and the
  parts of the state it leaves alone.
\<close>

subsection \<open>Verdicts\<close>

text \<open>The packets an effect settles: a verdict that the kernel took.\<close>

fun settled :: "effect \<Rightarrow> u32 list" where
  "settled (SetVerdict pid v) = [pid]"
| "settled (SetVerdictWithMark pid v m) = [pid]"
| "settled (SetVerdictModPacketWithConnMark pid v m p ok) = (if ok then [pid] else [])"
| "settled _ = []"

definition settled_ids :: "effect list \<Rightarrow> u32 list" where
  "settled_ids os = concat (map settled os)"

lemma settled_ids_simps [simp]:
  "settled_ids [] = []" "settled_ids (x # xs) = settled x @ settled_ids xs"
  "settled_ids (xs @ ys) = settled_ids xs @ settled_ids ys"
  by (simp_all add: settled_ids_def)

lemma settled_syscalls [simp]: "settled_ids (map Syscall cs) = []"
  by (induction cs) auto

lemma settled_printed [simp]: "settled_ids (map Printed xs) = []"
  by (induction xs) auto

text \<open>
  \<open>adds pids d d'\<close>: from \<open>d\<close> to \<open>d'\<close> effects and release goroutines were added that
  together account for the packets \<open>pids\<close>, one each.
\<close>

definition adds :: "u32 list \<Rightarrow> daemon \<Rightarrow> daemon \<Rightarrow> bool" where
  "adds pids d d' \<longleftrightarrow> (\<exists>os rs. outputs d' = outputs d @ os \<and> releases d' = releases d @ rs
     \<and> list_all (\<lambda>r. rt_pc r = R_Sleep) rs \<and> settled_ids os @ map rt_packetID rs = pids)"

lemma adds_trans: "adds xs d d' \<Longrightarrow> adds [] d' d'' \<Longrightarrow> adds xs d d''"
  by (fastforce simp: adds_def)

lemma adds_then: "adds [] d d' \<Longrightarrow> adds xs d' d'' \<Longrightarrow> adds xs d d''"
  by (fastforce simp: adds_def)

lemmas effect_defs = emit_def emit_all_def logVerbose_def remember_def bump_def accept_def dropOrReject_def
  seen_store_def seen_delete_def set_pacer_def

named_theorems adds_rules \<open>what the steps of the handler add\<close>

lemma adds_refl [adds_rules]: "adds [] d d"
  by (simp add: adds_def)

lemma adds_fields:
  "outputs d' = outputs d \<Longrightarrow> releases d' = releases d \<Longrightarrow> adds [] d d'"
  by (simp add: adds_def)

lemma adds_quiet [adds_rules]:
  "adds [] d (logVerbose cfg tag d)" "adds [] d (remember ev d)" "adds [] d (bump f d)"
  "adds [] d (seen_store k t d)" "adds [] d (seen_delete k d)" "adds [] d (set_pacer a p d)"
  "adds [] d (emit (Sleep t) d)" "adds [] d (emit (PrintedErr s) d)" "adds [] d (emit (Printed s) d)"
  "adds [] d (emit_all (map Syscall cs) d)"
  by (auto simp: adds_def effect_defs)

lemma adds_verdict [adds_rules]:
  "adds [pid] d (accept pid d)" "adds [pid] d (dropOrReject cfg pid m d)"
  "adds (if ok then [pid] else []) d (emit (SetVerdictModPacketWithConnMark pid v k p ok) d)"
  by (auto simp: adds_def effect_defs Let_def split: option.splits)

lemma accept_adds: "adds [] d d' \<Longrightarrow> adds [pid] d (accept pid d')"
  by (rule adds_then [OF _ adds_verdict(1)])

lemma quiet_adds:
  "adds xs d d' \<Longrightarrow> adds xs d (logVerbose cfg tag d')"
  "adds xs d d' \<Longrightarrow> adds xs d (remember ev d')"
  "adds xs d d' \<Longrightarrow> adds xs d (bump f d')"
  "adds xs d d' \<Longrightarrow> adds xs d (seen_store k t d')"
  "adds xs d d' \<Longrightarrow> adds xs d (seen_delete k d')"
  "adds xs d d' \<Longrightarrow> adds xs d (set_pacer a p d')"
  "adds xs d d' \<Longrightarrow> adds xs d (emit (Sleep t) d')"
  "adds xs d d' \<Longrightarrow> adds xs d (emit (PrintedErr s) d')"
  "adds xs d d' \<Longrightarrow> adds xs d (emit_all (map Syscall cs) d')"
  by (auto intro: adds_trans adds_quiet)

lemma field_adds:
  "adds xs d d' \<Longrightarrow> adds xs d (d'\<lparr>state := s\<rparr>)"
  "adds xs d d' \<Longrightarrow> adds xs d (d'\<lparr>rand_source := g\<rparr>)"
  "adds xs d d' \<Longrightarrow> adds xs d (d'\<lparr>state := s, rand_source := g\<rparr>)"
  "adds xs d d' \<Longrightarrow> adds xs d (d'\<lparr>splitPayloadWindow := w\<rparr>)"
  "adds xs d d' \<Longrightarrow> adds xs d (d'\<lparr>second_sends := ts\<rparr>)"
  "adds xs d d' \<Longrightarrow> adds xs d (d'\<lparr>shapePendingFlows := fl\<rparr>)"
  "adds xs d d' \<Longrightarrow> adds xs d (d'\<lparr>pendingDelays := n\<rparr>)"
  by (auto simp: adds_def)

lemma drop_adds: "adds [] d d' \<Longrightarrow> adds [pid] d (dropOrReject cfg pid m d')"
  by (rule adds_then [OF _ adds_verdict(2)])

lemma mod_ok_adds:
  "ok \<Longrightarrow> adds [] d d' \<Longrightarrow> adds [pid] d (emit (SetVerdictModPacketWithConnMark pid v m p ok) d')"
  "\<not> ok \<Longrightarrow> adds [] d d' \<Longrightarrow> adds [] d (emit (SetVerdictModPacketWithConnMark pid v m p ok) d')"
  using adds_then [OF _ adds_verdict(3) [of ok pid d' v m p], of d] by simp_all

lemmas adds_intros = adds_refl accept_adds drop_adds quiet_adds field_adds mod_ok_adds

subsection \<open>Totality and accounting of the payload branch\<close>

lemma raw_send_total:
  "\<exists>err cs. raw_send p m a b d = Some (err, emit_all (map Syscall cs) d)"
  using Send_total [of "rawSender d" p m a b] by (auto simp: raw_send_def)

lemma send_fake_ok:
  assumes "ParseIPv4TCPPayload pkt = Some (info, True)"
  shows "\<exists>r. send_fake cfg pid pkt mark k e d = Some r
     \<and> (case r of Inl d' \<Rightarrow> adds [pid] d d' | Inr d' \<Rightarrow> adds [] d d' \<and> SplitReverse cfg)"
proof -
  obtain r where r: "cloneWithFakePayloadAndBadTCPChecksum pkt (FakePayload cfg) (FakeLength cfg) (random_bytes e) = Some r"
    using clone_parsed_total [OF assms] by blast
  show ?thesis
  proof (cases r)
    case (Inl x)
    then show ?thesis using r by (auto simp: send_fake_def intro!: adds_intros)
  next
    case (Inr x)
    obtain fake o1 o2 o3 where x: "x = (fake, o1, o2, o3)" by (metis prod.exhaust)
    obtain err cs where s: "raw_send fake mark (fake_setmark e) (fake_sendto e) d = Some (err, emit_all (map Syscall cs) d)"
      using raw_send_total by blast
    show ?thesis
      using r Inr x s by (auto simp: send_fake_def Let_def intro!: adds_intros)
  qed
qed

lemma send_reverse_ok:
  "\<exists>d'. send_reverse cfg pid f s mark k k2 e d = Some d' \<and> adds [pid] d d'"
proof -
  obtain err cs where r: "raw_send s mark (second_setmark e) (second_sendto e) (seen_store k2 (now_second e) d)
      = Some (err, emit_all (map Syscall cs) (seen_store k2 (now_second e) d))"
    using raw_send_total by blast
  show ?thesis by (auto simp: send_reverse_def Let_def r intro!: adds_intros)
qed

lemma send_forward_adds: "adds [pid] d (send_forward cfg pid f s mark k k2 e d)"
  by (auto simp: send_forward_def Let_def intro!: adds_intros)

lemma send_segments_ok:
  assumes "ParseIPv4TCPPayload pkt = Some (info, True)"
  shows "\<exists>d'. send_segments cfg pid pkt info mark e d = Some d' \<and> adds [pid] d d'"
  using Split_parsed [OF assms, of "SplitAt cfg"] send_reverse_ok send_forward_adds
  by (auto simp: send_segments_def Let_def intro!: adds_intros)

lemma split_packet_ok:
  assumes "ParseIPv4TCPPayload pkt = Some (info, True)"
  shows "\<exists>d'. split_packet cfg pid m pkt info e d = Some d' \<and> adds [pid] d d'"
proof -
  let ?d = "seen_store (split_key info) (now_seen e) d" and ?m = "segment_mark cfg m"
  have d: "adds [] d ?d" by (rule adds_quiet)
  have segs: "\<exists>d'. send_segments cfg pid pkt info ?m e d1 = Some d' \<and> adds [pid] d d'" if "adds [] ?d d1" for d1
    using send_segments_ok [OF assms] that adds_then d by blast
  show ?thesis
  proof (cases "FakeBadChecksum cfg")
    case True
    obtain r where "send_fake cfg pid pkt ?m (split_key info) e ?d = Some r"
        "case r of Inl d' \<Rightarrow> adds [pid] ?d d' | Inr d' \<Rightarrow> adds [] ?d d' \<and> SplitReverse cfg"
      using send_fake_ok [OF assms] by blast
    then show ?thesis
      using True segs adds_then [OF d] by (cases r) (auto simp: split_packet_def Let_def)
  next
    case False
    then show ?thesis using segs [OF adds_refl] by (simp add: split_packet_def Let_def)
  qed
qed

lemma handle_payload_ok:
  "\<exists>d'. handle_payload cfg pid m pkt e d = Some d' \<and> adds [pid] d d'"
proof (cases "payload_match pkt")
  case False
  then show ?thesis
    using ParsePayload_no_match by (auto simp: handle_payload_def intro!: adds_intros)
next
  case True
  then have p: "ParseIPv4TCPPayload pkt = Some (payload_fields pkt, True)" by (rule ParsePayload_match)
  obtain b t w where w: "window_decide (splitPayloadWindow d) (ip_key (DstIP (payload_fields pkt))) (now_window e) (PassWindow cfg)
      = ((b, t), w)" by (metis prod.exhaust)
  show ?thesis
  proof (cases "0 < PassWindow cfg \<and> b")
    case True
    let ?d = "logVerbose cfg ''SPLIT-ACTIVE-WINDOW'' (d\<lparr>splitPayloadWindow := w\<rparr>)"
    have "adds [] d ?d" by (intro adds_intros)
    then obtain d' where "split_packet cfg pid m pkt (payload_fields pkt) e ?d = Some d'" "adds [pid] d d'"
      using split_packet_ok [OF p] adds_then by blast
    with True show ?thesis by (auto simp: handle_payload_def p w Let_def intro!: adds_intros)
  next
    case False
    then show ?thesis
      using split_packet_ok [OF p, of cfg pid m e d]
      by (auto simp: handle_payload_def p w Let_def intro!: adds_intros)
  qed
qed

subsection \<open>Totality and accounting of the other branches\<close>

lemma load_pacer_adds: "adds [] d (snd (load_pacer ip d))"
  by (simp add: load_pacer_def adds_def split: option.split)

lemma shape_drop_adds: "adds [] d d' \<Longrightarrow> adds [pid] d (shape_drop cfg pid m ev tag d')"
  by (auto simp: shape_drop_def Let_def intro!: adds_intros split: option.split)

lemma shape_accept_adds: "adds [] d d' \<Longrightarrow> adds [pid] d (shape_accept cfg pid ip now a d')"
  by (auto simp: shape_accept_def Let_def intro!: adds_intros)

lemma release_adds: "adds [] d d' \<Longrightarrow> rt_pc r = R_Sleep \<Longrightarrow> adds [rt_packetID r] d (d'\<lparr>releases := releases d' @ [r]\<rparr>)"
  by (fastforce simp: adds_def)

lemma shape_delay_adds: "adds [] d d' \<Longrightarrow> adds [pid] d (shape_delay cfg pid ip fk now dl a d')"
  unfolding shape_delay_def Let_def
  by (rule release_adds [where r = "release_task.make R_Sleep pid ip fk dl a now", unfolded release_task.defs, simplified])
     (intro adds_intros)

lemma handle_shape_adds: "adds [pid] d (handle_shape cfg pid m ip info now d)"
proof -
  obtain a d1 where l: "load_pacer ip d = (a, d1)" by (metis prod.exhaust)
  have d1: "adds [] d (set_pacer a p d1)" for p
    using load_pacer_adds [of d ip] l by (auto intro: adds_intros)
  show ?thesis
    unfolding handle_shape_def Let_def l
    using shape_drop_adds shape_accept_adds shape_delay_adds d1 adds_refl by simp
qed

text \<open>Cleanups of the client table remove clients and print, and leave everything else alone.\<close>

fun sweep_clients :: "duration \<Rightarrow> time list \<Rightarrow> (string \<rightharpoonup> ClientState) \<Rightarrow> (string \<rightharpoonup> ClientState)" where
  "sweep_clients keep [] m = m"
| "sweep_clients keep (t # ts) m =
     sweep_clients keep ts (map_remove (\<lambda>st. time_Before (LastSeen st) (time_Add t (wrap64 (- keep)))) m)"

lemma cleanup_ticks_fields [simp]:
  "counters (cleanup_ticks cfg ts d) = counters d" "pendingDelays (cleanup_ticks cfg ts d) = pendingDelays d"
  "burstPacerByIP (cleanup_ticks cfg ts d) = burstPacerByIP d" "pacers (cleanup_ticks cfg ts d) = pacers d"
  "next_pacer (cleanup_ticks cfg ts d) = next_pacer d" "shapePendingFlows (cleanup_ticks cfg ts d) = shapePendingFlows d"
  "splitSeen (cleanup_ticks cfg ts d) = splitSeen d" "splitPayloadWindow (cleanup_ticks cfg ts d) = splitPayloadWindow d"
  "rawSender (cleanup_ticks cfg ts d) = rawSender d" "rand_source (cleanup_ticks cfg ts d) = rand_source d"
  "releases (cleanup_ticks cfg ts d) = releases d" "second_sends (cleanup_ticks cfg ts d) = second_sends d"
  "shapeSweep (cleanup_ticks cfg ts d) = shapeSweep d" "seenSweep (cleanup_ticks cfg ts d) = seenSweep d"
  "algorithm (state (cleanup_ticks cfg ts d)) = algorithm (state d)"
  by (induction ts arbitrary: d) (simp_all add: cleanupLoop_tick_def report_def emit_def Cleanup_def Let_def split_beta)

lemma cleanup_ticks_clients [simp]:
  "clients (state (cleanup_ticks cfg ts d)) = sweep_clients (CleanupAfter cfg) ts (clients (state d))"
  by (induction ts arbitrary: d) (simp_all add: cleanupLoop_tick_def report_def emit_def Cleanup_def Let_def split_beta)

lemma cleanup_ticks_outputs:
  "\<exists>n. outputs (cleanup_ticks cfg ts d) = outputs d @ replicate n (Printed ''cleanup removed'')"
proof (induction ts arbitrary: d)
  case (Cons t ts)
  obtain n where "outputs (cleanup_ticks cfg ts (cleanupLoop_tick cfg t d)) =
      outputs (cleanupLoop_tick cfg t d) @ replicate n (Printed ''cleanup removed'')" using Cons.IH by blast
  moreover have "outputs (cleanupLoop_tick cfg t d) = outputs d
      \<or> outputs (cleanupLoop_tick cfg t d) = outputs d @ replicate 1 (Printed ''cleanup removed'')"
    by (simp add: cleanupLoop_tick_def report_def emit_def split_beta)
  ultimately show ?case by (metis cleanup_ticks.simps(2) append.assoc replicate_add)
qed (simp add: exI [of _ 0])

lemma settled_replicate_printed [simp]: "settled_ids (replicate n (Printed s)) = []"
  by (induction n) auto

lemma cleanup_ticks_settled [simp]: "settled_ids (outputs (cleanup_ticks cfg ts d)) = settled_ids (outputs d)"
  using cleanup_ticks_outputs [of cfg ts d] by auto

lemma cleanup_adds:
  assumes "adds xs d d'"
  shows "adds xs d (cleanup_ticks cfg ts d')"
proof -
  obtain n where "outputs (cleanup_ticks cfg ts d') = outputs d' @ replicate n (Printed ''cleanup removed'')"
    using cleanup_ticks_outputs by blast
  then have "adds [] d' (cleanup_ticks cfg ts d')" by (simp add: adds_def)
  with assms show ?thesis by (rule adds_trans)
qed

lemma sweep_clients_Some: "sweep_clients keep ts m ip = Some st \<Longrightarrow> m ip = Some st"
proof (induction ts arbitrary: m)
  case (Cons t ts)
  then show ?case by (metis sweep_clients.simps(2) map_remove_Some_iff)
qed simp

lemma handle_drop_ok:
  assumes "valid_algorithm (algorithm (state d))" "fair_rng (rand_source d)"
  shows "\<exists>d'. handle_drop cfg pid m ip now e d = Some d' \<and> adds [pid] d d'
     \<and> fair_rng (rand_source d') \<and> algorithm (state d') = algorithm (state d)"
proof -
  obtain dec s g where D: "Decide Next (state d) ip now pid (rand_source d) = Some (dec, s, g)" and g: "fair_rng g"
    using alg.Decide_total [OF assms] by blast
  have as: "algorithm s = algorithm (state d)" using D by (cases rule: alg.Decide_cases) auto
  define d1 where "d1 = cleanup_ticks cfg (cleanups_decided e) (d\<lparr>state := s, rand_source := g\<rparr>)"
  define d2 where "d2 = cleanup_ticks cfg (cleanups_counted e) (d1\<lparr>state := fst (IncDrop (state d1) ip)\<rparr>)"
  have a: "algorithm (state d2) = algorithm (state d)" "valid_algorithm (algorithm (state d2))" "rand_source d2 = g"
    using assms(1) as by (simp_all add: d2_def d1_def)
  have ad: "adds [] d d2" by (auto simp: d2_def d1_def intro!: cleanup_adds adds_intros)
  obtain cd ev s2 g2 where F: "ForceAccept Next (state d2) ip (now_force e) pid g = Some (cd, ev, s2, g2)"
    and g2: "fair_rng g2"
    using alg.ForceAccept_total [OF a(2) g] by blast
  have s2: "algorithm s2 = algorithm (state d)" using alg.ForceAccept_cases(2) [OF F] a(1) by simp
  consider (granted) "d_allowed dec"
    | (counted) "\<not> d_allowed dec" by blast
  then show ?thesis
  proof cases
    case granted
    then show ?thesis using D g as by (auto simp: handle_drop_def Let_def effect_defs adds_def)
  next
    case counted
    have "\<exists>d'. (handle_drop cfg pid m ip now e d = Some d') \<and> adds [pid] d2 d'
       \<and> fair_rng (rand_source d') \<and> algorithm (state d') = algorithm (state d)"
      using counted D F g g2 a s2 unfolding handle_drop_def
      by (auto simp: Let_def effect_defs adds_def split_beta simp flip: d1_def d2_def split: option.split)
    then show ?thesis using adds_then [OF ad] by blast
  qed
qed

lemma match_packet_total: "\<exists>m. match_packet cfg pkt = Some m"
proof -
  have "\<exists>i b. ParseIPv4PureTCPSYNInfo pkt = Some (i, b)"
    using ParseSYN_match [of pkt] ParseSYN_no_match [of pkt] by blast
  moreover have "\<exists>i b. ParseIPv4TCPSYNACK pkt = Some (i, b)"
    using ParseSYNACK_match [of pkt] ParseSYNACK_no_match [of pkt] by blast
  ultimately show ?thesis by (auto simp: match_packet_def)
qed

text \<open>The parts of the state one branch of the handler never touches.\<close>

lemma handle_shape_frame [frame]:
  "rand_source (handle_shape cfg pid m ip info now d) = rand_source d"
  "clients (state (handle_shape cfg pid m ip info now d)) = clients (state d)"
  "algorithm (state (handle_shape cfg pid m ip info now d)) = algorithm (state d)"
  by (auto simp: handle_shape_def Let_def split_beta load_pacer_def shape_drop_def shape_accept_def shape_delay_def
      effect_defs RememberEvent_def split: option.split)

lemma handle_matched_ok:
  assumes "valid_algorithm (algorithm (state d))" "fair_rng (rand_source d)" "list_all net_ok (nets wl)"
  shows "\<exists>d'. handle_matched cfg wl pid m ip info e d = Some d' \<and> adds [pid] d d'
     \<and> fair_rng (rand_source d') \<and> algorithm (state d') = algorithm (state d)"
proof -
  obtain b where b: "Whitelist_Contains wl ip = Some b" using Whitelist_Contains_total [OF assms(3)] by auto
  have quick: "\<exists>d'. Some (accept pid (logVerbose cfg tag (bump IncAccepted (remember ev d)))) = Some d' \<and> adds [pid] d d'
     \<and> fair_rng (rand_source d') \<and> algorithm (state d') = algorithm (state d)" for tag ev
    using assms by (auto simp: effect_defs RememberEvent_def adds_def)
  show ?thesis
    unfolding handle_matched_def b
    using quick handle_drop_ok [OF assms(1,2)] handle_shape_adds handle_shape_frame assms(2)
    by simp
qed

subsection \<open>Outputs\<close>

text \<open>What \<open>logVerbose\<close> and an optional sleep put out.\<close>

definition log_line :: "Config \<Rightarrow> string \<Rightarrow> effect list" where
  "log_line cfg tag = (if Verbose cfg then [Printed tag] else [])"

definition nap :: "duration \<Rightarrow> effect list" where
  "nap t = (if 0 < t then [Sleep t] else [])"

subsection \<open>The branches of the shape action\<close>

text \<open>What the shape action does, one case per kind of outcome: \<open>d2\<close> is the state with the pacer loaded and touched.\<close>

lemma handle_shape_cases:
  assumes "load_pacer ip d = (a, d1)" "d2 = set_pacer a ((pacers d1 a)\<lparr>pacer_LastSeen := now\<rparr>) d1"
    and "fk = \<lparr>fk_ClientIP = ClientIP info, fk_ClientPort = ClientPort info, fk_ServerPort = ServerPort info, fk_Seq = pi_Seq info\<rparr>"
    and "dl = max 0 (wrap64 (BurstInterval cfg - time_Sub now (LastRelease (pacers d1 a))))"
  obtains (flow) ev tag where "shapePendingFlows d fk \<noteq> None" "handle_shape cfg pid m ip info now d = shape_drop cfg pid m ev tag d"
  | (accept) "time_IsZero (LastRelease (pacers d1 a)) \<or> BurstInterval cfg \<le> time_Sub now (LastRelease (pacers d1 a))"
      "handle_shape cfg pid m ip info now d = shape_accept cfg pid ip now a d2"
  | (drop) ev tag where "\<not> time_IsZero (LastRelease (pacers d1 a))"
      "handle_shape cfg pid m ip info now d = shape_drop cfg pid m ev tag d2"
  | (delay) "\<not> time_IsZero (LastRelease (pacers d1 a))" "time_Sub now (LastRelease (pacers d1 a)) < BurstInterval cfg"
      "0 < BurstMaxDelay cfg \<longrightarrow> dl \<le> BurstMaxDelay cfg" "\<not> Pending (pacers d1 a)"
      "handle_shape cfg pid m ip info now d = shape_delay cfg pid ip fk now dl a d2"
proof -
  have dl: "(if x < 0 then 0 else x) = max 0 x" for x :: int by auto
  let ?h = "handle_shape cfg pid m ip info now d"
  have h: "?h = (if shapePendingFlows d fk \<noteq> None then
           shape_drop cfg pid m (Some (event ''SHAPE-FLOW-PENDING-DROP'' ip pid)) ''SHAPE-FLOW-PENDING-DROP'' d
         else if time_IsZero (LastRelease (pacers d1 a)) \<or> BurstInterval cfg \<le> time_Sub now (LastRelease (pacers d1 a))
              then shape_accept cfg pid ip now a d2
              else if 0 < BurstMaxDelay cfg \<and> BurstMaxDelay cfg < dl then
                     shape_drop cfg pid m
                       (Some ((event ''SHAPE-OVERFLOW-DROP'' ip pid)\<lparr>ev_Remaining := dl\<rparr>)) ''SHAPE-OVERFLOW-DROP'' d2
                   else if Pending (pacers d1 a) then
                     shape_drop cfg pid m
                       (Some ((event ''SHAPE-IP-PENDING-DROP'' ip pid)\<lparr>ev_Remaining := dl\<rparr>)) ''SHAPE-IP-PENDING-DROP'' d2
                   else if 0 < MaxPendingDelays cfg \<and> MaxPendingDelays cfg \<le> pendingDelays d2 then
                     shape_drop cfg pid m None ''SHAPE-PENDING-DROP'' d2
                   else shape_delay cfg pid ip fk now dl a d2)"
    unfolding handle_shape_def Let_def assms dl by simp
  show thesis
    using h flow accept drop delay by (auto split: if_splits)
qed

subsection \<open>What the split action leaves alone\<close>

text \<open>
  Handling a payload packet writes the output, the two split tables and the list of second
  segments and nothing else: a part of the state that does not depend on these is unchanged.
\<close>

locale split_frame =
  fixes part :: "daemon \<Rightarrow> 'a"
  assumes part_outputs: "part (d\<lparr>outputs := os\<rparr>) = part d"
    and part_seen: "part (d\<lparr>splitSeen := m\<rparr>) = part d"
    and part_window: "part (d\<lparr>splitPayloadWindow := w\<rparr>) = part d"
    and part_second: "part (d\<lparr>second_sends := ts\<rparr>) = part d"
    and part_seenSweep: "part (d\<lparr>seenSweep := sw\<rparr>) = part d"
begin

lemma part_effects [simp]:
  "part (emit x d) = part d" "part (emit_all xs d) = part d" "part (logVerbose cfg tag d) = part d"
  "part (accept pid d) = part d" "part (dropOrReject cfg pid m d) = part d"
  "part (seen_store k t d) = part d" "part (seen_delete k d) = part d"
  by (simp_all add: effect_defs Let_def part_outputs part_seen)

lemma raw_send_part: "raw_send p m a b d = Some (err, d') \<Longrightarrow> part d' = part d"
  by (auto simp: raw_send_def split: bind_splits)

lemma send_fake_part:
  "send_fake cfg pid pkt mark k e d = Some r \<Longrightarrow> part (case r of Inl d' \<Rightarrow> d' | Inr d' \<Rightarrow> d') = part d"
  by (auto simp: send_fake_def Let_def dest!: raw_send_part split: bind_splits sum.splits prod.splits if_splits)

lemma send_segments_part: "send_segments cfg pid pkt info mark e d = Some d' \<Longrightarrow> part d' = part d"
  by (auto simp: send_segments_def send_reverse_def send_forward_def Let_def part_second dest!: raw_send_part
      split: bind_splits sum.splits prod.splits if_splits)

lemma split_packet_part: "split_packet cfg pid m pkt info e d = Some d' \<Longrightarrow> part d' = part d"
  by (auto simp: split_packet_def Let_def dest!: send_fake_part send_segments_part
      split: bind_splits sum.splits if_splits)

lemma handle_payload_part: "handle_payload cfg pid m pkt e d = Some d' \<Longrightarrow> part d' = part d"
  by (auto simp: handle_payload_def Let_def part_window dest!: split_packet_part
      split: bind_splits if_splits prod.splits)

end

end
