(* ===== verification/Printing.thy ===== *)
theory Printing
  imports Config Client_State
begin

text \<open>
  The lines \<open>printStartupConfig\<close> and \<open>printStats\<close> of
  \<open>src/cmd/nfqcooldown/main.go\<close> print, with the verbs of package \<open>fmt\<close> they use and
  \<open>time.Duration.String\<close>.
\<close>

subsection \<open>Verbs\<close>

definition fmt_d :: "int \<Rightarrow> string" where
  "fmt_d n = (if n < 0 then CHR ''-'' # itoa (nat (- n)) else itoa (nat n))"

definition fmt_u :: "'a::len word \<Rightarrow> string" where
  "fmt_u w = itoa (unat w)"

definition fmt_x :: "u32 \<Rightarrow> string" where
  "fmt_x w = print_base 16 (unat w)"

definition fmt_v :: "bool \<Rightarrow> string" where
  "fmt_v b = (if b then ''true'' else ''false'')"

subsection \<open>time.Duration.String\<close>

text \<open>
  \<open>fmtFrac\<close>: the lowest \<open>prec\<close> digits of \<open>v\<close> as a fraction without trailing zeros, and
  the rest of \<open>v\<close>. The text is built from the right, as in the code.
\<close>

fun fmtFrac_loop :: "nat \<Rightarrow> nat \<Rightarrow> bool \<Rightarrow> string \<Rightarrow> bool \<times> string \<times> nat" where
  "fmtFrac_loop 0 v printing buf = (printing, buf, v)"
| "fmtFrac_loop (Suc i) v printing buf =
     (let dg = v mod 10; printing = (printing \<or> dg \<noteq> 0)
      in fmtFrac_loop i (v div 10) printing (if printing then digit dg # buf else buf))"

definition fmtFrac :: "nat \<Rightarrow> nat \<Rightarrow> string \<Rightarrow> string \<times> nat" where
  "fmtFrac v prec buf =
     (case fmtFrac_loop prec v False buf of (printing, b, rest) \<Rightarrow> (if printing then CHR ''.'' # b else b, rest))"

text \<open>\<open>fmtInt\<close> prints \<open>0\<close> as one digit.\<close>

definition Duration_String :: "duration \<Rightarrow> string" where
  "Duration_String d =
     (let u = nat (abs d);
          txt =
            (if u = 0 then ''0s''
             else if u < 1000000000 then
               (let (sfx, prec) =
                  (if u < 1000 then (''ns'', 0) else if u < 1000000 then ([CHR 0xC2, CHR 0xB5, CHR ''s''], 3) else (''ms'', 6));
                    (buf, v) = fmtFrac u prec sfx
                in itoa v @ buf)
             else
               (let (buf, secs) = fmtFrac u 9 ''s'';
                    buf = itoa (secs mod 60) @ buf;
                    mins = secs div 60
                in if mins = 0 then buf
                   else let buf = itoa (mins mod 60) @ CHR ''m'' # buf;
                            hours = mins div 60
                        in if hours = 0 then buf else itoa hours @ CHR ''h'' # buf))
      in if d < 0 then CHR ''-'' # txt else txt)"

subsection \<open>The startup line\<close>

definition startup_split :: "Config \<Rightarrow> string" where
  "startup_split cfg =
     ''[nfqcooldown] started queue='' @ fmt_u (QueueNum cfg) @ '' action=split packet=payload split_at='' @ fmt_d (SplitAt cfg)
     @ '' split_delay='' @ Duration_String (SplitDelay cfg) @ '' split_mark=0x'' @ fmt_x (SplitMarkValue cfg)
     @ '' split_seen_ttl='' @ Duration_String (SplitSeenTTL cfg) @ '' split_probe='' @ fmt_v (SplitProbe cfg)
     @ '' split_reverse='' @ fmt_v (SplitReverse cfg) @ '' fake_bad_checksum='' @ fmt_v (FakeBadChecksum cfg)
     @ '' fake_payload='' @ FakePayload cfg @ '' fake_length='' @ fmt_d (FakeLength cfg)
     @ '' fake_delay='' @ Duration_String (FakeDelay cfg) @ '' pass_window='' @ Duration_String (PassWindow cfg)
     @ '' skip_mark='' @ formatSkipMark cfg @ '' verbose='' @ fmt_v (Verbose cfg) @ [CHR 0x0A]"

definition startup_shape :: "Config \<Rightarrow> int \<Rightarrow> string" where
  "startup_shape cfg whitelistCount =
     ''[nfqcooldown] started queue='' @ fmt_u (QueueNum cfg) @ '' action=shape packet='' @ Packet cfg
     @ '' burst_interval='' @ Duration_String (BurstInterval cfg) @ '' burst_max_delay='' @ Duration_String (BurstMaxDelay cfg)
     @ '' max_pending_delays='' @ fmt_d (MaxPendingDelays cfg) @ '' cleanup_every='' @ Duration_String (CleanupEvery cfg)
     @ '' cleanup_after='' @ Duration_String (CleanupAfter cfg) @ '' whitelist='' @ fmt_d whitelistCount
     @ '' skip_mark='' @ formatSkipMark cfg @ '' reject_mark='' @ formatRejectMark cfg
     @ '' verbose='' @ fmt_v (Verbose cfg) @ '' seed='' @ fmt_d (Seed cfg) @ [CHR 0x0A]"

definition startup_drop :: "Config \<Rightarrow> int \<Rightarrow> string" where
  "startup_drop cfg whitelistCount =
     ''[nfqcooldown] started queue='' @ fmt_u (QueueNum cfg) @ '' action=drop packet='' @ Packet cfg
     @ (if Mode cfg = ''random'' then
          '' mode=random min='' @ Duration_String (MinDelay cfg) @ '' max='' @ Duration_String (MaxDelay cfg)
        else if Mode cfg = ''jitter'' then
          '' mode=jitter cooldown='' @ Duration_String (cfg_Cooldown cfg) @ '' jitter='' @ Duration_String (Jitter cfg)
        else '' mode=fixed cooldown='' @ Duration_String (cfg_Cooldown cfg))
     @ '' max_drops_per_ip='' @ fmt_d (MaxDropsPerIP cfg) @ '' forget_on_drop='' @ fmt_v (ForgetOnDrop cfg)
     @ '' cleanup_every='' @ Duration_String (CleanupEvery cfg) @ '' cleanup_after='' @ Duration_String (CleanupAfter cfg)
     @ '' whitelist='' @ fmt_d whitelistCount @ '' skip_mark='' @ formatSkipMark cfg
     @ '' reject_mark='' @ formatRejectMark cfg @ '' verbose='' @ fmt_v (Verbose cfg)
     @ '' seed='' @ fmt_d (Seed cfg) @ [CHR 0x0A]"

text \<open>The lines printed: none for an action that is none of the three.\<close>

definition printStartupConfig :: "Config \<Rightarrow> int \<Rightarrow> string list" where
  "printStartupConfig cfg whitelistCount =
     (if Action cfg = ''split'' then [startup_split cfg]
      else if Action cfg = ''shape'' then [startup_shape cfg whitelistCount]
      else if Action cfg = ''drop'' then [startup_drop cfg whitelistCount]
      else [])"

subsection \<open>The statistics line\<close>

definition printStats :: "Config \<Rightarrow> nat \<Rightarrow> u64 \<Rightarrow> u64 \<Rightarrow> u64 \<Rightarrow> LastEvent \<Rightarrow> string list" where
  "printStats cfg tracked accepted delayed dropped ev =
     (if Action cfg = ''shape'' then
        [''[nfqcooldown] accepted='' @ fmt_u accepted @ '' delayed='' @ fmt_u delayed @ '' dropped='' @ fmt_u dropped
         @ '' tracked_ips='' @ itoa tracked @ '' action=shape packet='' @ Packet cfg
         @ '' burst_interval='' @ Duration_String (BurstInterval cfg) @ '' burst_max_delay='' @ Duration_String (BurstMaxDelay cfg)
         @ '' max_pending_delays='' @ fmt_d (MaxPendingDelays cfg) @ '' last='' @ ev_Type ev @ '' ip='' @ ev_IP ev
         @ '' packet_id='' @ fmt_u (ev_PacketID ev) @ '' remaining='' @ Duration_String (ev_Remaining ev) @ [CHR 0x0A]]
      else if Action cfg = ''drop'' then
        [''[nfqcooldown] accepted='' @ fmt_u accepted @ '' dropped='' @ fmt_u dropped
         @ '' tracked_ips='' @ itoa tracked @ '' action=drop packet='' @ Packet cfg
         @ (if Mode cfg = ''random'' then
              '' mode=random min='' @ Duration_String (MinDelay cfg) @ '' max='' @ Duration_String (MaxDelay cfg)
            else if Mode cfg = ''jitter'' then
              '' mode=jitter cooldown='' @ Duration_String (cfg_Cooldown cfg) @ '' jitter='' @ Duration_String (Jitter cfg)
            else '' mode=fixed cooldown='' @ Duration_String (cfg_Cooldown cfg))
         @ '' max_drops_per_ip='' @ fmt_d (MaxDropsPerIP cfg) @ '' last='' @ ev_Type ev @ '' ip='' @ ev_IP ev
         @ '' packet_id='' @ fmt_u (ev_PacketID ev) @ '' actual_cooldown='' @ Duration_String (ev_Cooldown ev)
         @ '' elapsed='' @ Duration_String (ev_Elapsed ev) @ '' remaining='' @ Duration_String (ev_Remaining ev) @ [CHR 0x0A]]
      else [])"

end
