(* ===== verification/Daemon_Steps.thy ===== *)
theory Daemon_Steps
  imports Handler_Proofs Printing
begin

text \<open>
  The rest of \<open>main\<close>: the goroutines the handler starts, the periodic loops and the startup,
  and the runs of the daemon as sequences of labelled steps.

  The netlink library calls the handler from one goroutine, so one invocation is one step. The
  goroutine that releases a delayed packet is cut at every operation on shared state, the goroutine of
  a second segment between a failed send and what it does about it, and the loops that remove idle pacers and old
  segments between the test of an entry and its deletion, so that the other steps interleave there.
\<close>

subsection \<open>Goroutines\<close>

text \<open>\<open>time.Sleep(delay)\<close> returns when at least the delay has passed since the packet arrived.\<close>

definition release_step :: "Config \<Rightarrow> nat \<Rightarrow> time \<Rightarrow> daemon \<Rightarrow> daemon option" where
  "release_step cfg i now d =
     (if length (releases d) \<le> i then None
      else let r = releases d ! i;
               goto = (\<lambda>pc d. d\<lparr>releases := (releases d)[i := r\<lparr>rt_pc := pc\<rparr>]\<rparr>)
           in case rt_pc r of
                R_Sleep \<Rightarrow>
                  if now < rt_started r + rt_delay r then None
                  else Some (goto R_DeleteFlow
                         (set_pacer (rt_pacer r) \<lparr>LastRelease = now, pacer_LastSeen = now, Pending = False\<rparr> d))
              | R_DeleteFlow \<Rightarrow>
                  Some (goto R_Count (d\<lparr>shapePendingFlows := (shapePendingFlows d)(rt_key r := None)\<rparr>))
              | R_Count \<Rightarrow> Some (goto R_Verdict (logVerbose cfg ''SHAPE-RELEASE'' (bump IncAccepted d)))
              | R_Verdict \<Rightarrow> Some (goto R_Exit (accept (rt_packetID r) d))
              | R_Exit \<Rightarrow>
                  Some (d\<lparr>pendingDelays := wrap64 (pendingDelays d - 1),
                          releases := take i (releases d) @ drop (Suc i) (releases d)\<rparr>))"

text \<open>
  The goroutine of a second segment sends it after the delay; if that fails it forgets the key in a
  second step.
\<close>

definition second_send_step :: "Config \<Rightarrow> nat \<Rightarrow> errno option \<Rightarrow> errno option \<Rightarrow> daemon \<Rightarrow> daemon option" where
  "second_send_step cfg i setmark sendto d =
     (if length (second_sends d) \<le> i then None
      else let t = second_sends d ! i;
               finish = (\<lambda>d. d\<lparr>second_sends := take i (second_sends d) @ drop (Suc i) (second_sends d)\<rparr>)
           in if ss_failed t then
                Some (finish (emit (PrintedErr ''split raw send failed'') (seen_delete (ss_key t) d)))
              else do {
                let d = (if 0 < SplitDelay cfg then emit (Sleep (SplitDelay cfg)) d else d);
                (err, d) \<leftarrow> raw_send (ss_packet t) (ss_mark t) setmark sendto d;
                if err \<noteq> None then Some (d\<lparr>second_sends := (second_sends d)[i := t\<lparr>ss_failed := True\<rparr>]\<rparr>)
                else Some (finish (logVerbose cfg ''SPLIT-RAW-SENT'' d)) })"

subsection \<open>Periodic loops\<close>

text \<open>
  A tick of \<open>splitSeenCleanupLoop\<close> starts a sweep; \<open>Range\<close> visits no key twice, in an order the
  environment chooses, and passes over a key that is not in the map. It reads the time of a key and, if
  that is too old, deletes the key; these are separate steps. The end of the sweep reports.
\<close>

definition splitSeenCleanupLoop_tick :: "time \<Rightarrow> splitSegmentKey list \<Rightarrow> daemon \<Rightarrow> daemon option" where
  "splitSeenCleanupLoop_tick now keys d =
     (if seenSweep d \<noteq> None \<or> \<not> distinct keys then None
      else Some (d\<lparr>seenSweep := Some \<lparr>seen_now = now, seen_todo = keys, seen_removed = 0, seen_stale = None\<rparr>\<rparr>))"

definition splitSeenCleanupLoop_step :: "Config \<Rightarrow> daemon \<Rightarrow> daemon option" where
  "splitSeenCleanupLoop_step cfg d =
     (case seenSweep d of
        None \<Rightarrow> None
      | Some s \<Rightarrow>
          (case seen_stale s of
             Some k \<Rightarrow>
               Some ((seen_delete k d)\<lparr>seenSweep := Some (s\<lparr>seen_removed := seen_removed s + 1, seen_stale := None\<rparr>)\<rparr>)
           | None \<Rightarrow>
               (case seen_todo s of
                  [] \<Rightarrow> Some (report (seen_removed s) ''split cleanup removed'' (d\<lparr>seenSweep := None\<rparr>))
                | k # rest \<Rightarrow>
                    (case splitSeen d k of
                       None \<Rightarrow> Some (d\<lparr>seenSweep := Some (s\<lparr>seen_todo := rest\<rparr>)\<rparr>)
                     | Some seenAt \<Rightarrow>
                         Some (d\<lparr>seenSweep := Some (s\<lparr>seen_todo := rest,
                           seen_stale := (if SplitSeenTTL cfg < time_Sub (seen_now s) seenAt then Some k else None)\<rparr>)\<rparr>)))))"

definition splitPayloadWindowCleanupLoop_tick :: "Config \<Rightarrow> time \<Rightarrow> daemon \<Rightarrow> daemon" where
  "splitPayloadWindowCleanupLoop_tick cfg now d =
     (case window_cleanup (splitPayloadWindow d) now (PassWindow cfg) of
        (w, removed) \<Rightarrow> report removed ''split payload-window cleanup removed'' (d\<lparr>splitPayloadWindow := w\<rparr>))"

text \<open>
  A sweep of \<open>shapeCleanupLoop\<close> in the same way. For each key it decides under the pacer's lock whether the pacer is stale and, after
  releasing the lock, deletes the key; these are separate steps.
\<close>

definition shapeCleanup_tick :: "time \<Rightarrow> string list \<Rightarrow> daemon \<Rightarrow> daemon option" where
  "shapeCleanup_tick now keys d =
     (if shapeSweep d \<noteq> None \<or> \<not> distinct keys then None
      else Some (d\<lparr>shapeSweep := Some \<lparr>sweep_now = now, sweep_todo = keys, sweep_removed = 0, sweep_stale = None\<rparr>\<rparr>))"

definition pacer_stale :: "Config \<Rightarrow> time \<Rightarrow> burstPacerState \<Rightarrow> bool" where
  "pacer_stale cfg now p \<longleftrightarrow>
     \<not> Pending p \<and> \<not> time_IsZero (pacer_LastSeen p) \<and> CleanupAfter cfg < time_Sub now (pacer_LastSeen p)"

definition shapeCleanup_step :: "Config \<Rightarrow> daemon \<Rightarrow> daemon option" where
  "shapeCleanup_step cfg d =
     (case shapeSweep d of
        None \<Rightarrow> None
      | Some s \<Rightarrow>
          (case sweep_stale s of
             Some ip \<Rightarrow>
               Some (d\<lparr>burstPacerByIP := (burstPacerByIP d)(ip := None),
                       shapeSweep := Some (s\<lparr>sweep_removed := sweep_removed s + 1, sweep_stale := None\<rparr>)\<rparr>)
           | None \<Rightarrow>
               (case sweep_todo s of
                  [] \<Rightarrow> Some (report (sweep_removed s) ''shape cleanup removed'' (d\<lparr>shapeSweep := None\<rparr>))
                | ip # rest \<Rightarrow>
                    (case burstPacerByIP d ip of
                       None \<Rightarrow> Some (d\<lparr>shapeSweep := Some (s\<lparr>sweep_todo := rest\<rparr>)\<rparr>)
                     | Some a \<Rightarrow>
                         Some (d\<lparr>shapeSweep := Some (s\<lparr>sweep_todo := rest,
                           sweep_stale := (if pacer_stale cfg (sweep_now s) (pacers d a) then Some ip else None)\<rparr>)\<rparr>)))))"

definition statsLoop_tick :: "Config \<Rightarrow> daemon \<Rightarrow> daemon" where
  "statsLoop_tick cfg d =
     (if Verbose cfg then d
      else case State_Snapshot (state d) of (tracked, ev) \<Rightarrow>
             (case Counters_Snapshot (counters d) of (accepted, delayed, dropped, _) \<Rightarrow>
                emit_all (map Printed (printStats cfg tracked accepted delayed dropped ev)) d))"

subsection \<open>Startup\<close>

definition init_daemon :: "Algorithm \<Rightarrow> RawIPv4Sender option \<Rightarrow> rng \<Rightarrow> daemon" where
  "init_daemon a raw g = \<lparr>state = NewState a, counters = Counters_zero, pendingDelays = 0,
     burstPacerByIP = Map.empty, pacers = (\<lambda>_. burstPacer_zero), next_pacer = 0, shapePendingFlows = Map.empty,
     splitSeen = Map.empty, splitPayloadWindow = newSplitPayloadWindowState, rawSender = raw, rand_source = g,
     releases = [], second_sends = [], shapeSweep = None, seenSweep = None, outputs = []\<rparr>"

datatype startup_error =
    ConfigFatal config_error
  | AlgorithmFatal algo_error
  | WhitelistFatal whitelist_error
  | QueueOpenFatal
  | RawSenderFatal send_error
  | TickerPanic

text \<open>
  What the startup asks its environment for: the clock, whether the queue opens, and the two
  system calls of the raw socket. \<open>seeded\<close> is the sequence \<open>math/rand\<close> produces from a
  seed. \<open>time.NewTicker\<close> panics on an interval that is not positive; that happens in the goroutine
  of the loop and ends the process. The model ends the startup there and leaves out the packets
  the handler may still be given before the goroutine is scheduled.
\<close>

record startup_env =
  unix_nano :: int
  queue_opens :: bool
  socket_result :: "errno + int"
  hdrincl_result :: "errno option"

definition open_raw_sender :: "Config \<Rightarrow> startup_env \<Rightarrow> (startup_error + RawIPv4Sender option) \<times> syscall list" where
  "open_raw_sender cfg e =
     (if Action cfg = ''split'' \<and> \<not> SplitProbe cfg then
        (case NewRawIPv4Sender (socket_result e) (hdrincl_result e) of
           (Inl err, calls) \<Rightarrow> (Inl (RawSenderFatal err), calls)
         | (Inr r, calls) \<Rightarrow> (Inr (Some r), calls))
      else (Inr None, []))"

definition startup ::
  "(int \<Rightarrow> rng) \<Rightarrow> flags \<Rightarrow> startup_env \<Rightarrow> startup_error + Config \<times> u16 \<times> Whitelist \<times> daemon" where
  "startup seeded f e =
     (case parseConfig f of
        Inl err \<Rightarrow> Inl (ConfigFatal err)
      | Inr cfg0 \<Rightarrow>
          let cfg = (if Seed cfg0 = 0 then cfg0\<lparr>Seed := unix_nano e\<rparr> else cfg0)
          in case NewAlgorithm (Mode cfg) (cfg_Cooldown cfg) (MinDelay cfg) (MaxDelay cfg) (Jitter cfg) of
            Inl err \<Rightarrow> Inl (AlgorithmFatal err)
          | Inr a \<Rightarrow>
              (case NewWhitelist (cfg_Whitelist cfg) of
                 Inl err \<Rightarrow> Inl (WhitelistFatal err)
               | Inr wl \<Rightarrow>
                   if \<not> queue_opens e then Inl QueueOpenFatal
                   else case open_raw_sender cfg e of
                     (Inl err, _) \<Rightarrow> Inl err
                   | (Inr raw, calls) \<Rightarrow>
                       if CleanupEvery cfg \<le> 0 \<or> StatsEvery cfg \<le> 0 then Inl TickerPanic
                       else Inr (cfg, ucast (QueueNum cfg), wl,
                              emit_all (map Printed (printStartupConfig cfg (Whitelist_Len wl)))
                                (emit_all (map Syscall calls) (init_daemon a raw (seeded (Seed cfg)))))))"

subsection \<open>Runs\<close>

datatype label =
    LPacket attribute env
  | LRelease nat time
  | LSecondSend nat "errno option" "errno option"
  | LCleanup time
  | LSeenTick time "splitSegmentKey list"
  | LSeenStep
  | LWindowCleanup time
  | LShapeTick time "string list"
  | LShapeStep
  | LStats

fun do_step :: "Config \<Rightarrow> Whitelist \<Rightarrow> label \<Rightarrow> daemon \<Rightarrow> daemon option" where
  "do_step cfg wl (LPacket a e) d = handler cfg wl a e d"
| "do_step cfg wl (LRelease i now) d = release_step cfg i now d"
| "do_step cfg wl (LSecondSend i x y) d = second_send_step cfg i x y d"
| "do_step cfg wl (LCleanup now) d = Some (cleanupLoop_tick cfg now d)"
| "do_step cfg wl (LSeenTick now keys) d = splitSeenCleanupLoop_tick now keys d"
| "do_step cfg wl LSeenStep d = splitSeenCleanupLoop_step cfg d"
| "do_step cfg wl (LWindowCleanup now) d = Some (splitPayloadWindowCleanupLoop_tick cfg now d)"
| "do_step cfg wl (LShapeTick now keys) d = shapeCleanup_tick now keys d"
| "do_step cfg wl LShapeStep d = shapeCleanup_step cfg d"
| "do_step cfg wl LStats d = Some (statsLoop_tick cfg d)"

text \<open>The runs from a given state: the labels of the steps, oldest first, and the state reached.\<close>

inductive daemon_run :: "Config \<Rightarrow> Whitelist \<Rightarrow> daemon \<Rightarrow> label list \<Rightarrow> daemon \<Rightarrow> bool"
  for cfg :: Config and wl :: Whitelist and d0 :: daemon where
  run_start: "daemon_run cfg wl d0 [] d0"
| run_step: "daemon_run cfg wl d0 ls d \<Longrightarrow> do_step cfg wl l d = Some d' \<Longrightarrow> daemon_run cfg wl d0 (ls @ [l]) d'"

inductive_cases daemon_run_nilE: "daemon_run cfg wl d0 [] d"

inductive_cases daemon_run_snocE: "daemon_run cfg wl d0 (ls @ [l]) d"

fun run_labels :: "Config \<Rightarrow> Whitelist \<Rightarrow> label list \<Rightarrow> daemon \<Rightarrow> daemon option" where
  "run_labels cfg wl [] d = Some d"
| "run_labels cfg wl (l # ls) d = do { d' \<leftarrow> do_step cfg wl l d; run_labels cfg wl ls d' }"

lemma run_labels_append:
  "run_labels cfg wl (ls @ ls') d = do { d' \<leftarrow> run_labels cfg wl ls d; run_labels cfg wl ls' d' }"
  by (induction ls arbitrary: d) (auto split: bind_splits)

lemma daemon_run_iff: "daemon_run cfg wl d0 ls d \<longleftrightarrow> run_labels cfg wl ls d0 = Some d"
proof
  show "daemon_run cfg wl d0 ls d \<Longrightarrow> run_labels cfg wl ls d0 = Some d"
    by (induction rule: daemon_run.induct) (auto simp: run_labels_append)
next
  show "run_labels cfg wl ls d0 = Some d \<Longrightarrow> daemon_run cfg wl d0 ls d"
    by (induction ls arbitrary: d rule: rev_induct)
       (auto simp: run_labels_append split: bind_splits intro: daemon_run.intros)
qed

end
