(* ===== verification/Daemon_Invariant.thy ===== *)
theory Daemon_Invariant
  imports Daemon_Steps "HOL-Library.Multiset"
begin

text \<open>
  The invariant of the shared state, kept by every step of the daemon: the number of pending
  delays is the number of release goroutines and respects its limit; the flows marked as pending
  are those of the goroutines that have not yet unmarked them, each once; a pacer marked as
  pending has a sleeping goroutine; the addresses of pacers are allocated and not shared.
\<close>

subsection \<open>The invariant\<close>

definition holds_flow :: "release_task \<Rightarrow> bool" where
  "holds_flow r \<longleftrightarrow> rt_pc r = R_Sleep \<or> rt_pc r = R_DeleteFlow"

definition shape_inv :: "Config \<Rightarrow> daemon \<Rightarrow> bool" where
  "shape_inv cfg d \<longleftrightarrow>
     pendingDelays d = wrap64 (len (releases d))
   \<and> (0 < MaxPendingDelays cfg \<longrightarrow> len (releases d) \<le> MaxPendingDelays cfg)
   \<and> dom (shapePendingFlows d) = rt_key ` set (filter holds_flow (releases d))
   \<and> distinct (map rt_key (filter holds_flow (releases d)))
   \<and> (\<forall>a. Pending (pacers d a) \<longrightarrow> (\<exists>r \<in> set (releases d). rt_pc r = R_Sleep \<and> rt_pacer r = a))
   \<and> (\<forall>ip a. burstPacerByIP d ip = Some a \<longrightarrow> a < next_pacer d)
   \<and> (\<forall>r \<in> set (releases d). rt_pacer r < next_pacer d)
   \<and> inj_on (burstPacerByIP d) (dom (burstPacerByIP d))"

text \<open>The fields the invariant is about.\<close>

definition shape_part :: "daemon \<Rightarrow> int \<times> (string \<rightharpoonup> nat) \<times> (nat \<Rightarrow> burstPacerState) \<times> nat \<times> (shapeFlowKey \<rightharpoonup> bool) \<times> release_task list" where
  "shape_part d = (pendingDelays d, burstPacerByIP d, pacers d, next_pacer d, shapePendingFlows d, releases d)"

lemma shape_inv_cong: "shape_part d' = shape_part d \<Longrightarrow> shape_inv cfg d \<Longrightarrow> shape_inv cfg d'"
  by (simp add: shape_part_def shape_inv_def)

lemma shape_part_effects [simp]:
  "shape_part (emit x d) = shape_part d" "shape_part (emit_all xs d) = shape_part d"
  "shape_part (logVerbose cfg tag d) = shape_part d" "shape_part (remember ev d) = shape_part d"
  "shape_part (bump f d) = shape_part d" "shape_part (accept pid d) = shape_part d"
  "shape_part (dropOrReject cfg pid m d) = shape_part d" "shape_part (seen_store k t d) = shape_part d"
  "shape_part (seen_delete k d) = shape_part d" "shape_part (report n s d) = shape_part d"
  by (simp_all add: shape_part_def effect_defs report_def Let_def)

lemma shape_part_fields [simp]:
  "shape_part (d\<lparr>state := s\<rparr>) = shape_part d" "shape_part (d\<lparr>rand_source := g\<rparr>) = shape_part d"
  "shape_part (d\<lparr>state := s, rand_source := g\<rparr>) = shape_part d"
  "shape_part (d\<lparr>splitPayloadWindow := w\<rparr>) = shape_part d" "shape_part (d\<lparr>second_sends := ts\<rparr>) = shape_part d"
  "shape_part (d\<lparr>splitSeen := m\<rparr>) = shape_part d" "shape_part (d\<lparr>shapeSweep := x\<rparr>) = shape_part d"
  by (simp_all add: shape_part_def)

interpretation shape: split_frame shape_part
  by unfold_locales (simp_all add: shape_part_def)

lemma cleanup_ticks_shape_part [simp]: "shape_part (cleanup_ticks cfg ts d) = shape_part d"
  by (simp add: shape_part_def)

lemma handle_drop_shape_part: "handle_drop cfg pid m ip now e d = Some d' \<Longrightarrow> shape_part d' = shape_part d"
  by (auto simp: handle_drop_def Let_def split: bind_splits if_splits prod.splits)

subsection \<open>Steps that keep it\<close>

lemma wrap64_add: "wrap64 (wrap64 x + y) = wrap64 (x + y)"
  unfolding wrap64_def
  using signed_take_bit_add [of 63 "signed_take_bit 63 x" y] signed_take_bit_add [of 63 x y] by simp

lemma inj_map_fresh:
  fixes n :: nat
  assumes "inj_on m (dom m)" "\<And>k a. m k = Some a \<Longrightarrow> a < n"
  shows "inj_on (m(k \<mapsto> n)) (dom (m(k \<mapsto> n)))"
proof (rule inj_onI)
  fix x y
  assume d: "x \<in> dom (m(k \<mapsto> n))" "y \<in> dom (m(k \<mapsto> n))" and e: "(m(k \<mapsto> n)) x = (m(k \<mapsto> n)) y"
  have "m z \<noteq> Some n" for z using assms(2) [of z n] by auto
  then show "x = y"
    using e d inj_onD [OF assms(1), of x y] by (auto split: if_splits)
qed

lemma shape_inv_load_pacer:
  assumes "shape_inv cfg d" "load_pacer ip d = (a, d')"
  shows "shape_inv cfg d' \<and> burstPacerByIP d' ip = Some a \<and> a < next_pacer d'
     \<and> releases d' = releases d \<and> pendingDelays d' = pendingDelays d \<and> shapePendingFlows d' = shapePendingFlows d"
proof (cases "burstPacerByIP d ip")
  case (Some b)
  then show ?thesis using assms by (simp add: load_pacer_def shape_inv_def)
next
  case None
  have bounds: "\<And>k a. burstPacerByIP d k = Some a \<Longrightarrow> a < next_pacer d" "inj_on (burstPacerByIP d) (dom (burstPacerByIP d))"
    using assms(1) by (simp_all add: shape_inv_def)
  have d': "a = next_pacer d" "d' = d\<lparr>burstPacerByIP := (burstPacerByIP d)(ip \<mapsto> next_pacer d),
      pacers := (pacers d)(next_pacer d := burstPacer_zero), next_pacer := next_pacer d + 1\<rparr>"
    using None assms(2) by (auto simp: load_pacer_def)
  show ?thesis
    using assms(1) inj_map_fresh [OF bounds(2,1), where k = ip]
    unfolding shape_inv_def d' by (simp add: burstPacer_zero_def less_Suc_eq)
qed

lemma shape_inv_set_pacer:
  assumes "shape_inv cfg d" "Pending p \<Longrightarrow> Pending (pacers d a)"
  shows "shape_inv cfg (set_pacer a p d)"
  using assms by (simp add: shape_inv_def set_pacer_def)

lemma shape_inv_delay:
  assumes inv: "shape_inv cfg d" and a: "a < next_pacer d" and fk: "shapePendingFlows d fk = None"
    and room: "0 < MaxPendingDelays cfg \<Longrightarrow> pendingDelays d < MaxPendingDelays cfg" "MaxPendingDelays cfg \<le> MaxInt64"
  shows "shape_inv cfg (shape_delay cfg pid ip fk now dl a d)"
proof -
  let ?r = "\<lparr>rt_pc = R_Sleep, rt_packetID = pid, rt_ip = ip, rt_key = fk, rt_delay = dl, rt_pacer = a, rt_started = now\<rparr>"
  let ?d = "shape_delay cfg pid ip fk now dl a d"
  have parts: "shape_part ?d = (wrap64 (pendingDelays d + 1), burstPacerByIP d,
      (pacers d)(a := (pacers d a)\<lparr>Pending := True\<rparr>), next_pacer d, (shapePendingFlows d)(fk \<mapsto> True), releases d @ [?r])"
    by (simp add: shape_delay_def Let_def shape_part_def effect_defs)
  have "len (releases d) < MaxPendingDelays cfg" if "0 < MaxPendingDelays cfg"
  proof -
    have "wrap64 (len (releases d)) = len (releases d)"
      using inv that room(2) by (intro wrap64_id) (auto simp: shape_inv_def int64_def)
    then show ?thesis using inv room(1) that by (simp add: shape_inv_def)
  qed
  moreover have "fk \<notin> rt_key ` set (filter holds_flow (releases d))"
    using inv fk by (metis domIff shape_inv_def)
  moreover have "wrap64 (pendingDelays d + 1) = wrap64 (len (releases d @ [?r]))"
    using inv wrap64_add [of "len (releases d)" 1] by (simp add: shape_inv_def add.commute)
  ultimately show ?thesis
    using inv a parts by (auto simp: shape_inv_def shape_part_def holds_flow_def)
qed

lemma shape_inv_handle_shape:
  assumes "shape_inv cfg d" "MaxPendingDelays cfg \<le> MaxInt64"
  shows "shape_inv cfg (handle_shape cfg pid m ip info now d)"
proof -
  obtain a d1 where l: "load_pacer ip d = (a, d1)" by (metis prod.exhaust)
  note d1 = shape_inv_load_pacer [OF assms(1) l]
  let ?d2 = "set_pacer a ((pacers d1 a)\<lparr>pacer_LastSeen := now\<rparr>) d1"
  have d2: "shape_inv cfg ?d2" using d1 by (intro shape_inv_set_pacer) auto
  have drop: "shape_inv cfg (shape_drop cfg pid m ev tag d')" if "shape_inv cfg d'" for ev tag d'
    using that by (rule shape_inv_cong [rotated]) (simp add: shape_drop_def Let_def split: option.split)
  have acc: "shape_inv cfg (shape_accept cfg pid ip now a ?d2)"
    using shape_inv_set_pacer [OF d2, of "\<lparr>LastRelease = now, pacer_LastSeen = now, Pending = False\<rparr>" a]
    by (rule shape_inv_cong [rotated]) (simp_all add: shape_accept_def Let_def)
  have del: "shape_inv cfg (shape_delay cfg pid ip fk now dl a ?d2)"
    if "shapePendingFlows d fk = None" "\<not> (0 < MaxPendingDelays cfg \<and> MaxPendingDelays cfg \<le> pendingDelays ?d2)" for fk dl
    using that assms(2) d1 by (intro shape_inv_delay [OF d2]) (auto simp: set_pacer_def)
  show ?thesis
    unfolding handle_shape_def Let_def l split_beta fst_conv snd_conv
    using assms(1) d2 drop acc del by simp
qed

lemma handler_shape_inv:
  assumes "handler cfg wl at e d = Some d'" "shape_inv cfg d" "MaxPendingDelays cfg \<le> MaxInt64"
  shows "shape_inv cfg d'"
proof -
  have "shape_inv cfg d'" if "handle_matched cfg wl pid m ip info e d = Some d'" for pid m ip info
    using that assms(2) shape_inv_handle_shape [OF assms(2,3)] shape_inv_cong [of d' d cfg]
    by (auto simp: handle_matched_def dest: handle_drop_shape_part split: if_splits bind_splits)
  then show ?thesis
    using assms(1,2) shape_inv_cong [of d' d cfg]
    by (auto simp: handler_def dest: shape.handle_payload_part split: option.splits if_splits bind_splits)
qed

text \<open>A step of the release goroutine \<open>i\<close> replaces or removes one element of the list.\<close>

lemma list_at:
  assumes "i < length xs"
  obtains us vs where "xs = us @ xs ! i # vs" "\<And>y. xs[i := y] = us @ y # vs" "take i xs @ drop (Suc i) xs = us @ vs"
    "length us = i"
proof
  show "xs = take i xs @ xs ! i # drop (Suc i) xs" using assms by (rule id_take_nth_drop)
  show "xs[i := y] = take i xs @ y # drop (Suc i) xs" for y using assms by (rule upd_conv_take_nth_drop)
qed (use assms in simp_all)

lemma release_cases:
  assumes "release_step cfg i now d = Some d'"
  obtains us r vs where "releases d = us @ r # vs"
    "rt_pc r = R_Sleep \<and> rt_started r + rt_delay r \<le> now \<and>
       d' = (set_pacer (rt_pacer r) \<lparr>LastRelease = now, pacer_LastSeen = now, Pending = False\<rparr> d)
              \<lparr>releases := us @ r\<lparr>rt_pc := R_DeleteFlow\<rparr> # vs\<rparr>
     \<or> rt_pc r = R_DeleteFlow \<and>
       d' = d\<lparr>shapePendingFlows := (shapePendingFlows d)(rt_key r := None), releases := us @ r\<lparr>rt_pc := R_Count\<rparr> # vs\<rparr>
     \<or> rt_pc r = R_Count \<and>
       d' = (logVerbose cfg ''SHAPE-RELEASE'' (bump IncAccepted d))\<lparr>releases := us @ r\<lparr>rt_pc := R_Verdict\<rparr> # vs\<rparr>
     \<or> rt_pc r = R_Verdict \<and> d' = (accept (rt_packetID r) d)\<lparr>releases := us @ r\<lparr>rt_pc := R_Exit\<rparr> # vs\<rparr>
     \<or> rt_pc r = R_Exit \<and> d' = d\<lparr>pendingDelays := wrap64 (pendingDelays d - 1), releases := us @ vs\<rparr>"
    "length us = i"
proof -
  have i: "i < length (releases d)" using assms by (auto simp: release_step_def split: if_splits)
  then obtain us vs where at: "releases d = us @ releases d ! i # vs" "\<And>y. (releases d)[i := y] = us @ y # vs"
      "take i (releases d) @ drop (Suc i) (releases d) = us @ vs" "length us = i" by (rule list_at) blast
  show thesis
    by (rule that [OF at(1) _ at(4)]; use assms i at(2,3) in
        \<open>auto simp: release_step_def Let_def effect_defs split: release_pc.splits if_splits\<close>)
qed

lemma shape_inv_release:
  assumes "release_step cfg i now d = Some d'" "shape_inv cfg d"
  shows "shape_inv cfg d'"
  using assms(1)
proof (cases rule: release_cases)
  case (1 us r vs)
  have w: "wrap64 (wrap64 (len (releases d)) - 1) = wrap64 (len (releases d) - 1)"
    using wrap64_add [of "len (releases d)" "- 1"] by simp
  have dm: "dom (shapePendingFlows d) = rt_key ` set (filter holds_flow (us @ r # vs))"
    "distinct (map rt_key (filter holds_flow (us @ r # vs)))"
    using assms(2) 1(1) by (simp_all add: shape_inv_def)
  from 1(2) show ?thesis
  proof (elim disjE conjE)
    assume "rt_pc r = R_Sleep" and d': "d' = (set_pacer (rt_pacer r) \<lparr>LastRelease = now, pacer_LastSeen = now, Pending = False\<rparr> d)
              \<lparr>releases := us @ r\<lparr>rt_pc := R_DeleteFlow\<rparr> # vs\<rparr>"
    then show ?thesis
      using assms(2) 1(1) unfolding d' by (auto simp: shape_inv_def set_pacer_def holds_flow_def)
  next
    assume r: "rt_pc r = R_DeleteFlow" and d': "d' = d\<lparr>shapePendingFlows := (shapePendingFlows d)(rt_key r := None),
        releases := us @ r\<lparr>rt_pc := R_Count\<rparr> # vs\<rparr>"
    have "dom (shapePendingFlows d) - {rt_key r} = rt_key ` set (filter holds_flow (us @ vs))"
    proof -
      have "holds_flow r" using r by (simp add: holds_flow_def)
      with dm show ?thesis by (auto simp: image_Un)
    qed
    then show ?thesis
      using assms(2) 1(1) r unfolding d' by (auto simp: shape_inv_def holds_flow_def)
  next
    assume "rt_pc r = R_Count" and d': "d' = (logVerbose cfg ''SHAPE-RELEASE'' (bump IncAccepted d))
        \<lparr>releases := us @ r\<lparr>rt_pc := R_Verdict\<rparr> # vs\<rparr>"
    then show ?thesis
      using assms(2) 1(1) unfolding d' by (auto simp: shape_inv_def effect_defs holds_flow_def)
  next
    assume "rt_pc r = R_Verdict" and d': "d' = (accept (rt_packetID r) d)\<lparr>releases := us @ r\<lparr>rt_pc := R_Exit\<rparr> # vs\<rparr>"
    then show ?thesis
      using assms(2) 1(1) unfolding d' by (auto simp: shape_inv_def effect_defs holds_flow_def)
  next
    assume "rt_pc r = R_Exit" and d': "d' = d\<lparr>pendingDelays := wrap64 (pendingDelays d - 1), releases := us @ vs\<rparr>"
    then show ?thesis
      using assms(2) 1(1) w unfolding d' by (auto simp: shape_inv_def holds_flow_def)
  qed
qed

subsection \<open>The client table\<close>

text \<open>Only the drop branch touches the clients and the random source.\<close>

definition client_part :: "daemon \<Rightarrow> (string \<rightharpoonup> ClientState) \<times> Algorithm \<times> rng" where
  "client_part d = (clients (state d), algorithm (state d), rand_source d)"

lemma client_part_effects [simp]:
  "client_part (emit x d) = client_part d" "client_part (emit_all xs d) = client_part d"
  "client_part (logVerbose cfg tag d) = client_part d" "client_part (remember ev d) = client_part d"
  "client_part (bump f d) = client_part d" "client_part (accept pid d) = client_part d"
  "client_part (dropOrReject cfg pid m d) = client_part d" "client_part (seen_store k t d) = client_part d"
  "client_part (seen_delete k d) = client_part d" "client_part (report n s d) = client_part d"
  "client_part (set_pacer a p d) = client_part d"
  by (simp_all add: client_part_def effect_defs report_def Let_def RememberEvent_def)

lemma client_part_fields [simp]:
  "client_part (d\<lparr>splitPayloadWindow := w\<rparr>) = client_part d" "client_part (d\<lparr>second_sends := ts\<rparr>) = client_part d"
  "client_part (d\<lparr>splitSeen := m\<rparr>) = client_part d" "client_part (d\<lparr>shapeSweep := x\<rparr>) = client_part d"
  "client_part (d\<lparr>releases := rs\<rparr>) = client_part d" "client_part (d\<lparr>shapePendingFlows := fl\<rparr>) = client_part d"
  "client_part (d\<lparr>pendingDelays := n\<rparr>) = client_part d" "client_part (d\<lparr>burstPacerByIP := b\<rparr>) = client_part d"
  by (simp_all add: client_part_def)

interpretation client: split_frame client_part
  by unfold_locales (simp_all add: client_part_def)

lemma handle_shape_client_part: "client_part (handle_shape cfg pid m ip info now d) = client_part d"
  by (simp add: client_part_def handle_shape_frame)

definition table_inv :: "daemon \<Rightarrow> bool" where
  "table_inv d \<longleftrightarrow> valid_algorithm (algorithm (state d)) \<and> state_ok algo_lo algo_hi (state d) \<and> fair_rng (rand_source d)"

lemma table_inv_cong: "client_part d' = client_part d \<Longrightarrow> table_inv d \<Longrightarrow> table_inv d'"
  by (simp add: client_part_def table_inv_def state_ok_def)

lemma table_inv_effects [simp]:
  "table_inv (emit x d) = table_inv d" "table_inv (logVerbose cfg tag d) = table_inv d"
  "table_inv (remember ev d) = table_inv d" "table_inv (bump f d) = table_inv d"
  "table_inv (accept pid d) = table_inv d" "table_inv (dropOrReject cfg pid m d) = table_inv d"
  by (auto intro: table_inv_cong [rotated])

lemma table_inv_state: "table_inv d \<Longrightarrow> state_ok algo_lo algo_hi s \<Longrightarrow> algorithm s = algorithm (state d) \<Longrightarrow> table_inv (d\<lparr>state := s\<rparr>)"
  by (simp add: table_inv_def)

lemma table_inv_draw:
  "table_inv d \<Longrightarrow> state_ok algo_lo algo_hi s \<Longrightarrow> algorithm s = algorithm (state d) \<Longrightarrow> fair_rng g \<Longrightarrow>
   table_inv (d\<lparr>state := s, rand_source := g\<rparr>)"
  by (simp add: table_inv_def)

lemma cleanup_table_inv: "table_inv d \<Longrightarrow> table_inv (cleanupLoop_tick cfg now d)"
proof -
  assume inv: "table_inv d"
  have "table_inv (d\<lparr>state := fst (Cleanup (state d) now ttl)\<rparr>)" for ttl
    using inv alg.Cleanup_ok [of "state d" now ttl] by (intro table_inv_state) (auto simp: table_inv_def)
  then show ?thesis
    by (simp add: cleanupLoop_tick_def split_beta report_def)
qed

lemma cleanup_ticks_table_inv: "table_inv d \<Longrightarrow> table_inv (cleanup_ticks cfg ts d)"
  by (induction ts arbitrary: d) (simp_all add: cleanup_table_inv)

lemma table_inv_handle_drop:
  assumes "handle_drop cfg pid m ip now e d = Some d'" "table_inv d"
  shows "table_inv d'"
proof -
  note inv = assms(2) [unfolded table_inv_def]
  obtain dec s g where D: "Decide Next (state d) ip now pid (rand_source d) = Some (dec, s, g)" and g: "fair_rng g"
    using alg.Decide_total [of "state d" "rand_source d"] inv by blast
  let ?d1 = "d\<lparr>state := s, rand_source := g\<rparr>"
  have d1: "table_inv ?d1"
    using alg.Decide_ok [OF D] inv by (intro table_inv_draw [OF assms(2) _ _ g]) auto
  define d2 where "d2 = cleanup_ticks cfg (cleanups_decided e) ?d1"
  define d3 where "d3 = cleanup_ticks cfg (cleanups_counted e) (d2\<lparr>state := fst (IncDrop (state d2) ip)\<rparr>)"
  have d2: "table_inv d2" using d1 by (simp add: d2_def cleanup_ticks_table_inv)
  have d3: "table_inv d3"
    unfolding d3_def using d2 alg.IncDrop_ok [of "state d2" ip]
    by (intro cleanup_ticks_table_inv table_inv_state) (auto simp: table_inv_def)
  have forced: "table_inv (d3\<lparr>state := s3, rand_source := g3\<rparr>)"
    if F: "ForceAccept Next (state d3) ip (now_force e) pid (rand_source d3) = Some (cd, ev, s3, g3)" for cd ev s3 g3
    using alg.ForceAccept_ok [OF F] alg.ForceAccept_total [of "state d3" "rand_source d3" ip "now_force e" pid] F d3
    by (intro table_inv_draw [OF d3]) (auto simp: table_inv_def)
  have forget: "table_inv (x\<lparr>state := Forget (state x) ip\<rparr>)" if "table_inv x" for x
    using that alg.Forget_ok by (intro table_inv_state) (auto simp: table_inv_def)
  have dropped: "table_inv (remember ev (bump IncDropped d3))" for ev using d3 by simp
  have "d' = accept pid (logVerbose cfg ''ACCEPT'' (bump IncAccepted ?d1))
    \<or> (\<exists>cd ev s3 g3. ForceAccept Next (state d3) ip (now_force e) pid (rand_source d3) = Some (cd, ev, s3, g3) \<and>
         d' = accept pid (logVerbose cfg ''FORCE-ACCEPT'' (bump IncAccepted (d3\<lparr>state := s3, rand_source := g3\<rparr>))))
    \<or> (\<exists>ev x. (x = remember ev (bump IncDropped d3)
               \<or> x = (remember ev (bump IncDropped d3))\<lparr>state := Forget (state (remember ev (bump IncDropped d3))) ip\<rparr>) \<and>
         d' = dropOrReject cfg pid m (logVerbose cfg ''DROP'' x))"
    using assms(1) D unfolding handle_drop_def
    by (auto simp: Let_def split_beta simp flip: d2_def d3_def split: if_splits bind_splits)
  then show ?thesis
    using d1 forced dropped forget [OF dropped] by (elim disjE exE conjE) simp_all
qed

lemma table_inv_handler:
  assumes "handler cfg wl at e d = Some d'" "table_inv d"
  shows "table_inv d'"
proof -
  have "table_inv d'" if "handle_matched cfg wl pid m ip info e d = Some d'" for pid m ip info
    using that assms(2) table_inv_handle_drop table_inv_cong [of d' d] handle_shape_client_part
    by (auto simp: handle_matched_def split: if_splits bind_splits)
  then show ?thesis
    using assms table_inv_cong [of d' d]
    by (auto simp: handler_def dest: client.handle_payload_part split: option.splits if_splits bind_splits)
qed

subsection \<open>All steps\<close>

definition daemon_inv :: "Config \<Rightarrow> daemon \<Rightarrow> bool" where
  "daemon_inv cfg d \<longleftrightarrow> shape_inv cfg d \<and> table_inv d"

context split_frame
begin

lemma second_send_part: "second_send_step cfg i a b d = Some d' \<Longrightarrow> part d' = part d"
  by (auto simp: second_send_step_def Let_def part_second dest!: raw_send_part split: if_splits bind_splits)

lemma seen_tick_part: "splitSeenCleanupLoop_tick now keys d = Some d' \<Longrightarrow> part d' = part d"
  by (auto simp: splitSeenCleanupLoop_tick_def part_seenSweep split: if_splits)

lemma seen_step_part: "splitSeenCleanupLoop_step cfg d = Some d' \<Longrightarrow> part d' = part d"
  by (auto simp: splitSeenCleanupLoop_step_def report_def part_seenSweep split: option.splits list.splits if_splits)

lemmas split_loop_parts = second_send_part seen_tick_part seen_step_part

end

lemma tick_parts:
  "shape_part (cleanupLoop_tick cfg now d) = shape_part d"
  "shape_part (splitPayloadWindowCleanupLoop_tick cfg now d) = shape_part d"
  "shape_part (statsLoop_tick cfg d) = shape_part d"
  "client_part (splitPayloadWindowCleanupLoop_tick cfg now d) = client_part d"
  "client_part (statsLoop_tick cfg d) = client_part d"
  by (simp_all add: cleanupLoop_tick_def splitPayloadWindowCleanupLoop_tick_def statsLoop_tick_def Let_def split_beta)

lemma shape_tick_parts:
  "shapeCleanup_tick now keys d = Some d' \<Longrightarrow> shape_part d' = shape_part d \<and> client_part d' = client_part d"
  by (auto simp: shapeCleanup_tick_def split: if_splits)

lemma shape_sweep_inv:
  assumes "shapeCleanup_step cfg d = Some d'" "shape_inv cfg d"
  shows "shape_inv cfg d' \<and> client_part d' = client_part d"
proof -
  consider (quiet) "shape_part d' = shape_part d" "client_part d' = client_part d"
    | (delete) ip s where "d' = d\<lparr>burstPacerByIP := (burstPacerByIP d)(ip := None), shapeSweep := s\<rparr>"
    using assms(1) by (auto simp: shapeCleanup_step_def split: option.splits list.splits)
  then show ?thesis
  proof cases
    case quiet
    then show ?thesis using shape_inv_cong assms(2) by blast
  next
    case (delete ip s)
    have "inj_on ((burstPacerByIP d)(ip := None)) (dom ((burstPacerByIP d)(ip := None)))"
      using assms(2) by (auto simp: shape_inv_def inj_on_def)
    then show ?thesis
      using assms(2) by (auto simp: delete shape_inv_def client_part_def)
  qed
qed

lemma shape_step_client: "shapeCleanup_step cfg d = Some d' \<Longrightarrow> client_part d' = client_part d"
  by (auto simp: shapeCleanup_step_def client_part_def report_def emit_def split: option.splits list.splits if_splits)

lemma release_client_part: "release_step cfg i now d = Some d' \<Longrightarrow> client_part d' = client_part d"
  by (erule release_cases) auto

lemma step_inv:
  assumes "do_step cfg wl l d = Some d'" "daemon_inv cfg d" "MaxPendingDelays cfg \<le> MaxInt64"
  shows "daemon_inv cfg d'"
proof -
  have cong: "shape_part d' = shape_part d \<Longrightarrow> client_part d' = client_part d \<Longrightarrow> daemon_inv cfg d'"
    using assms(2) shape_inv_cong [of d' d cfg] table_inv_cong [of d' d] by (simp add: daemon_inv_def)
  show ?thesis
  proof (cases l)
    case (LPacket a e)
    with assms show ?thesis using handler_shape_inv table_inv_handler by (auto simp: daemon_inv_def)
  next
    case (LRelease i now)
    with assms show ?thesis
      using shape_inv_release table_inv_cong [of d' d] release_client_part by (auto simp: daemon_inv_def)
  next
    case (LSecondSend i a b)
    with assms show ?thesis using shape.second_send_part client.second_send_part cong by auto
  next
    case (LSeenTick now keys)
    with assms show ?thesis using shape.seen_tick_part client.seen_tick_part cong by auto
  next
    case LSeenStep
    with assms show ?thesis using shape.seen_step_part client.seen_step_part cong by auto
  next
    case (LCleanup now)
    with assms show ?thesis
      using shape_inv_cong [of d' d cfg] tick_parts(1) [of cfg now d] cleanup_table_inv
      by (auto simp: daemon_inv_def)
  next
    case (LShapeTick now keys)
    with assms show ?thesis using shape_tick_parts cong by auto
  next
    case LShapeStep
    with assms show ?thesis
      using shape_sweep_inv [of cfg d d'] table_inv_cong [of d' d] by (auto simp: daemon_inv_def)
  qed (use assms(1) cong tick_parts in auto)
qed

lemma run_inv:
  assumes "daemon_run cfg wl d0 ls d" "daemon_inv cfg d0" "MaxPendingDelays cfg \<le> MaxInt64"
  shows "daemon_inv cfg d"
  using assms by (induction rule: daemon_run.induct) (auto intro: step_inv)

subsection \<open>Accounting for packets\<close>

text \<open>The packets of the labels of a run, and those a state still owes a verdict.\<close>

definition packet_ids :: "label list \<Rightarrow> u32 list" where
  "packet_ids ls = concat (map (\<lambda>l. case l of
      LPacket a e \<Rightarrow> (case attr_PacketID a of None \<Rightarrow> [] | Some pid \<Rightarrow> [pid]) | _ \<Rightarrow> []) ls)"

definition owed :: "daemon \<Rightarrow> u32 list" where
  "owed d = map rt_packetID (filter (\<lambda>r. rt_pc r \<noteq> R_Exit) (releases d))"

definition accounted :: "daemon \<Rightarrow> u32 multiset" where
  "accounted d = mset (settled_ids (outputs d)) + mset (owed d)"

lemma accounted_adds: "adds pids d d' \<Longrightarrow> accounted d' = accounted d + mset pids"
proof -
  assume "adds pids d d'"
  then obtain os rs where os: "outputs d' = outputs d @ os" "releases d' = releases d @ rs"
      "list_all (\<lambda>r. rt_pc r = R_Sleep) rs" "settled_ids os @ map rt_packetID rs = pids"
    by (auto simp: adds_def)
  then have "filter (\<lambda>r. rt_pc r \<noteq> R_Exit) rs = rs"
    by (induction rs arbitrary: d' pids) (auto simp: filter_id_conv list_all_iff)
  with os show ?thesis by (auto simp: accounted_def owed_def)
qed

lemma accounted_same:
  "settled_ids (outputs d') = settled_ids (outputs d) \<Longrightarrow> releases d' = releases d \<Longrightarrow> accounted d' = accounted d"
  by (simp add: accounted_def owed_def)

lemma accounted_release:
  assumes "release_step cfg i now d = Some d'"
  shows "accounted d' = accounted d"
  using assms by (cases rule: release_cases) (auto simp: accounted_def owed_def effect_defs)

lemma accounted_quiet:
  "second_send_step cfg i a b d = Some d' \<Longrightarrow> accounted d' = accounted d"
  "accounted (cleanupLoop_tick cfg now d) = accounted d"
  "splitSeenCleanupLoop_tick now skeys d = Some d' \<Longrightarrow> accounted d' = accounted d"
  "splitSeenCleanupLoop_step cfg d = Some d' \<Longrightarrow> accounted d' = accounted d"
  "accounted (splitPayloadWindowCleanupLoop_tick cfg now d) = accounted d"
  "accounted (statsLoop_tick cfg d) = accounted d"
  "shapeCleanup_tick now keys d = Some d' \<Longrightarrow> accounted d' = accounted d"
  "shapeCleanup_step cfg d = Some d' \<Longrightarrow> accounted d' = accounted d"
  by (auto intro!: accounted_same simp: second_send_step_def raw_send_def cleanupLoop_tick_def
      splitSeenCleanupLoop_tick_def splitSeenCleanupLoop_step_def splitPayloadWindowCleanupLoop_tick_def statsLoop_tick_def
      report_def shapeCleanup_tick_def shapeCleanup_step_def effect_defs Let_def split_beta
      split: if_splits bind_splits option.splits list.splits)

end
