(* ===== verification/Daemon_Example.thy ===== *)
theory Daemon_Example
  imports Daemon_Steps
begin

text \<open>
  A concrete run in shape mode, evaluated once for the theorems about runs: the daemon starts with the
  default flags and \<open>--action shape --seed 1\<close>, a client's first SYN passes, its second SYN
  40 ms later is delayed by the remaining 60 ms of the burst interval, and its goroutine is about to
  run.
\<close>

definition example_flags :: flags where
  "example_flags = default_flags\<lparr>f_action := ''shape'', f_seed := 1\<rparr>"

definition example_seeded :: "int \<Rightarrow> rng" where
  "example_seeded n = sconst (- 1)"

definition example_startup_env :: startup_env where
  "example_startup_env = \<lparr>unix_nano = 0, queue_opens = True, socket_result = Inr 5, hdrincl_result = None\<rparr>"

definition example_env :: "time \<Rightarrow> env" where
  "example_env t = \<lparr>now_window = t, now_passed = t, now_seen = t, now_second = t, now_main = t, now_force = t,
     random_bytes = Some (\<lambda>_. 0), fake_setmark = None, fake_sendto = None, second_setmark = None,
     second_sendto = None, mod_verdict_ok = True,
     cleanups_decided = [], cleanups_counted = []\<rparr>"

definition example_syn :: "u32 \<Rightarrow> attribute" where
  "example_syn pid = \<lparr>attr_PacketID = Some pid, attr_Payload = Some (encode (example_packet 0x02 [])), attr_Mark = None\<rparr>"

definition example_labels :: "label list" where
  "example_labels = [LPacket (example_syn 1) (example_env 1000000000), LPacket (example_syn 2) (example_env 1040000000)]"

lemma example_starts:
  assumes "parseConfig f = Inr cfg" "Mode cfg = ''fixed''" "0 < cfg_Cooldown cfg" "cfg_Whitelist cfg = ''''" "Seed cfg \<noteq> 0"
    and "0 < CleanupEvery cfg" "0 < StatsEvery cfg" "QueueNum cfg = 443"
  shows "startup example_seeded f example_startup_env = Inr (cfg, 443, \<lparr>nets = []\<rparr>,
     emit_all (map Printed (printStartupConfig cfg 0))
       (if Action cfg = ''split'' \<and> \<not> SplitProbe cfg
        then emit_all [Syscall SysSocket, Syscall (SysSetHdrIncl 5)]
          (init_daemon (FixedAlgorithm (cfg_Cooldown cfg)) (Some \<lparr>fd = 5\<rparr>) (example_seeded (Seed cfg)))
        else init_daemon (FixedAlgorithm (cfg_Cooldown cfg)) None (example_seeded (Seed cfg))))"
  using assms
  by (simp add: startup_def Let_def NewAlgorithm_def NewWhitelist_def example_startup_env_def open_raw_sender_def
      NewRawIPv4Sender_def Whitelist_Len_def emit_all_def)

lemmas parse_defaults = parseConfig_def default_flags_def mustDuration_def default_durations default_marks bindE_def
  config_checks_def config_of_fields

lemma example_startup:
  "\<exists>cfg d. startup example_seeded example_flags example_startup_env = Inr (cfg, 443, \<lparr>nets = []\<rparr>, d)
     \<and> Packet cfg = ''syn'' \<and> Action cfg = ''shape'' \<and> \<not> Verbose cfg \<and> \<not> SkipMarkEnabled cfg
     \<and> MaxPendingDelays cfg = 0 \<and> BurstInterval cfg = 100000000 \<and> BurstMaxDelay cfg = 1000000000
     \<and> burstPacerByIP d = Map.empty \<and> shapePendingFlows d = Map.empty \<and> releases d = []
     \<and> next_pacer d = 0 \<and> pendingDelays d = 0 \<and> settled_ids (outputs d) = []
     \<and> CleanupAfter cfg = 600000000000 \<and> shapeSweep d = None"
proof -
  obtain cfg where c: "parseConfig example_flags = Inr cfg"
     "Packet cfg = ''syn''" "Action cfg = ''shape''" "\<not> Verbose cfg" "\<not> SkipMarkEnabled cfg"
     "MaxPendingDelays cfg = 0" "BurstInterval cfg = 100000000" "BurstMaxDelay cfg = 1000000000" "CleanupAfter cfg = 600000000000"
     and s: "Mode cfg = ''fixed''" "0 < cfg_Cooldown cfg" "cfg_Whitelist cfg = ''''" "Seed cfg \<noteq> 0"
     "0 < CleanupEvery cfg" "0 < StatsEvery cfg" "QueueNum cfg = 443"
    by (simp add: example_flags_def parse_defaults)
  show ?thesis
    using example_starts [OF c(1) s] c(2-) by (simp add: emit_all_def init_daemon_def)
qed

lemma example_syn_parses:
  "match_packet cfg (encode (example_packet 0x02 [])) = Some (Some (''192.0.2.10'',
     \<lparr>ClientIP = ''192.0.2.10'', ClientPort = 443, ServerPort = 50123, pi_Seq = 1000, pi_Ack = 0\<rparr>))"
  if "Packet cfg = ''syn''"
proof -
  have "addr_string (192, 0, 2, 10) = ''192.0.2.10''"
    by (simp add: IPv4_String_def print_base.simps digit_def char_of_def bit_0)
  then show ?thesis
    using that ParseSYN_encode [OF example_packet_wf [of "[]" "0x02"]] by (simp add: match_packet_def example_packet_def)
qed

lemma empty_whitelist [simp]: "Whitelist_Contains \<lparr>nets = []\<rparr> ip = Some False"
  by (simp add: Whitelist_Contains_def split: option.split)

text \<open>The goroutine of the second SYN.\<close>

definition example_release :: release_task where
  "example_release = \<lparr>rt_pc = R_Sleep, rt_packetID = 2, rt_ip = ''192.0.2.10'',
     rt_key = \<lparr>fk_ClientIP = ''192.0.2.10'', fk_ClientPort = 443, fk_ServerPort = 50123, fk_Seq = 1000\<rparr>,
     rt_delay = 60000000, rt_pacer = 0, rt_started = 1040000000\<rparr>"

lemma example_run:
  "\<exists>cfg d0 d. startup example_seeded example_flags example_startup_env = Inr (cfg, 443, \<lparr>nets = []\<rparr>, d0)
     \<and> MaxPendingDelays cfg = 0 \<and> BurstInterval cfg = 100000000 \<and> Packet cfg = ''syn'' \<and> Action cfg = ''shape'' \<and> \<not> Verbose cfg
     \<and> daemon_run cfg \<lparr>nets = []\<rparr> d0 example_labels d
     \<and> settled_ids (outputs d) = [1] \<and> releases d = [example_release] \<and> pendingDelays d = 1"
proof -
  obtain cfg d0 where s: "startup example_seeded example_flags example_startup_env = Inr (cfg, 443, \<lparr>nets = []\<rparr>, d0)"
     and c: "Packet cfg = ''syn''" "Action cfg = ''shape''" "\<not> Verbose cfg" "\<not> SkipMarkEnabled cfg"
       "MaxPendingDelays cfg = 0" "BurstInterval cfg = 100000000" "BurstMaxDelay cfg = 1000000000"
     and d: "burstPacerByIP d0 = Map.empty" "shapePendingFlows d0 = Map.empty" "releases d0 = []"
       "next_pacer d0 = 0" "pendingDelays d0 = 0" "settled_ids (outputs d0) = []"
    using example_startup by blast
  let ?go = "run_labels cfg \<lparr>nets = []\<rparr> example_labels d0"
  have "\<exists>d. ?go = Some d \<and> settled_ids (outputs d) = [1] \<and> releases d = [example_release] \<and> pendingDelays d = 1"
    using c d by (simp add: example_labels_def handler_def example_syn_def example_syn_parses handle_matched_def
        skip_mark_matches_def handle_shape_def load_pacer_def Let_def shape_accept_def shape_delay_def effect_defs
        example_env_def burstPacer_zero_def example_release_def time_Sub_def time_IsZero_def wrap64_id int64_def)
  then show ?thesis using s c by (auto simp: daemon_run_iff)
qed

text \<open>Drop mode with the default flags, \<open>--seed 1 --max-drops-per-ip 1\<close>.\<close>

definition example_drop_flags :: flags where
  "example_drop_flags = default_flags\<lparr>f_seed := 1, f_max_drops_per_ip := 1\<rparr>"

lemma example_drop_startup:
  "\<exists>cfg d. startup example_seeded example_drop_flags example_startup_env = Inr (cfg, 443, \<lparr>nets = []\<rparr>, d)
     \<and> Packet cfg = ''syn'' \<and> Action cfg = ''drop'' \<and> \<not> Verbose cfg \<and> \<not> SkipMarkEnabled cfg \<and> \<not> RejectMarkEnabled cfg
     \<and> \<not> ForgetOnDrop cfg \<and> MaxDropsPerIP cfg = 1 \<and> MaxPendingDelays cfg = 0
     \<and> state d = NewState (FixedAlgorithm 500000000)"
proof -
  obtain cfg where c: "parseConfig example_drop_flags = Inr cfg"
     "Packet cfg = ''syn''" "Action cfg = ''drop''" "\<not> Verbose cfg" "\<not> SkipMarkEnabled cfg" "\<not> RejectMarkEnabled cfg"
     "\<not> ForgetOnDrop cfg" "MaxDropsPerIP cfg = 1" "MaxPendingDelays cfg = 0" "cfg_Cooldown cfg = 500000000"
     and s: "Mode cfg = ''fixed''" "0 < cfg_Cooldown cfg" "cfg_Whitelist cfg = ''''" "Seed cfg \<noteq> 0"
     "0 < CleanupEvery cfg" "0 < StatsEvery cfg" "QueueNum cfg = 443"
    by (simp add: example_drop_flags_def parse_defaults)
  show ?thesis
    using example_starts [OF c(1) s] c(2-) by (simp add: emit_all_def init_daemon_def)
qed

text \<open>Split mode with the default flags, \<open>--action split --packet payload --seed 1\<close>.\<close>

definition example_split_flags :: flags where
  "example_split_flags = default_flags\<lparr>f_action := ''split'', f_packet := ''payload'', f_seed := 1\<rparr>"

lemma example_split_startup:
  "\<exists>cfg d. startup example_seeded example_split_flags example_startup_env = Inr (cfg, 443, \<lparr>nets = []\<rparr>, d)
     \<and> Packet cfg = ''payload'' \<and> \<not> Verbose cfg \<and> \<not> SkipMarkEnabled cfg \<and> SplitAt cfg = 1 \<and> PassWindow cfg = 0
     \<and> SplitMarkValue cfg = 0x1000 \<and> \<not> FakeBadChecksum cfg \<and> \<not> SplitReverse cfg \<and> \<not> SplitProbe cfg
     \<and> FakePayload cfg = ''tls-invalid-length'' \<and> FakeLength cfg = 0 \<and> SplitSeenTTL cfg = 60000000000
     \<and> splitSeen d = Map.empty \<and> rawSender d = Some \<lparr>fd = 5\<rparr>"
proof -
  obtain cfg where c: "parseConfig example_split_flags = Inr cfg"
     "Packet cfg = ''payload''" "\<not> Verbose cfg" "\<not> SkipMarkEnabled cfg" "SplitAt cfg = 1" "PassWindow cfg = 0"
     "SplitMarkValue cfg = 0x1000" "\<not> FakeBadChecksum cfg" "\<not> SplitReverse cfg" "\<not> SplitProbe cfg" "Action cfg = ''split''"
     "FakePayload cfg = ''tls-invalid-length''" "FakeLength cfg = 0" "SplitSeenTTL cfg = 60000000000"
     and s: "Mode cfg = ''fixed''" "0 < cfg_Cooldown cfg" "cfg_Whitelist cfg = ''''" "Seed cfg \<noteq> 0"
     "0 < CleanupEvery cfg" "0 < StatsEvery cfg" "QueueNum cfg = 443"
    by (simp add: example_split_flags_def parse_defaults)
  show ?thesis
    using example_starts [OF c(1) s] c(2-) by (simp add: emit_all_def init_daemon_def)
qed

end
