(* ===== verification/Daemon_Properties.thy ===== *)
theory Daemon_Properties
  imports Daemon_Invariant Daemon_Example
begin

text \<open>
  Properties of every run of the daemon from its startup: no panic, every packet is settled
  exactly once, and the limit on delayed packets holds.
\<close>

subsection \<open>The state after startup\<close>

lemma config_ok_seed [simp]: "config_ok (cfg\<lparr>Seed := n\<rparr>) = config_ok cfg"
  by (simp add: config_ok_def durations_def)

lemma init_daemon_shape_inv: "shape_inv cfg (init_daemon a raw g)"
  by (auto simp: shape_inv_def init_daemon_def burstPacer_zero_def wrap64_id int64_def)

lemma startup_cases:
  assumes "startup seeded f e = Inr (cfg, q, wl, d)"
  obtains cfg0 a raw calls where "parseConfig f = Inr cfg0" "cfg = cfg0 \<or> cfg = cfg0\<lparr>Seed := unix_nano e\<rparr>"
    "NewAlgorithm (Mode cfg) (cfg_Cooldown cfg) (MinDelay cfg) (MaxDelay cfg) (Jitter cfg) = Inr a"
    "NewWhitelist (cfg_Whitelist cfg) = Inr wl" "open_raw_sender cfg e = (Inr raw, calls)" "0 < CleanupEvery cfg" "0 < StatsEvery cfg"
    "d = emit_all (map Printed (printStartupConfig cfg (Whitelist_Len wl)))
       (emit_all (map Syscall calls) (init_daemon a raw (seeded (Seed cfg))))"
  using assms that by (auto simp: startup_def Let_def split: sum.splits if_splits prod.splits)

lemma startup_valid:
  assumes "startup seeded f e = Inr (cfg, q, wl, d)" "\<And>n. fair_rng (seeded n)"
  shows "daemon_inv cfg d \<and> config_ok cfg \<and> list_all net_ok (nets wl) \<and> accounted d = {#}
    \<and> releases d = [] \<and> second_sends d = []"
  using assms(1)
proof (cases rule: startup_cases)
  case (1 cfg0 a raw)
  have ok: "config_ok cfg" using parsed_config_ok [OF 1(1)] 1(2) by auto
  then have "valid_algorithm a"
    using NewAlgorithm_valid [OF _ _ _ 1(3)] by (auto simp: config_ok_def durations_def)
  then have "table_inv d"
    using assms(2) NewState_ok [of algo_lo algo_hi a]
    by (simp add: 1(8) emit_all_def table_inv_def init_daemon_def) (simp add: NewState_def)
  moreover have "shape_inv cfg d"
    unfolding 1(8) by (rule shape_inv_cong [OF _ init_daemon_shape_inv]) simp
  moreover have "accounted d = {#}" "releases d = []" "second_sends d = []"
    by (simp_all add: 1(8) accounted_def owed_def emit_all_def init_daemon_def)
  ultimately show ?thesis
    using ok NewWhitelist_nets_ok [OF 1(4)] by (simp add: daemon_inv_def)
qed

text \<open>The runs of a daemon that has started: \<open>flag.Int\<close> gives a 64-bit limit.\<close>

definition started :: "(int \<Rightarrow> rng) \<Rightarrow> flags \<Rightarrow> startup_env \<Rightarrow> Config \<Rightarrow> Whitelist \<Rightarrow> daemon \<Rightarrow> bool" where
  "started seeded f e cfg wl d \<longleftrightarrow>
     (\<exists>q. startup seeded f e = Inr (cfg, q, wl, d)) \<and> (\<forall>n. fair_rng (seeded n)) \<and> MaxPendingDelays cfg \<le> MaxInt64"

lemma started_run_inv:
  assumes "started seeded f e cfg wl d0" "daemon_run cfg wl d0 ls d"
  shows "daemon_inv cfg d \<and> config_ok cfg \<and> list_all net_ok (nets wl)"
  using assms startup_valid [of seeded f e cfg _ wl d0] run_inv [OF assms(2)] by (auto simp: started_def)

subsection \<open>One invocation of the handler\<close>

lemma handler_ok:
  assumes "valid_algorithm (algorithm (state d))" "fair_rng (rand_source d)" "list_all net_ok (nets wl)"
  shows "\<exists>d'. handler cfg wl at e d = Some d'
     \<and> adds (case attr_PacketID at of None \<Rightarrow> [] | Some pid \<Rightarrow> [pid]) d d'"
proof (cases "attr_PacketID at")
  case None
  then show ?thesis by (simp add: handler_def adds_refl)
next
  case (Some pid)
  show ?thesis
  proof (cases "attr_Payload at")
    case None
    with Some show ?thesis by (simp add: handler_def adds_verdict)
  next
    case pl: (Some pkt)
    obtain m where m: "match_packet cfg pkt = Some m" using match_packet_total by blast
    show ?thesis
      using Some pl m handle_payload_ok [of cfg pid "attr_Mark at" pkt e d]
        handle_matched_ok [OF assms, of cfg pid "attr_Mark at" _ _ e]
      by (cases m) (auto simp: handler_def adds_verdict)
  qed
qed

lemma step_accounted:
  assumes "do_step cfg wl l d = Some d'" "table_inv d" "list_all net_ok (nets wl)"
  shows "accounted d' = accounted d + mset (packet_ids [l])"
proof (cases l)
  case (LPacket a e)
  then show ?thesis
    using assms handler_ok [of d wl cfg a e] accounted_adds by (auto simp: packet_ids_def table_inv_def)
qed (use assms accounted_quiet accounted_release in \<open>auto simp: packet_ids_def\<close>)

lemma packet_ids_snoc: "packet_ids (ls @ [l]) = packet_ids ls @ packet_ids [l]"
  by (simp add: packet_ids_def)

lemma run_accounted:
  assumes "daemon_run cfg wl d0 ls d" "daemon_inv cfg d0" "MaxPendingDelays cfg \<le> MaxInt64" "list_all net_ok (nets wl)"
  shows "accounted d = accounted d0 + mset (packet_ids ls)"
  using assms
proof (induction rule: daemon_run.induct)
  case run_start
  then show ?case by (simp add: packet_ids_def)
next
  case (run_step ls d l d')
  have "table_inv d" using run_inv [OF run_step.hyps(1)] run_step.prems by (simp add: daemon_inv_def)
  then show ?case
    using step_accounted [OF run_step.hyps(2)] run_step by (simp add: packet_ids_snoc ac_simps)
qed

subsection \<open>Properties of every run\<close>

lemma example_started:
  "\<exists>cfg d0 d. started example_seeded example_flags example_startup_env cfg \<lparr>nets = []\<rparr> d0
     \<and> BurstInterval cfg = 100000000 \<and> Packet cfg = ''syn'' \<and> Action cfg = ''shape'' \<and> \<not> Verbose cfg
     \<and> daemon_run cfg \<lparr>nets = []\<rparr> d0 example_labels d
     \<and> settled_ids (outputs d) = [1] \<and> releases d = [example_release] \<and> pendingDelays d = 1"
  using example_run fair_rng_sconst [of "- 1"] by (fastforce simp: started_def example_seeded_def)

text \<open>
  C1. Every packet is settled exactly once. In every run of a started daemon, under every
  interleaving of the handler, the release goroutines, the raw sends and the cleanup loops and
  whatever system calls fail, the packets the kernel handed over are, as a multiset, those that
  have been given one final verdict and those a live goroutine still owes one. The verdict that
  replaces the packet, whose error the code tests, counts only if it succeeded.
\<close>

theorem every_packet_settled_once:
  assumes "started seeded f e cfg wl d0" "daemon_run cfg wl d0 ls d"
  shows "mset (settled_ids (outputs d))
       + mset (map rt_packetID (filter (\<lambda>r. rt_pc r \<noteq> R_Exit) (releases d))) = mset (packet_ids ls)"
proof -
  obtain q where "startup seeded f e = Inr (cfg, q, wl, d0)" "\<And>n. fair_rng (seeded n)" "MaxPendingDelays cfg \<le> MaxInt64"
    using assms(1) by (auto simp: started_def)
  then show ?thesis
    using run_accounted [OF assms(2)] startup_valid [of seeded f e cfg q wl d0]
    by (simp add: accounted_def owed_def)
qed

theorem every_packet_settled_once_witness:
  "\<exists>cfg d0 d. daemon_run cfg \<lparr>nets = []\<rparr> d0 example_labels d \<and> releases d = [example_release]
     \<and> mset (settled_ids (outputs d))
       + mset (map rt_packetID (filter (\<lambda>r. rt_pc r \<noteq> R_Exit) (releases d))) = {#1, 2#}"
proof -
  obtain cfg d0 d where r: "started example_seeded example_flags example_startup_env cfg \<lparr>nets = []\<rparr> d0"
      "daemon_run cfg \<lparr>nets = []\<rparr> d0 example_labels d" "releases d = [example_release]"
    using example_started by blast
  have "packet_ids example_labels = [1, 2]" by (simp add: packet_ids_def example_labels_def example_syn_def)
  then have "mset (settled_ids (outputs d))
       + mset (map rt_packetID (filter (\<lambda>r. rt_pc r \<noteq> R_Exit) (releases d))) = {#1, 2#}"
    using every_packet_settled_once [OF r(1,2)] by simp
  then show ?thesis using r(2,3) by blast
qed

lemma second_send_total:
  assumes "i < length (second_sends d)"
  shows "\<exists>d'. second_send_step cfg i setmark sendto d = Some d'"
proof -
  let ?d = "if 0 < SplitDelay cfg then emit (Sleep (SplitDelay cfg)) d else d"
  obtain err cs where "raw_send (ss_packet (second_sends d ! i)) (ss_mark (second_sends d ! i)) setmark sendto ?d
      = Some (err, emit_all (map Syscall cs) ?d)" using raw_send_total by blast
  then show ?thesis using assms by (simp add: second_send_step_def Let_def)
qed

text \<open>
  C3. The daemon does not panic: in every state a started daemon reaches, the handler returns on
  every attribute and payload and whatever its environment answers, and so does every goroutine
  that sends a second segment.
\<close>

theorem daemon_never_panics:
  assumes "started seeded f e cfg wl d0" "daemon_run cfg wl d0 ls d"
  shows "(\<exists>d'. handler cfg wl at en d = Some d')
       \<and> (\<forall>i < length (second_sends d). \<exists>d'. second_send_step cfg i setmark sendto d = Some d')"
proof -
  have inv: "table_inv d" "list_all net_ok (nets wl)"
    using started_run_inv [OF assms] by (simp_all add: daemon_inv_def)
  then show ?thesis
    using handler_ok [of d wl cfg at en] second_send_total by (auto simp: table_inv_def)
qed

theorem daemon_never_panics_witness:
  "\<exists>cfg d0 d. daemon_run cfg \<lparr>nets = []\<rparr> d0 example_labels d
     \<and> (\<exists>d'. handler cfg \<lparr>nets = []\<rparr> (example_syn 3) (example_env 1050000000) d = Some d')"
proof -
  obtain cfg d0 d where r: "started example_seeded example_flags example_startup_env cfg \<lparr>nets = []\<rparr> d0"
      "daemon_run cfg \<lparr>nets = []\<rparr> d0 example_labels d"
    using example_started by blast
  then show ?thesis using daemon_never_panics [OF r] by blast
qed

text \<open>
  C2. The bookkeeping of delayed packets is exact in every state a started daemon reaches: a flow is
  marked as pending exactly while a goroutine that will unmark it is alive, no two goroutines hold
  the same flow, a pacer marked as pending has a sleeping goroutine, and with a limit configured the
  counter of pending delays is the number of live goroutines and never exceeds the limit.
\<close>

theorem pending_delays_exact:
  assumes "started seeded f e cfg wl d0" "daemon_run cfg wl d0 ls d"
  shows "(0 < MaxPendingDelays cfg \<longrightarrow> pendingDelays d = len (releases d) \<and> pendingDelays d \<le> MaxPendingDelays cfg)
       \<and> dom (shapePendingFlows d) = rt_key ` {r \<in> set (releases d). rt_pc r \<in> {R_Sleep, R_DeleteFlow}}
       \<and> distinct (map rt_key (filter (\<lambda>r. rt_pc r \<in> {R_Sleep, R_DeleteFlow}) (releases d)))
       \<and> (\<forall>a. Pending (pacers d a) \<longrightarrow> (\<exists>r \<in> set (releases d). rt_pc r = R_Sleep \<and> rt_pacer r = a))"
proof -
  have inv: "shape_inv cfg d" using started_run_inv [OF assms] by (simp add: daemon_inv_def)
  have lim: "MaxPendingDelays cfg \<le> MaxInt64" using assms(1) by (simp add: started_def)
  have h: "holds_flow = (\<lambda>r. rt_pc r \<in> {R_Sleep, R_DeleteFlow})" by (auto simp: holds_flow_def)
  have "wrap64 (len (releases d)) = len (releases d)" if "0 < MaxPendingDelays cfg"
    using inv that lim by (intro wrap64_id) (auto simp: shape_inv_def int64_def)
  then show ?thesis using inv unfolding shape_inv_def h by auto
qed

theorem pending_delays_exact_witness:
  "\<exists>cfg d0 d. daemon_run cfg \<lparr>nets = []\<rparr> d0 example_labels d \<and> releases d = [example_release]
     \<and> dom (shapePendingFlows d) = {rt_key example_release}"
proof -
  obtain cfg d0 d where r: "started example_seeded example_flags example_startup_env cfg \<lparr>nets = []\<rparr> d0"
      "daemon_run cfg \<lparr>nets = []\<rparr> d0 example_labels d" "releases d = [example_release]"
    using example_started by blast
  have "{r \<in> set (releases d). rt_pc r \<in> {R_Sleep, R_DeleteFlow}} = {example_release}"
    using r(3) by (auto simp: example_release_def)
  then show ?thesis using pending_delays_exact [OF r(1,2)] r(2,3) by auto
qed

end
