(* ===== verification/Run_Invariants.thy ===== *)
theory Run_Invariants
  imports Daemon_Properties
begin

text \<open>
  Invariants of the runs of a started daemon. The locale \<open>run_invariant\<close> is the contract an
  invariant has to meet: it holds when the daemon has started and every step keeps it, where it may
  refer to the steps taken so far. Each invariant below is an interpretation.
\<close>

subsection \<open>Traces\<close>

type_synonym trace = "(daemon \<times> label \<times> daemon) list"

fun trace_of :: "Config \<Rightarrow> Whitelist \<Rightarrow> label list \<Rightarrow> daemon \<Rightarrow> trace" where
  "trace_of cfg wl [] d = []"
| "trace_of cfg wl (l # ls) d =
     (case do_step cfg wl l d of None \<Rightarrow> [] | Some d' \<Rightarrow> (d, l, d') # trace_of cfg wl ls d')"

lemma trace_of_snoc:
  assumes "run_labels cfg wl ls d0 = Some d" "do_step cfg wl l d = Some d'"
  shows "trace_of cfg wl (ls @ [l]) d0 = trace_of cfg wl ls d0 @ [(d, l, d')]"
  using assms by (induction ls arbitrary: d0) (auto split: bind_splits)

locale run_invariant =
  fixes inv :: "Config \<Rightarrow> Whitelist \<Rightarrow> trace \<Rightarrow> daemon \<Rightarrow> bool"
  assumes at_start: "started seeded f e cfg wl d \<Longrightarrow> config_ok cfg \<Longrightarrow> inv cfg wl [] d"
    and at_step: "inv cfg wl tr d \<Longrightarrow> daemon_inv cfg d \<Longrightarrow> config_ok cfg \<Longrightarrow> do_step cfg wl l d = Some d' \<Longrightarrow>
      inv cfg wl (tr @ [(d, l, d')]) d'"
begin

lemma holds:
  assumes "daemon_run cfg wl d0 ls d" "started seeded f e cfg wl d0"
  shows "inv cfg wl (trace_of cfg wl ls d0) d"
  using assms
proof (induction rule: daemon_run.induct)
  case run_start
  then show ?case using at_start started_run_inv daemon_run.run_start by fastforce
next
  case (run_step ls d l d')
  have "daemon_inv cfg d \<and> config_ok cfg" using started_run_inv [OF run_step.prems run_step.hyps(1)] by blast
  then show ?case
    using run_step trace_of_snoc [of cfg wl ls d0 d l d'] at_step by (auto simp: daemon_run_iff)
qed

end

text \<open>The labels of a trace.\<close>

definition labels_of :: "trace \<Rightarrow> label list" where
  "labels_of tr = map (\<lambda>(_, l, _). l) tr"

lemma labels_of_simps [simp]: "labels_of [] = []" "labels_of (tr @ [(d, l, d')]) = labels_of tr @ [l]"
  by (simp_all add: labels_of_def)

lemma labels_of_trace: "run_labels cfg wl ls d0 = Some d \<Longrightarrow> labels_of (trace_of cfg wl ls d0) = ls"
  by (induction ls arbitrary: d0) (auto simp: labels_of_def split: bind_splits)

subsection \<open>The counters\<close>

text \<open>The client of a packet that reaches the skip-mark test: the packets the counters count.\<close>

definition matched_client :: "Config \<Rightarrow> label \<Rightarrow> string option" where
  "matched_client cfg l =
     (case l of
        LPacket a e \<Rightarrow>
          (case (attr_PacketID a, attr_Payload a) of
             (Some pid, Some pkt) \<Rightarrow>
               if Packet cfg = ''payload'' then None
               else (case match_packet cfg pkt of Some (Some (ip, info)) \<Rightarrow> Some ip | _ \<Rightarrow> None)
           | _ \<Rightarrow> None)
      | _ \<Rightarrow> None)"

definition uncounted :: "release_task \<Rightarrow> bool" where
  "uncounted r \<longleftrightarrow> rt_pc r \<in> {R_Sleep, R_DeleteFlow, R_Count}"

definition counted :: "daemon \<Rightarrow> u64" where
  "counted d = Accepted (counters d) + Dropped (counters d) + DelayOverflowDropped (counters d)
     + of_nat (length (filter uncounted (releases d)))"

text \<open>What a step may count: the fields \<open>counted\<close> reads.\<close>

definition count_part :: "daemon \<Rightarrow> Counters \<times> release_task list" where
  "count_part d = (counters d, releases d)"

lemma counted_cong: "count_part d' = count_part d \<Longrightarrow> counted d' = counted d"
  by (simp add: counted_def count_part_def)

interpretation cnt: split_frame count_part
  by unfold_locales (simp_all add: count_part_def)

text \<open>The steps of the second segments and the periodic loops leave the counters, the goroutines and the pacers alone.\<close>

definition core_part :: "daemon \<Rightarrow> Counters \<times> release_task list \<times> int \<times> (nat \<Rightarrow> burstPacerState) \<times> nat \<times> (shapeFlowKey \<rightharpoonup> bool) \<times> RawIPv4Sender option" where
  "core_part d = (counters d, releases d, pendingDelays d, pacers d, next_pacer d, shapePendingFlows d, rawSender d)"

interpretation core: split_frame core_part
  by unfold_locales (simp_all add: core_part_def)

lemma housekeeping_frame:
  assumes "do_step cfg wl l d = Some d'" "\<And>a e. l \<noteq> LPacket a e" "\<And>i now. l \<noteq> LRelease i now"
  shows "core_part d' = core_part d"
proof (cases l)
  case (LSecondSend i x y)
  then show ?thesis using assms(1) core.second_send_part by auto
next
  case (LSeenTick now keys)
  then show ?thesis using assms(1) core.seen_tick_part by auto
next
  case LSeenStep
  then show ?thesis using assms(1) core.seen_step_part by auto
qed (use assms in \<open>auto simp: cleanupLoop_tick_def
    splitPayloadWindowCleanupLoop_tick_def statsLoop_tick_def shapeCleanup_tick_def shapeCleanup_step_def report_def
    core_part_def effect_defs Let_def split: if_splits option.splits list.splits prod.splits\<close>)

lemma shape_counted:
  "counted (snd (load_pacer ip d)) = counted d" "counted (set_pacer a p d) = counted d"
  "counted (shape_drop cfg pid m ev tag d) = counted d + 1" "counted (shape_accept cfg pid ip now a d) = counted d + 1"
  "counted (shape_delay cfg pid ip fk now dl a d) = counted d + 1"
  by (simp_all add: load_pacer_def shape_drop_def shape_accept_def shape_delay_def Let_def effect_defs counter_defs
      counted_def uncounted_def split: option.split)

lemma handle_shape_counted: "counted (handle_shape cfg pid m ip info now d) = counted d + 1"
proof -
  obtain a d1 where l: "load_pacer ip d = (a, d1)" by (metis prod.exhaust)
  have "counted d1 = counted d" using shape_counted(1) [of ip d] l by simp
  then show ?thesis unfolding handle_shape_def Let_def l by (simp add: shape_counted)
qed

lemma handle_drop_counted: "handle_drop cfg pid m ip now e d = Some d' \<Longrightarrow> counted d' = counted d + 1"
  by (auto simp: handle_drop_def Let_def split_beta effect_defs counter_defs counted_def
      split: option.splits if_splits bind_splits)

lemma handle_matched_counted: "handle_matched cfg wl pid m ip info e d = Some d' \<Longrightarrow> counted d' = counted d + 1"
  using handle_shape_counted handle_drop_counted
  by (auto simp: handle_matched_def effect_defs counter_defs counted_def split: if_splits bind_splits)

lemma handler_counted:
  assumes "handler cfg wl a e d = Some d'"
  shows "counted d' = counted d + (if matched_client cfg (LPacket a e) = None then 0 else 1)"
proof -
  have acc: "counted (accept pid d) = counted d" for pid by (rule counted_cong) simp
  have pl: "counted d' = counted d" if "handle_payload cfg pid m pkt e d = Some d'" for pid m pkt
    using counted_cong cnt.handle_payload_part [OF that] by blast
  show ?thesis
    using assms handle_matched_counted
    by (auto simp: handler_def matched_client_def acc dest: pl split: option.splits if_splits bind_splits)
qed

lemma step_counted:
  assumes "do_step cfg wl l d = Some d'"
  shows "counted d' = counted d + (if matched_client cfg l = None then 0 else 1)"
proof (cases "\<exists>a e. l = LPacket a e")
  case True
  then show ?thesis using assms handler_counted by auto
next
  case False
  then have m: "matched_client cfg l = None" by (auto simp: matched_client_def split: label.splits)
  show ?thesis
  proof (cases "\<exists>i now. l = LRelease i now")
    case True
    then obtain i now where "release_step cfg i now d = Some d'" using assms by auto
    then show ?thesis
      by (cases rule: release_cases) (auto simp: m counted_def uncounted_def effect_defs counter_defs)
  next
    case r: False
    have "core_part d' = core_part d" using housekeeping_frame [OF assms] False r by blast
    then show ?thesis by (simp add: m counted_def core_part_def)
  qed
qed

interpretation counts: run_invariant
  "\<lambda>cfg wl tr d. counted d = of_nat (length (filter (\<lambda>l. matched_client cfg l \<noteq> None) (labels_of tr)))"
proof unfold_locales
  fix seeded f e cfg wl d
  assume "started seeded f e cfg wl d"
  then obtain q where "startup seeded f e = Inr (cfg, q, wl, d)" by (auto simp: started_def)
  then show "counted d = of_nat (length (filter (\<lambda>l. matched_client cfg l \<noteq> None) (labels_of [])))"
    by (cases rule: startup_cases) (simp add: counted_def emit_all_def init_daemon_def Counters_zero_def)
qed (use step_counted in auto)

text \<open>
  C5. No packet is lost from the statistics. In every run of a started daemon the counters of
  accepted, dropped and overflow-dropped packets and the delayed packets not yet counted add up to
  the number of packets that matched, modulo 2 to the 64.
\<close>

theorem counters_conserved:
  assumes "started seeded f e cfg wl d0" "daemon_run cfg wl d0 ls d"
  shows "Accepted (counters d) + Dropped (counters d) + DelayOverflowDropped (counters d)
       + of_nat (length (filter (\<lambda>r. rt_pc r \<in> {R_Sleep, R_DeleteFlow, R_Count}) (releases d)))
     = of_nat (length (filter (\<lambda>l. matched_client cfg l \<noteq> None) ls))"
  using counts.holds [OF assms(2,1)] assms(2)
  by (simp add: daemon_run_iff labels_of_trace counted_def uncounted_def [abs_def])

theorem counters_conserved_witness:
  "\<exists>cfg d0 d. daemon_run cfg \<lparr>nets = []\<rparr> d0 example_labels d \<and> releases d = [example_release]
     \<and> Accepted (counters d) + Dropped (counters d) + DelayOverflowDropped (counters d) = 1"
proof -
  obtain cfg d0 d where r: "started example_seeded example_flags example_startup_env cfg \<lparr>nets = []\<rparr> d0"
      "daemon_run cfg \<lparr>nets = []\<rparr> d0 example_labels d" "releases d = [example_release]" "Packet cfg = ''syn''"
    using example_started by blast
  have "filter (\<lambda>l. matched_client cfg l \<noteq> None) example_labels = example_labels"
    by (simp add: example_labels_def matched_client_def example_syn_def r(4) example_syn_parses [OF r(4)])
  then have "length (filter (\<lambda>l. matched_client cfg l \<noteq> None) example_labels) = 2"
    by (simp only: example_labels_def) simp
  moreover have "filter (\<lambda>r. rt_pc r \<in> {R_Sleep, R_DeleteFlow, R_Count}) (releases d) = [example_release]"
    by (simp add: r(3) example_release_def)
  ultimately have "Accepted (counters d) + Dropped (counters d) + DelayOverflowDropped (counters d) = 1"
    using counters_conserved [OF r(1,2)] by (simp add: add.assoc)
  then show ?thesis using r(2,3) by blast
qed

end
