(* ===== verification/Run_Limits.thy ===== *)
theory Run_Limits
  imports Run_Invariants
begin

text \<open>
  More invariants of the runs: when the raw socket is used, how long a packet is delayed, and which
  statistics shape mode keeps.
\<close>

subsection \<open>The raw socket\<close>

definition is_syscall :: "effect \<Rightarrow> bool" where
  "is_syscall x \<longleftrightarrow> (case x of Syscall c \<Rightarrow> True | _ \<Rightarrow> False)"

lemma is_syscall_simps [simp]:
  "is_syscall (Syscall c)" "\<not> is_syscall (SetVerdict pid v)" "\<not> is_syscall (SetVerdictWithMark pid v m)"
  "\<not> is_syscall (SetVerdictModPacketWithConnMark pid v m p ok)" "\<not> is_syscall (Sleep t)"
  "\<not> is_syscall (Printed s)" "\<not> is_syscall (PrintedErr s)" "\<not> is_syscall CancelContext" "\<not> is_syscall CloseQueue"
  by (simp_all add: is_syscall_def)

text \<open>What the raw socket has been used for: the second segments to send and the system calls made.\<close>

definition raw_use :: "daemon \<Rightarrow> second_task list \<times> effect list" where
  "raw_use d = (second_sends d, filter is_syscall (outputs d))"

lemma raw_use_effects [simp]:
  "\<not> is_syscall x \<Longrightarrow> raw_use (emit x d) = raw_use d" "raw_use (logVerbose cfg tag d) = raw_use d"
  "raw_use (remember ev d) = raw_use d" "raw_use (bump f d) = raw_use d" "raw_use (accept pid d) = raw_use d"
  "raw_use (dropOrReject cfg pid m d) = raw_use d" "raw_use (seen_store k t d) = raw_use d"
  "raw_use (seen_delete k d) = raw_use d" "raw_use (set_pacer a p d) = raw_use d" "raw_use (report n s d) = raw_use d"
  "raw_use (emit_all (map Printed xs) d) = raw_use d"
  by (simp_all add: raw_use_def effect_defs report_def Let_def filter_map o_def)

lemma raw_use_fields [simp]:
  "raw_use (d\<lparr>state := s\<rparr>) = raw_use d" "raw_use (d\<lparr>state := s, rand_source := g\<rparr>) = raw_use d"
  "raw_use (d\<lparr>splitPayloadWindow := w\<rparr>) = raw_use d" "raw_use (d\<lparr>splitSeen := m\<rparr>) = raw_use d"
  "raw_use (d\<lparr>shapePendingFlows := fl\<rparr>) = raw_use d" "raw_use (d\<lparr>pendingDelays := n\<rparr>) = raw_use d"
  "raw_use (d\<lparr>releases := rs\<rparr>) = raw_use d" "raw_use (d\<lparr>shapeSweep := sw\<rparr>) = raw_use d"
  "raw_use (d\<lparr>burstPacerByIP := b\<rparr>) = raw_use d" "raw_use (d\<lparr>rand_source := g\<rparr>) = raw_use d"
  "raw_use (d\<lparr>seenSweep := ss\<rparr>) = raw_use d"
  by (simp_all add: raw_use_def)

lemma cleanup_ticks_raw_use [simp]: "raw_use (cleanup_ticks cfg ts d) = raw_use d"
  by (induction ts arbitrary: d) (simp_all add: cleanupLoop_tick_def split_beta)

lemma handle_shape_raw_use: "raw_use (handle_shape cfg pid m ip info now d) = raw_use d"
proof -
  obtain a d1 where l: "load_pacer ip d = (a, d1)" by (metis prod.exhaust)
  have "raw_use d1 = raw_use d" using l by (auto simp: load_pacer_def raw_use_def split: option.splits)
  then show ?thesis
    unfolding handle_shape_def Let_def l
    by (simp add: shape_drop_def shape_accept_def shape_delay_def Let_def split: option.split)
qed

lemma handle_matched_raw_use: "handle_matched cfg wl pid m ip info e d = Some d' \<Longrightarrow> raw_use d' = raw_use d"
  by (auto simp: handle_matched_def handle_shape_raw_use handle_drop_def Let_def split_beta
      split: if_splits bind_splits)

lemma probe_raw_use:
  assumes "handle_payload cfg pid m pkt e d = Some d'" "SplitProbe cfg" "\<not> SplitReverse cfg" "\<not> FakeBadChecksum cfg"
  shows "raw_use d' = raw_use d"
proof -
  have "raw_use x' = raw_use x" if "split_packet cfg pid m pkt info e x = Some x'" for info x x'
    using that assms(2-4)
    by (auto simp: split_packet_def send_segments_def send_forward_def Let_def split: bind_splits sum.splits if_splits)
  then show ?thesis
    using assms(1) by (auto simp: handle_payload_def Let_def split: bind_splits if_splits prod.splits)
qed

lemma quiet_raw_use:
  assumes "do_step cfg wl l d = Some d'" "\<And>a e. l \<noteq> LPacket a e" "second_sends d = []"
  shows "raw_use d' = raw_use d"
proof (cases "\<exists>i now. l = LRelease i now")
  case True
  then obtain i now where "release_step cfg i now d = Some d'" using assms(1) by auto
  then show ?thesis by (cases rule: release_cases) (auto simp: raw_use_def effect_defs)
next
  case False
  then show ?thesis
    using assms by (cases l) (auto simp: second_send_step_def cleanupLoop_tick_def splitSeenCleanupLoop_tick_def
      splitSeenCleanupLoop_step_def splitPayloadWindowCleanupLoop_tick_def statsLoop_tick_def shapeCleanup_tick_def
      shapeCleanup_step_def raw_use_def
      report_def effect_defs Let_def filter_map o_def split: if_splits option.splits list.splits prod.splits)
qed

definition raw_ready :: "Config \<Rightarrow> daemon \<Rightarrow> bool" where
  "raw_ready cfg d \<longleftrightarrow>
     (if Action cfg = ''split'' \<and> \<not> SplitProbe cfg then rawSender d \<noteq> None else raw_use d = ([], []))"

lemma open_raw_sender_cases:
  assumes "open_raw_sender cfg e = (Inr raw, calls)"
  shows "if Action cfg = ''split'' \<and> \<not> SplitProbe cfg
    then \<exists>n. socket_result e = Inr n \<and> raw = Some \<lparr>fd = n\<rparr> \<and> calls = [SysSocket, SysSetHdrIncl n]
    else raw = None \<and> calls = []"
  using assms
  by (auto simp: open_raw_sender_def NewRawIPv4Sender_def split: if_splits sum.splits option.splits prod.splits)

lemma startup_raw_ready:
  assumes "startup seeded f e = Inr (cfg, q, wl, d)"
  shows "raw_ready cfg d"
  using assms
  by (cases rule: startup_cases)
     (auto simp: raw_ready_def init_daemon_def raw_use_def emit_all_def filter_map o_def
       dest!: open_raw_sender_cases split: if_splits)

text \<open>In split mode every packet takes the payload branch, and no step replaces the sender.\<close>

lemma split_rawSender:
  assumes "do_step cfg wl l d = Some d'" "Packet cfg = ''payload''"
  shows "rawSender d' = rawSender d"
proof -
  have pl: "rawSender d' = rawSender d" if "handle_payload cfg pid m pkt e d = Some d'" for pid m pkt e
    using core.handle_payload_part [OF that] by (simp add: core_part_def)
  consider (packet) a e where "l = LPacket a e" | (release) i now where "l = LRelease i now"
    | (other) "\<And>a e. l \<noteq> LPacket a e" "\<And>i now. l \<noteq> LRelease i now" by blast
  then show ?thesis
  proof cases
    case (packet a e)
    with assms show ?thesis
      by (auto simp: handler_def accept_def emit_def dest: pl split: option.splits)
  next
    case (release i now)
    with assms have "release_step cfg i now d = Some d'" by simp
    then show ?thesis by (cases rule: release_cases) (auto simp: effect_defs)
  next
    case other
    then show ?thesis using housekeeping_frame [OF assms(1)] by (simp add: core_part_def)
  qed
qed

lemma unused_raw_use:
  assumes "do_step cfg wl l d = Some d'" "Packet cfg = ''payload'' \<Longrightarrow> SplitProbe cfg" "config_ok cfg"
    and "second_sends d = []"
  shows "raw_use d' = raw_use d"
proof (cases "\<exists>a e. l = LPacket a e")
  case True
  have "\<not> SplitReverse cfg" "\<not> FakeBadChecksum cfg" if "SplitProbe cfg"
    using assms(3) that unfolding config_ok_def by blast+
  then have pl: "raw_use d' = raw_use d" if "handle_payload cfg pid m pkt e d = Some d'" "Packet cfg = ''payload''" for pid m pkt e
    using probe_raw_use that assms(2) by blast
  obtain a e where "handler cfg wl a e d = Some d'" using True assms(1) by auto
  then show ?thesis
    using handle_matched_raw_use pl by (auto simp: handler_def split: option.splits if_splits bind_splits)
next
  case False
  then show ?thesis using quiet_raw_use [OF assms(1)] assms(4) by blast
qed

lemma step_raw_ready:
  assumes "do_step cfg wl l d = Some d'" "raw_ready cfg d" "config_ok cfg"
  shows "raw_ready cfg d'"
proof -
  have split: "Action cfg = ''split'' \<longleftrightarrow> Packet cfg = ''payload''" using assms(3) unfolding config_ok_def by blast
  show ?thesis
  proof (cases "Action cfg = ''split'' \<and> \<not> SplitProbe cfg")
    case True
    then show ?thesis using split_rawSender [OF assms(1)] split assms(2) by (simp add: raw_ready_def)
  next
    case False
    then have "raw_use d = ([], [])" using assms(2) by (simp add: raw_ready_def)
    moreover from this have "second_sends d = []" by (simp add: raw_use_def)
    ultimately show ?thesis
      using False unused_raw_use [OF assms(1) _ assms(3)] split by (auto simp: raw_ready_def)
  qed
qed

interpretation raw: run_invariant "\<lambda>cfg wl tr d. raw_ready cfg d"
  by unfold_locales (auto simp: started_def intro: startup_raw_ready step_raw_ready)

text \<open>The example of split mode, with the facts the theorems about the socket need.\<close>

lemma example_split_action:
  "\<exists>cfg d. startup example_seeded example_split_flags example_startup_env = Inr (cfg, 443, \<lparr>nets = []\<rparr>, d)
     \<and> Action cfg = ''split'' \<and> \<not> SplitProbe cfg \<and> MaxPendingDelays cfg \<le> MaxInt64"
proof -
  obtain cfg d where c: "startup example_seeded example_split_flags example_startup_env = Inr (cfg, 443, \<lparr>nets = []\<rparr>, d)"
      "Packet cfg = ''payload''" "\<not> SplitProbe cfg"
    using example_split_startup by blast
  have ok: "config_ok cfg"
    using startup_valid [OF c(1)] fair_rng_sconst [of "- 1"] by (simp add: example_seeded_def)
  then have "Action cfg = ''split''" using c(2) unfolding config_ok_def by blast
  moreover have "MaxPendingDelays cfg \<le> MaxInt64"
    using c(1) by (cases rule: startup_cases) (auto simp: example_split_flags_def parse_defaults)
  ultimately show ?thesis using c(1,3) by blast
qed

text \<open>
  C16. The raw socket is used exactly where it is needed. In every state a started daemon reaches,
  split mode without the probe option has its sender, so that no send meets a nil sender; in every
  other configuration no system call on a raw socket has been made, its opening included, and no
  second segment waits.
\<close>

theorem raw_socket_ready:
  assumes "started seeded f e cfg wl d0" "daemon_run cfg wl d0 ls d"
  shows "(Action cfg = ''split'' \<and> \<not> SplitProbe cfg \<longrightarrow> (\<exists>r. rawSender d = Some r))
       \<and> (\<not> (Action cfg = ''split'' \<and> \<not> SplitProbe cfg) \<longrightarrow>
            second_sends d = [] \<and> (\<forall>c. Syscall c \<notin> set (outputs d)))"
  using raw.holds [OF assms(2,1)]
  by (auto simp: raw_ready_def raw_use_def filter_empty_conv split: if_splits)

theorem raw_socket_ready_witness:
  "(\<exists>cfg d0 d. daemon_run cfg \<lparr>nets = []\<rparr> d0 example_labels d \<and> Action cfg = ''shape''
     \<and> second_sends d = [] \<and> Syscall SysSocket \<notin> set (outputs d))
   \<and> (\<exists>cfg d r. daemon_run cfg \<lparr>nets = []\<rparr> d [] d \<and> Action cfg = ''split'' \<and> rawSender d = Some r
     \<and> Syscall SysSocket \<in> set (outputs d))"
proof -
  obtain cfg d0 d where r: "started example_seeded example_flags example_startup_env cfg \<lparr>nets = []\<rparr> d0"
      "daemon_run cfg \<lparr>nets = []\<rparr> d0 example_labels d" "Action cfg = ''shape''"
    using example_started by blast
  obtain cfg2 d2 where s: "startup example_seeded example_split_flags example_startup_env = Inr (cfg2, 443, \<lparr>nets = []\<rparr>, d2)"
      "Action cfg2 = ''split''" "\<not> SplitProbe cfg2" "MaxPendingDelays cfg2 \<le> MaxInt64"
    using example_split_action by blast
  then have st: "started example_seeded example_split_flags example_startup_env cfg2 \<lparr>nets = []\<rparr> d2"
    using fair_rng_sconst [of "- 1"] by (auto simp: started_def example_seeded_def)
  have "Syscall SysSocket \<in> set (outputs d2)"
    using s(1) by (cases rule: startup_cases)
      (use s(2,3) in \<open>auto simp: emit_all_def dest!: open_raw_sender_cases\<close>)
  then show ?thesis
    using raw_socket_ready [OF r(1,2)] raw_socket_ready [OF st run_start] s(2,3) r(2,3) run_start [of cfg2 "\<lparr>nets = []\<rparr>" d2] by auto
qed

subsection \<open>Delays\<close>

lemma handle_shape_releases:
  obtains "releases (handle_shape cfg pid m ip info now d) = releases d"
  | r where "releases (handle_shape cfg pid m ip info now d) = releases d @ [r]" "0 \<le> rt_delay r"
      "0 < BurstMaxDelay cfg \<longrightarrow> rt_delay r \<le> BurstMaxDelay cfg" "rt_packetID r = pid" "rt_started r = now"
proof -
  obtain a d1 where l: "load_pacer ip d = (a, d1)" by (metis prod.exhaust)
  have d1: "releases d1 = releases d" using l by (auto simp: load_pacer_def split: option.splits)
  have eff: "releases (shape_drop cfg pid m ev tag x) = releases x"
    "releases (shape_accept cfg pid ip now a x) = releases x" "releases (set_pacer b p x) = releases x"
    "releases (shape_delay cfg pid ip fk now dl a x) = releases x @ [\<lparr>rt_pc = R_Sleep, rt_packetID = pid, rt_ip = ip,
       rt_key = fk, rt_delay = dl, rt_pacer = a, rt_started = now\<rparr>]" for ev tag fk dl b p x
    by (simp_all add: shape_drop_def shape_accept_def shape_delay_def Let_def effect_defs split: option.split)
  show thesis
    by (rule handle_shape_cases [OF l refl refl refl, where now = now and info = info and cfg = cfg and pid = pid and m = m])
       (use that in \<open>auto simp: eff d1\<close>)
qed

definition delays_ok :: "Config \<Rightarrow> daemon \<Rightarrow> bool" where
  "delays_ok cfg d \<longleftrightarrow> list_all (\<lambda>r. 0 \<le> rt_delay r \<and> (0 < BurstMaxDelay cfg \<longrightarrow> rt_delay r \<le> BurstMaxDelay cfg)) (releases d)"

lemma payload_releases:
  assumes "handle_payload cfg pid m pkt e d = Some d'"
  shows "releases d' = releases d"
  using core.handle_payload_part [OF assms] by (simp add: core_part_def)

lemma handle_drop_releases: "handle_drop cfg pid m ip now e d = Some d' \<Longrightarrow> releases d' = releases d"
  by (auto simp: handle_drop_def Let_def split_beta effect_defs split: option.splits if_splits bind_splits)

lemma handler_delays_ok:
  assumes "handler cfg wl a e d = Some d'" "delays_ok cfg d"
  shows "delays_ok cfg d'"
proof -
  have shape: "delays_ok cfg (handle_shape cfg pid m ip info now d)" for pid m ip info now
    by (cases rule: handle_shape_releases [of cfg pid m ip info now d]) (use assms(2) in \<open>auto simp: delays_ok_def\<close>)
  have "releases d' = releases d \<or> (\<exists>pid m ip info now. d' = handle_shape cfg pid m ip info now d)"
    using assms(1) by (auto simp: handler_def handle_matched_def effect_defs
        dest!: payload_releases handle_drop_releases split: option.splits if_splits bind_splits) blast
  then show ?thesis using assms(2) shape by (auto simp: delays_ok_def)
qed

interpretation delays: run_invariant "\<lambda>cfg wl tr d. delays_ok cfg d"
proof unfold_locales
  fix seeded f e cfg wl d
  assume "started seeded f e cfg wl d"
  then show "delays_ok cfg d" using startup_valid by (auto simp: started_def delays_ok_def)
next
  fix cfg wl tr d l d'
  assume a: "delays_ok cfg d" and s: "do_step cfg wl l d = Some d'"
  consider (packet) x e where "l = LPacket x e" | (release) i now where "l = LRelease i now"
    | (other) "\<And>x e. l \<noteq> LPacket x e" "\<And>i now. l \<noteq> LRelease i now" by blast
  then show "delays_ok cfg d'"
  proof cases
    case (packet x e)
    then show ?thesis using s a handler_delays_ok by simp
  next
    case (release i now)
    with s have "release_step cfg i now d = Some d'" by simp
    then show ?thesis by (cases rule: release_cases) (use a in \<open>auto simp: delays_ok_def\<close>)
  next
    case other
    then show ?thesis using housekeeping_frame [OF s] a by (simp add: core_part_def delays_ok_def)
  qed
qed

text \<open>
  C14. The delays of shape mode: in every state a started daemon reaches, however
  the clock moved, every goroutine that holds a packet sleeps for a delay that is not negative and,
  if \<open>--burst-max-delay\<close> is positive, at most that long. A limit of 0 switches the check off: then
  there is no bound.
\<close>

theorem delays_bounded:
  assumes "started seeded f e cfg wl d0" "daemon_run cfg wl d0 ls d" "r \<in> set (releases d)"
  shows "0 \<le> rt_delay r \<and> (0 < BurstMaxDelay cfg \<longrightarrow> rt_delay r \<le> BurstMaxDelay cfg)"
  using delays.holds [OF assms(2,1)] assms(3) by (simp add: delays_ok_def list_all_iff)

theorem delays_bounded_witness:
  "\<exists>cfg d0 d. daemon_run cfg \<lparr>nets = []\<rparr> d0 example_labels d \<and> releases d = [example_release] \<and> 0 \<le> rt_delay example_release"
proof -
  obtain cfg d0 d where r: "started example_seeded example_flags example_startup_env cfg \<lparr>nets = []\<rparr> d0"
      "daemon_run cfg \<lparr>nets = []\<rparr> d0 example_labels d" "releases d = [example_release]"
    using example_started by blast
  then show ?thesis using delays_bounded [OF r(1,2), of example_release] by auto
qed

subsection \<open>Statistics of shape mode\<close>

definition shape_blind :: "Config \<Rightarrow> daemon \<Rightarrow> bool" where
  "shape_blind cfg d \<longleftrightarrow> (Action cfg = ''shape'' \<longrightarrow> Dropped (counters d) = 0 \<and> clients (state d) = Map.empty)"

lemma handle_shape_Dropped: "Dropped (counters (handle_shape cfg pid m ip info now d)) = Dropped (counters d)"
proof -
  obtain a d1 where l: "load_pacer ip d = (a, d1)" by (metis prod.exhaust)
  have "counters d1 = counters d" using l by (auto simp: load_pacer_def split: option.splits)
  then show ?thesis
    unfolding handle_shape_def Let_def l
    by (simp add: shape_drop_def shape_accept_def shape_delay_def effect_defs counter_defs Let_def split: option.split)
qed

lemma step_shape_blind:
  assumes "do_step cfg wl l d = Some d'" "shape_blind cfg d" "config_ok cfg"
  shows "shape_blind cfg d'"
proof (cases "Action cfg = ''shape''")
  case True
  have p: "Packet cfg = ''syn''" using assms(3) True unfolding config_ok_def by blast
  have d: "Dropped (counters d) = 0" "clients (state d) = Map.empty" using assms(2) True by (simp_all add: shape_blind_def)
  consider (packet) a e where "l = LPacket a e" | (release) i now where "l = LRelease i now"
    | (other) "\<And>a e. l \<noteq> LPacket a e" "\<And>i now. l \<noteq> LRelease i now" by blast
  then show ?thesis
  proof cases
    case (packet a e)
    then show ?thesis
      using assms(1) d True p handle_shape_Dropped handle_shape_frame(2)
      by (auto simp: handler_def handle_matched_def shape_blind_def effect_defs counter_defs RememberEvent_def
          split: option.splits if_splits bind_splits)
  next
    case (release i now)
    with assms have "release_step cfg i now d = Some d'" by simp
    then show ?thesis by (cases rule: release_cases) (use d in \<open>auto simp: shape_blind_def effect_defs counter_defs\<close>)
  next
    case other
    then have "counters d' = counters d" using housekeeping_frame [OF assms(1)] by (simp add: core_part_def)
    moreover have "clients (state d') = Map.empty"
      using assms(1) other d(2) client.second_send_part
      by (cases l) (auto simp: tick_parts client_part_def cleanupLoop_tick_def Cleanup_def map_remove_def Let_def
          report_def emit_def shapeCleanup_tick_def shapeCleanup_step_def splitSeenCleanupLoop_tick_def
          splitSeenCleanupLoop_step_def seen_delete_def
          splitPayloadWindowCleanupLoop_tick_def statsLoop_tick_def emit_all_def
          split: if_splits option.splits list.splits prod.splits)
    ultimately show ?thesis using d by (simp add: shape_blind_def)
  qed
qed (simp add: shape_blind_def)

interpretation blind: run_invariant "\<lambda>cfg wl tr d. shape_blind cfg d"
proof unfold_locales
  fix seeded f e cfg wl d
  assume "started seeded f e cfg wl d"
  then obtain q where "startup seeded f e = Inr (cfg, q, wl, d)" by (auto simp: started_def)
  then show "shape_blind cfg d"
    by (cases rule: startup_cases) (simp add: shape_blind_def emit_all_def init_daemon_def Counters_zero_def NewState_def)
qed (auto intro: step_shape_blind)

text \<open>
  The statistics line of shape mode says nothing about drops or clients: whatever was dropped, a
  daemon in shape mode reports \<open>dropped=0\<close> and \<open>tracked_ips=0\<close>, since shape mode
  counts its drops in another counter and keeps its clients in another table. The README shows other
  numbers for this mode.
\<close>

lemma shape_stats_report_zero:
  assumes "started seeded f e cfg wl d0" "daemon_run cfg wl d0 ls d" "Action cfg = ''shape''" "\<not> Verbose cfg"
  shows "\<exists>line rest. outputs (statsLoop_tick cfg d) = outputs d @ [Printed line]
     \<and> line = ''[nfqcooldown] accepted='' @ fmt_u (Accepted (counters d)) @ '' delayed='' @ fmt_u (Delayed (counters d))
         @ '' dropped=0 tracked_ips=0 action=shape'' @ rest"
proof -
  have d: "Dropped (counters d) = 0" "clients (state d) = Map.empty"
    using blind.holds [OF assms(2,1)] assms(3) by (simp_all add: shape_blind_def)
  have z: "fmt_u (0 :: u64) = ''0''" "itoa 0 = ''0''"
    by (simp_all add: fmt_u_def print_base.simps digit_def char_of_def bit_0)
  show ?thesis
    using assms(3,4) by (simp add: statsLoop_tick_def State_Snapshot_def Counters_Snapshot_def d printStats_def z emit_all_def)
qed

end
