(* ===== verification/Drop_Mode.thy ===== *)
theory Drop_Mode
  imports Run_Invariants
begin

text \<open>
  The drop action end to end: which packet gets which verdict, what happens to the client's entry when cleanups run
  between the locked calls of the handler, the packets that are exempt, and the limit on consecutive drops over whole runs.
\<close>

subsection \<open>The branches of the drop action\<close>

text \<open>The verdict \<open>dropOrReject\<close> gives: a drop, or an acceptance that carries the reject mark.\<close>

definition refusal :: "Config \<Rightarrow> u32 \<Rightarrow> u32 option \<Rightarrow> effect" where
  "refusal cfg pid packetMark =
     (if RejectMarkEnabled cfg
      then SetVerdictWithMark pid NfAccept (int_of (RejectMarkValue cfg OR (case packetMark of None \<Rightarrow> 0 | Some m \<Rightarrow> m)))
      else SetVerdict pid NfDrop)"

lemma dropOrReject_refusal: "dropOrReject cfg pid m d = emit (refusal cfg pid m) d"
  by (simp add: dropOrReject_def refusal_def Let_def split: option.split)

definition cooldown_over :: "time \<Rightarrow> ClientState option \<Rightarrow> bool" where
  "cooldown_over now c \<longleftrightarrow> (case c of None \<Rightarrow> True | Some st \<Rightarrow> Cooldown st \<le> time_Sub now (LastSeen st))"

text \<open>
  The client table between the locked calls of the drop action: the cleanups that run after
  \<open>Decide\<close>, the count of \<open>IncDrop\<close>, and the cleanups that run after it.
\<close>

definition after_decide :: "Config \<Rightarrow> env \<Rightarrow> (string \<rightharpoonup> ClientState) \<Rightarrow> (string \<rightharpoonup> ClientState)" where
  "after_decide cfg e m = sweep_clients (CleanupAfter cfg) (cleanups_decided e) m"

definition count_drop :: "string \<Rightarrow> (string \<rightharpoonup> ClientState) \<Rightarrow> (string \<rightharpoonup> ClientState)" where
  "count_drop ip m = (case m ip of None \<Rightarrow> m | Some st \<Rightarrow> m(ip \<mapsto> st\<lparr>DropCount := wrap64 (DropCount st + 1)\<rparr>))"

definition after_count :: "Config \<Rightarrow> env \<Rightarrow> string \<Rightarrow> (string \<rightharpoonup> ClientState) \<Rightarrow> (string \<rightharpoonup> ClientState)" where
  "after_count cfg e ip m =
     sweep_clients (CleanupAfter cfg) (cleanups_counted e) (count_drop ip (after_decide cfg e m))"

definition drops_exhausted :: "Config \<Rightarrow> ClientState option \<Rightarrow> bool" where
  "drops_exhausted cfg c \<longleftrightarrow> 0 < MaxDropsPerIP cfg \<and>
     (case c of None \<Rightarrow> False | Some st \<Rightarrow> MaxDropsPerIP cfg < wrap64 (DropCount st + 1))"

definition undisturbed :: "env \<Rightarrow> bool" where
  "undisturbed e \<longleftrightarrow> cleanups_decided e = [] \<and> cleanups_counted e = []"

lemma after_count_undisturbed:
  "undisturbed e \<Longrightarrow> after_decide cfg e m = m" "undisturbed e \<Longrightarrow> after_count cfg e ip m = count_drop ip m"
  by (simp_all add: undisturbed_def after_decide_def after_count_def)

lemma after_decide_Some: "after_decide cfg e m ip = Some st \<Longrightarrow> m ip = Some st"
  by (auto simp: after_decide_def dest: sweep_clients_Some)

lemma after_count_Some:
  assumes "after_count cfg e ip m ip' = Some st"
  obtains (other) "ip' \<noteq> ip" "m ip' = Some st"
  | (same) st0 where "ip' = ip" "after_decide cfg e m ip = Some st0" "st = st0\<lparr>DropCount := wrap64 (DropCount st0 + 1)\<rparr>"
  using sweep_clients_Some [OF assms [unfolded after_count_def]] after_decide_Some [of cfg e m ip']
  by (cases "ip' = ip") (auto simp: count_drop_def split: option.splits if_splits)

lemma IncDrop_count:
  "fst (IncDrop s ip) = s\<lparr>clients := count_drop ip (clients s)\<rparr>"
  "snd (IncDrop s ip) = (case clients s ip of None \<Rightarrow> 0 | Some st \<Rightarrow> wrap64 (DropCount st + 1))"
  by (simp_all add: IncDrop_def count_drop_def Let_def split: option.split)

definition cleanup_lines :: "env \<Rightarrow> effect list \<Rightarrow> bool" where
  "cleanup_lines e os \<longleftrightarrow> set os \<subseteq> {Printed ''cleanup removed''} \<and> (undisturbed e \<longrightarrow> os = [])"

lemma cleanup_lines_two:
  obtains os where "cleanup_lines e os"
    "outputs (cleanup_ticks cfg (cleanups_counted e) (cleanup_ticks cfg (cleanups_decided e) d\<lparr>state := s\<rparr>)) = outputs d @ os"
proof -
  let ?d1 = "cleanup_ticks cfg (cleanups_decided e) d\<lparr>state := s\<rparr>"
  obtain k where k: "outputs (cleanup_ticks cfg (cleanups_decided e) d) = outputs d @ replicate k (Printed ''cleanup removed'')"
    using cleanup_ticks_outputs by blast
  obtain n where n: "outputs (cleanup_ticks cfg (cleanups_counted e) ?d1) = outputs ?d1 @ replicate n (Printed ''cleanup removed'')"
    using cleanup_ticks_outputs by blast
  show thesis
  proof (cases "undisturbed e")
    case True
    then show thesis by (intro that [of "[]"]) (simp_all add: cleanup_lines_def undisturbed_def)
  next
    case False
    then show thesis
      using k n by (intro that [of "replicate k (Printed ''cleanup removed'') @ replicate n (Printed ''cleanup removed'')"])
        (auto simp: cleanup_lines_def)
  qed
qed

lemma handle_drop_cases:
  assumes "handle_drop cfg pid m ip now e d = Some d'"
  defines "tab \<equiv> clients (state d)"
  obtains (granted) cd where "cooldown_over now (tab ip)"
      "clients (state d') = tab(ip \<mapsto> \<lparr>LastSeen = now, Cooldown = cd, DropCount = 0\<rparr>)"
      "outputs d' = outputs d @ log_line cfg ''ACCEPT'' @ [SetVerdict pid NfAccept]"
  | (forced) cd os where "\<not> cooldown_over now (tab ip)" "drops_exhausted cfg (after_decide cfg e tab ip)" "cleanup_lines e os"
      "clients (state d') = (after_count cfg e ip tab)(ip \<mapsto> \<lparr>LastSeen = now_force e, Cooldown = cd, DropCount = 0\<rparr>)"
      "outputs d' = outputs d @ os @ log_line cfg ''FORCE-ACCEPT'' @ [SetVerdict pid NfAccept]"
  | (refused) os where "\<not> cooldown_over now (tab ip)" "\<not> drops_exhausted cfg (after_decide cfg e tab ip)" "cleanup_lines e os"
      "clients (state d') = (if ForgetOnDrop cfg then (after_count cfg e ip tab)(ip := None) else after_count cfg e ip tab)"
      "outputs d' = outputs d @ os @ log_line cfg ''DROP'' @ [refusal cfg pid m]"
proof -
  obtain dec s g where D: "Decide Next (state d) ip now pid (rand_source d) = Some (dec, s, g)"
    using assms by (auto simp: handle_drop_def split: bind_splits)
  show thesis
  proof (cases "cooldown_over now (tab ip)")
    case True
    then have "d_allowed dec" "\<exists>cd. clients s = tab(ip \<mapsto> \<lparr>LastSeen = now, Cooldown = cd, DropCount = 0\<rparr>)"
      using D by (auto simp: Decide_def cooldown_over_def tab_def Let_def split: option.splits bind_splits if_splits)
    then show thesis
      using granted [OF True] assms(1) D by (auto simp: handle_drop_def Let_def effect_defs log_line_def)
  next
    case False
    then have dec: "\<not> d_allowed dec" "clients s = tab"
      using D by (auto simp: Decide_def cooldown_over_def tab_def Let_def split: option.splits bind_splits if_splits)
    define d1 where "d1 = cleanup_ticks cfg (cleanups_decided e) (d\<lparr>state := s, rand_source := g\<rparr>)"
    define d2 where "d2 = cleanup_ticks cfg (cleanups_counted e) (d1\<lparr>state := fst (IncDrop (state d1) ip)\<rparr>)"
    have c1: "clients (state d1) = after_decide cfg e tab" by (simp add: d1_def after_decide_def dec)
    have c2: "clients (state d2) = after_count cfg e ip tab"
      by (simp add: d2_def IncDrop_count c1 after_count_def)
    obtain os where os: "cleanup_lines e os" "outputs d2 = outputs d @ os"
      using cleanup_lines_two [where d = "d\<lparr>state := s, rand_source := g\<rparr>" and s = "fst (IncDrop (state d1) ip)"
          and e = e and cfg = cfg]
      by (auto simp: d2_def d1_def)
    have ex: "0 < MaxDropsPerIP cfg \<and> MaxDropsPerIP cfg < snd (IncDrop (state d1) ip)
        \<longleftrightarrow> drops_exhausted cfg (after_decide cfg e tab ip)"
      by (auto simp: drops_exhausted_def IncDrop_count c1 split: option.splits)
    have run: "handle_drop cfg pid m ip now e d =
        (if drops_exhausted cfg (after_decide cfg e tab ip) then
           (case ForceAccept Next (state d2) ip (now_force e) pid (rand_source d2) of None \<Rightarrow> None
            | Some (cd, ev, s3, g3) \<Rightarrow>
                Some (accept pid (logVerbose cfg ''FORCE-ACCEPT'' (bump IncAccepted (d2\<lparr>state := s3, rand_source := g3\<rparr>)))))
         else let d3 = remember ((event ''DROP'' ip pid)\<lparr>ev_Cooldown := d_cooldown dec, ev_Elapsed := d_elapsed dec,
                             ev_Remaining := d_remaining dec\<rparr>) (bump IncDropped d2)
              in Some (dropOrReject cfg pid m (logVerbose cfg ''DROP''
                   (if ForgetOnDrop cfg then d3\<lparr>state := Forget (state d3) ip\<rparr> else d3))))"
      unfolding handle_drop_def D using dec(1)
      by (simp add: split_beta Let_def ex flip: d1_def d2_def split: option.split)
    show thesis
    proof (cases "drops_exhausted cfg (after_decide cfg e tab ip)")
      case True
      then obtain cd ev s3 g3 where F: "ForceAccept Next (state d2) ip (now_force e) pid (rand_source d2) = Some (cd, ev, s3, g3)"
        and d': "d' = accept pid (logVerbose cfg ''FORCE-ACCEPT'' (bump IncAccepted (d2\<lparr>state := s3, rand_source := g3\<rparr>)))"
        using assms(1) unfolding run by (auto split: option.splits)
      have "clients s3 = (after_count cfg e ip tab)(ip \<mapsto> \<lparr>LastSeen = now_force e, Cooldown = cd, DropCount = 0\<rparr>)"
        using F by (auto simp: ForceAccept_def Let_def c2 split: bind_splits)
      then show thesis
        using forced [OF False True os(1)] os(2) by (auto simp: d' effect_defs log_line_def)
    next
      case nex: False
      then show thesis
        using assms(1) refused [OF False nex os(1)] os(2) c2 unfolding run
        by (auto simp: Let_def log_line_def dropOrReject_refusal RememberEvent_def
            Forget_def logVerbose_def emit_def bump_def remember_def split: if_splits)
    qed
  qed
qed

subsection \<open>Verdicts of the handler\<close>

lemma handler_matched:
  assumes "attr_PacketID a = Some pid" "attr_Payload a = Some pkt" "Packet cfg \<noteq> ''payload''"
    and "match_packet cfg pkt = Some (Some (ip, info))"
  shows "handler cfg wl a e d = handle_matched cfg wl pid (attr_Mark a) ip info e d"
  using assms by (simp add: handler_def)

lemma match_encoded_syn:
  assumes "wf_packet p" "tcp_flags p AND 0x17 = 0x02" "Packet cfg = ''syn''"
  shows "match_packet cfg (encode p) = Some (Some (addr_string (src_addr p),
     \<lparr>ClientIP = addr_string (src_addr p), ClientPort = src_port p, ServerPort = dst_port p, pi_Seq = seq_no p, pi_Ack = 0\<rparr>))"
  using ParseSYN_encode [OF assms(1,2)] assms(3) by (simp add: match_packet_def)

lemma match_encoded_synack:
  assumes "wf_packet p" "tcp_flags p AND 0x17 = 0x12" "Packet cfg = ''synack''"
  shows "match_packet cfg (encode p) = Some (Some (addr_string (dst_addr p), PacketInfo_zero))"
  using ParseSYNACK_encode [OF assms(1,2)] assms(3) by (simp add: match_packet_def)

text \<open>The packets the handler acts on in the SYN and SYN/ACK configurations, with the client's address.\<close>

definition concerns :: "Config \<Rightarrow> tcp_packet \<Rightarrow> string \<Rightarrow> bool" where
  "concerns cfg p ip \<longleftrightarrow> wf_packet p \<and>
     (Packet cfg = ''syn'' \<and> tcp_flags p AND 0x17 = 0x02 \<and> ip = addr_string (src_addr p)
      \<or> Packet cfg = ''synack'' \<and> tcp_flags p AND 0x17 = 0x12 \<and> ip = addr_string (dst_addr p))"

lemma concerns_matched:
  assumes "concerns cfg p ip" "attr_PacketID a = Some pid" "attr_Payload a = Some (encode p)"
  shows "\<exists>info. handler cfg wl a e d = handle_matched cfg wl pid (attr_Mark a) ip info e d"
  using assms match_encoded_syn [of p cfg] match_encoded_synack [of p cfg]
  by (auto simp: concerns_def handler_matched)

text \<open>
  C11. Exempt packets pass, in every state and whatever the action. A SYN (with \<open>--packet syn\<close>) or a
  SYN/ACK (with \<open>--packet synack\<close>) whose mark matches \<open>--skip-mark\<close>, or whose client is on the
  whitelist (the source of the SYN, the destination of the SYN/ACK), is accepted, counted as accepted,
  and leaves the client table, the pacers, the pending flows and the random source untouched. With
  \<open>--packet payload\<close> every packet whose mark matches \<open>--skip-mark\<close> is accepted and nothing else
  happens: it is not counted. There the whitelist is not looked at, see
  \<open>Observations.payload_ignores_whitelist\<close>.
\<close>

theorem exempt_packets_pass:
  "(concerns cfg p ip \<and> (skip_mark_matches cfg mk \<or> Whitelist_Contains wl ip = Some True) \<longrightarrow>
     (\<exists>d' tag. handler cfg wl \<lparr>attr_PacketID = Some pid, attr_Payload = Some (encode p), attr_Mark = mk\<rparr> e d = Some d'
     \<and> outputs d' = outputs d @ log_line cfg tag @ [SetVerdict pid NfAccept] \<and> counters d' = IncAccepted (counters d)
     \<and> clients (state d') = clients (state d) \<and> rand_source d' = rand_source d \<and> shape_part d' = shape_part d))
   \<and> (Packet cfg = ''payload'' \<and> skip_mark_matches cfg mk \<longrightarrow>
     handler cfg wl \<lparr>attr_PacketID = Some pid, attr_Payload = Some data, attr_Mark = mk\<rparr> e d
       = Some (d\<lparr>outputs := outputs d @ [SetVerdict pid NfAccept]\<rparr>))"
proof (intro conjI impI; elim conjE)
  let ?at = "\<lparr>attr_PacketID = Some pid, attr_Payload = Some (encode p), attr_Mark = mk\<rparr>"
  assume c: "concerns cfg p ip" and ex: "skip_mark_matches cfg mk \<or> Whitelist_Contains wl ip = Some True"
  obtain info where h: "handler cfg wl ?at e d = handle_matched cfg wl pid mk ip info e d"
    using concerns_matched [OF c, of ?at pid wl e d] by auto
  show "\<exists>d' tag. handler cfg wl ?at e d = Some d'
     \<and> outputs d' = outputs d @ log_line cfg tag @ [SetVerdict pid NfAccept] \<and> counters d' = IncAccepted (counters d)
     \<and> clients (state d') = clients (state d) \<and> rand_source d' = rand_source d \<and> shape_part d' = shape_part d"
    using ex unfolding h
    by (auto simp: handle_matched_def effect_defs log_line_def RememberEvent_def shape_part_def)
next
  assume "Packet cfg = ''payload''" "skip_mark_matches cfg mk"
  moreover obtain info ok where "ParseIPv4TCPPayload data = Some (info, ok)"
    using ParsePayload_match [of data] ParsePayload_no_match [of data] by (cases "payload_match data") auto
  ultimately show "handler cfg wl \<lparr>attr_PacketID = Some pid, attr_Payload = Some data, attr_Mark = mk\<rparr> e d
       = Some (d\<lparr>outputs := outputs d @ [SetVerdict pid NfAccept]\<rparr>)"
    by (simp add: handler_def handle_payload_def accept_def emit_def)
qed

lemma example_drop_started:
  "\<exists>cfg d. started example_seeded example_drop_flags example_startup_env cfg \<lparr>nets = []\<rparr> d
     \<and> Packet cfg = ''syn'' \<and> Action cfg = ''drop'' \<and> \<not> Verbose cfg \<and> \<not> SkipMarkEnabled cfg \<and> \<not> RejectMarkEnabled cfg
     \<and> \<not> ForgetOnDrop cfg \<and> MaxDropsPerIP cfg = 1 \<and> state d = NewState (FixedAlgorithm 500000000)"
  using example_drop_startup fair_rng_sconst [of "- 1"] by (fastforce simp: started_def example_seeded_def)

text \<open>A marked SYN is exempt with the default flags and a skip mark; so is the SYN/ACK to a listed client.\<close>

theorem exempt_packets_pass_witness:
  "\<exists>cfg d d'. Action cfg = ''drop'' \<and>
     handler (cfg\<lparr>SkipMarkEnabled := True, SkipMarkValue := 0x400, SkipMarkMask := 0x400\<rparr>) \<lparr>nets = []\<rparr>
       \<lparr>attr_PacketID = Some 7, attr_Payload = Some (encode (example_packet 0x02 [])), attr_Mark = Some 0x401\<rparr> (example_env 5) d
     = Some d' \<and> clients (state d') = clients (state d)
   \<and> handler (cfg\<lparr>Packet := ''payload'', SkipMarkEnabled := True, SkipMarkValue := 0x400, SkipMarkMask := 0x400\<rparr>) \<lparr>nets = []\<rparr>
       \<lparr>attr_PacketID = Some 8, attr_Payload = Some [], attr_Mark = Some 0x401\<rparr> (example_env 5) d
     = Some (d\<lparr>outputs := outputs d @ [SetVerdict 8 NfAccept]\<rparr>)"
proof -
  obtain cfg d where c: "started example_seeded example_drop_flags example_startup_env cfg \<lparr>nets = []\<rparr> d"
      "Packet cfg = ''syn''" "Action cfg = ''drop''"
    using example_drop_started by blast
  let ?cfg = "cfg\<lparr>SkipMarkEnabled := True, SkipMarkValue := 0x400, SkipMarkMask := 0x400\<rparr>"
  let ?pay = "cfg\<lparr>Packet := ''payload'', SkipMarkEnabled := True, SkipMarkValue := 0x400, SkipMarkMask := 0x400\<rparr>"
  have "skip_mark_matches ?cfg (Some 0x401)" "skip_mark_matches ?pay (Some 0x401)"
    by (simp_all add: skip_mark_matches_def)
  moreover have "concerns ?cfg (example_packet 0x02 []) (addr_string (192, 0, 2, 10))"
    using c(2) example_packet_wf [of "[]" "0x02"] by (simp add: concerns_def example_packet_def)
  moreover note exempt_packets_pass [of ?cfg "example_packet 0x02 []" _ "Some 0x401" "\<lparr>nets = []\<rparr>" 7 "example_env 5" d]
    exempt_packets_pass [of ?pay _ _ "Some 0x401" "\<lparr>nets = []\<rparr>" 8 "example_env 5" d "[]"]
  ultimately show ?thesis using c(3) by (fastforce simp del: concerns_def)
qed

subsection \<open>The verdict of the drop action\<close>

text \<open>
  C6. Drop mode gives a packet that is not exempt the verdict the cooldown calls for, in every state a
  started daemon reaches, whatever cleanups fall between the locked calls of the handler. A new
  client, or one whose cooldown has passed, is accepted and its
  cooldown starts anew. Otherwise the drop is counted in the client's entry, if a cleanup has not removed it
  by then; if the client has used up \<open>--max-drops-per-ip\<close>, it
  is accepted by force and starts anew too; else it is refused, by a drop or by an acceptance whose mark has all
  the bits of the reject mark and of the packet's mark, and its entry keeps the count and
  the running cooldown, or is forgotten with \<open>--forget-on-drop\<close>. Nothing else is emitted than the log
  line, the verdict and the messages of those cleanups; without cleanups the table changes by that
  one entry (\<open>after_count_undisturbed\<close>).
\<close>

theorem drop_mode_verdict:
  assumes "started seeded f se cfg wl d0" "daemon_run cfg wl d0 ls d" "Action cfg = ''drop''" "concerns cfg p ip"
    and "\<not> skip_mark_matches cfg mk" "Whitelist_Contains wl ip = Some False"
  shows "\<exists>d' cd os. handler cfg wl \<lparr>attr_PacketID = Some pid, attr_Payload = Some (encode p), attr_Mark = mk\<rparr> e d = Some d'
     \<and> cleanup_lines e os
     \<and> (if cooldown_over (now_main e) (clients (state d) ip) then
          clients (state d') = (clients (state d))(ip \<mapsto> \<lparr>LastSeen = now_main e, Cooldown = cd, DropCount = 0\<rparr>)
          \<and> outputs d' = outputs d @ log_line cfg ''ACCEPT'' @ [SetVerdict pid NfAccept]
        else if drops_exhausted cfg (after_decide cfg e (clients (state d)) ip) then
          clients (state d') = (after_count cfg e ip (clients (state d)))
            (ip \<mapsto> \<lparr>LastSeen = now_force e, Cooldown = cd, DropCount = 0\<rparr>)
          \<and> outputs d' = outputs d @ os @ log_line cfg ''FORCE-ACCEPT'' @ [SetVerdict pid NfAccept]
        else
          clients (state d') = (if ForgetOnDrop cfg then (after_count cfg e ip (clients (state d)))(ip := None)
            else after_count cfg e ip (clients (state d)))
          \<and> outputs d' = outputs d @ os @ log_line cfg ''DROP'' @ [refusal cfg pid mk])"
proof -
  let ?at = "\<lparr>attr_PacketID = Some pid, attr_Payload = Some (encode p), attr_Mark = mk\<rparr>"
  have inv: "table_inv d" "list_all net_ok (nets wl)"
    using started_run_inv [OF assms(1,2)] by (simp_all add: daemon_inv_def)
  then obtain d' where d': "handler cfg wl ?at e d = Some d'"
    using handler_ok [of d wl cfg ?at e] by (auto simp: table_inv_def)
  moreover obtain info where "handler cfg wl ?at e d = handle_matched cfg wl pid mk ip info e d"
    using concerns_matched [OF assms(4), of ?at pid wl e d] by auto
  ultimately have "handle_drop cfg pid mk ip (now_main e) e d = Some d'"
    using assms(3,5,6) by (simp add: handle_matched_def)
  moreover have "cleanup_lines e []" by (simp add: cleanup_lines_def)
  ultimately show ?thesis
    by (cases rule: handle_drop_cases) (use d' in auto)
qed

lemma example_concerns:
  "Packet cfg = ''syn'' \<Longrightarrow> concerns cfg (example_packet 0x02 []) (addr_string (192, 0, 2, 10))"
  using example_packet_wf [of "[]" "0x02"] by (simp add: concerns_def example_packet_def)

theorem drop_mode_verdict_witness:
  "\<exists>cfg d d'. daemon_run cfg \<lparr>nets = []\<rparr> d [] d \<and> handler cfg \<lparr>nets = []\<rparr> (example_syn 7) (example_env 5) d = Some d'
     \<and> outputs d' = outputs d @ [SetVerdict 7 NfAccept]"
proof -
  obtain cfg d where c: "started example_seeded example_drop_flags example_startup_env cfg \<lparr>nets = []\<rparr> d"
      "Packet cfg = ''syn''" "Action cfg = ''drop''" "\<not> SkipMarkEnabled cfg" "\<not> Verbose cfg"
      "state d = NewState (FixedAlgorithm 500000000)"
    using example_drop_started by blast
  have r: "daemon_run cfg \<lparr>nets = []\<rparr> d [] d" by (rule run_start)
  have "clients (state d) = Map.empty" by (simp add: c(6) NewState_def)
  then show ?thesis
    using drop_mode_verdict [OF c(1) r c(3) example_concerns [OF c(2)], of None 7 "example_env 5"] c(4,5) r
    by (fastforce simp: skip_mark_matches_def cooldown_over_def log_line_def example_syn_def)
qed

subsection \<open>Consecutive drops\<close>

text \<open>
  The number of packets of a client refused in a row at the end of a trace. A packet was refused
  if the last effect of its step is a drop or a verdict with a mark.
\<close>

definition was_refused :: "daemon \<Rightarrow> bool" where
  "was_refused d \<longleftrightarrow> outputs d \<noteq> [] \<and>
     (case last (outputs d) of SetVerdict _ v \<Rightarrow> v = NfDrop | SetVerdictWithMark _ _ _ \<Rightarrow> True | _ \<Rightarrow> False)"

definition drop_streak :: "Config \<Rightarrow> string \<Rightarrow> trace \<Rightarrow> nat" where
  "drop_streak cfg ip tr =
     foldl (\<lambda>n (d, l, d'). if matched_client cfg l = Some ip then if was_refused d' then Suc n else 0 else n) 0 tr"

lemma drop_streak_simps [simp]:
  "drop_streak cfg ip [] = 0"
  "drop_streak cfg ip (tr @ [(d, l, d')]) =
     (if matched_client cfg l = Some ip then if was_refused d' then Suc (drop_streak cfg ip tr) else 0 else drop_streak cfg ip tr)"
  by (simp_all add: drop_streak_def)

text \<open>No cleanup removes clients between \<open>Decide\<close> and \<open>IncDrop\<close> of a packet of the run.\<close>

definition decides_undisturbed :: "label list \<Rightarrow> bool" where
  "decides_undisturbed ls \<longleftrightarrow> list_all (\<lambda>l. case l of LPacket a e \<Rightarrow> cleanups_decided e = [] | _ \<Rightarrow> True) ls"

definition streak_inv :: "Config \<Rightarrow> trace \<Rightarrow> daemon \<Rightarrow> bool" where
  "streak_inv cfg tr d \<longleftrightarrow>
     (Action cfg = ''drop'' \<and> 0 < MaxDropsPerIP cfg \<and> MaxDropsPerIP cfg < MaxInt64 \<longrightarrow>
       (\<forall>ip. int (drop_streak cfg ip tr) \<le> MaxDropsPerIP cfg + (if decides_undisturbed (labels_of tr) then 0 else 1)
          \<and> (\<forall>st. clients (state d) ip = Some st \<longrightarrow>
               int (drop_streak cfg ip tr) \<le> DropCount st \<and> DropCount st \<le> MaxDropsPerIP cfg)))"

lemma decides_undisturbed_snoc [simp]:
  "decides_undisturbed (ls @ [l]) \<longleftrightarrow> decides_undisturbed ls \<and> decides_undisturbed [l]"
  by (simp add: decides_undisturbed_def)

lemma was_refused_simps:
  "outputs d = os @ [SetVerdict pid NfAccept] \<Longrightarrow> \<not> was_refused d"
  "outputs d = os @ [refusal cfg pid m] \<Longrightarrow> was_refused d"
  by (simp_all add: was_refused_def refusal_def)

text \<open>A step that leaves the clients alone, or removes some, and counts no refused packet keeps the invariant.\<close>

lemma streak_quiet:
  assumes "streak_inv cfg tr d" "\<And>ip st. clients (state d') ip = Some st \<Longrightarrow> clients (state d) ip = Some st"
    and "matched_client cfg l \<noteq> None \<Longrightarrow> \<not> was_refused d'"
  shows "streak_inv cfg (tr @ [(d, l, d')]) d'"
proof -
  have "int (drop_streak cfg ip (tr @ [(d, l, d')])) \<le> int (drop_streak cfg ip tr)" for ip
    using assms(3) by auto
  then show ?thesis
    using assms(1,2) unfolding streak_inv_def
    by (smt (verit) decides_undisturbed_snoc labels_of_simps(2))
qed

text \<open>An accepted packet ends the streak of its client.\<close>

lemma streak_accepted:
  assumes inv: "streak_inv cfg tr d" and l: "matched_client cfg l = Some ip" and acc: "\<not> was_refused d'"
    and tab: "\<And>ip' st. clients (state d') ip' = Some st \<Longrightarrow> if ip' = ip then DropCount st = 0 else clients (state d) ip' = Some st"
  shows "streak_inv cfg (tr @ [(d, l, d')]) d'"
  unfolding streak_inv_def
proof (intro impI allI)
  fix ip'
  assume "Action cfg = ''drop'' \<and> 0 < MaxDropsPerIP cfg \<and> MaxDropsPerIP cfg < MaxInt64"
  then have "0 < MaxDropsPerIP cfg"
    and "int (drop_streak cfg ip' tr) \<le> MaxDropsPerIP cfg + (if decides_undisturbed (labels_of tr) then 0 else 1)"
    and "clients (state d) ip' = Some st \<Longrightarrow> int (drop_streak cfg ip' tr) \<le> DropCount st \<and> DropCount st \<le> MaxDropsPerIP cfg" for st
    using inv by (auto simp: streak_inv_def)
  then show "int (drop_streak cfg ip' (tr @ [(d, l, d')]))
        \<le> MaxDropsPerIP cfg + (if decides_undisturbed (labels_of (tr @ [(d, l, d')])) then 0 else 1)
      \<and> (\<forall>st. clients (state d') ip' = Some st \<longrightarrow>
           int (drop_streak cfg ip' (tr @ [(d, l, d')])) \<le> DropCount st \<and> DropCount st \<le> MaxDropsPerIP cfg)"
    using l acc tab [of ip'] by (cases "ip' = ip") (auto split: if_splits)
qed

text \<open>A refused packet: the streak grows by one, and so does the count, if the entry is still there.\<close>

lemma streak_refused:
  fixes n :: nat and mx :: int and m :: "string \<rightharpoonup> ClientState"
  assumes lim: "0 < mx" "mx < MaxInt64" and ent: "m ip = Some st0" "int n \<le> DropCount st0" "DropCount st0 \<le> mx"
    and nex: "\<not> drops_exhausted cfg (after_decide cfg e m ip)" and mxeq: "MaxDropsPerIP cfg = mx"
  shows "cleanups_decided e = [] \<Longrightarrow> int (Suc n) \<le> mx" "int (Suc n) \<le> mx + 1"
    "after_count cfg e ip m ip = Some st \<Longrightarrow> int (Suc n) \<le> DropCount st \<and> DropCount st \<le> mx"
proof -
  have w: "wrap64 (DropCount st0 + 1) = DropCount st0 + 1"
    using lim ent by (intro wrap64_id) (simp add: int64_def)
  show "int (Suc n) \<le> mx + 1" using ent by simp
  show "int (Suc n) \<le> mx" if "cleanups_decided e = []"
    using nex ent lim mxeq w that by (simp add: drops_exhausted_def after_decide_def)
  assume "after_count cfg e ip m ip = Some st"
  then show "int (Suc n) \<le> DropCount st \<and> DropCount st \<le> mx"
  proof (cases rule: after_count_Some)
    case (same s)
    then have "s = st0" using ent after_decide_Some by fastforce
    then show ?thesis using same nex ent lim mxeq w by (simp add: drops_exhausted_def)
  qed simp
qed

lemma streak_drop:
  assumes inv: "streak_inv cfg tr d" and h: "handle_drop cfg pid (attr_Mark a) ip now e d = Some d'"
    and l: "matched_client cfg (LPacket a e) = Some ip"
  shows "streak_inv cfg (tr @ [(d, LPacket a e, d')]) d'"
  using h
proof (cases rule: handle_drop_cases)
  case (granted cd)
  then show ?thesis using was_refused_simps(1) [of d' "outputs d @ log_line cfg ''ACCEPT''"]
    by (intro streak_accepted [OF inv l]) (auto split: if_splits)
next
  case (forced cd os)
  then show ?thesis using was_refused_simps(1) [of d' "outputs d @ os @ log_line cfg ''FORCE-ACCEPT''"]
    by (intro streak_accepted [OF inv l]) (auto split: if_splits elim: after_count_Some)
next
  case (refused os)
  let ?m = "clients (state d)"
  have w: "was_refused d'" using refused(5) was_refused_simps(2) [of d' "outputs d @ os @ log_line cfg ''DROP''"] by simp
  obtain st0 where st0: "?m ip = Some st0" using refused(1) by (cases "?m ip") (auto simp: cooldown_over_def)
  have other: "?m ip' = Some st" if "clients (state d') ip' = Some st" "ip' \<noteq> ip" for ip' st
    using that refused(4) by (auto split: if_splits elim: after_count_Some)
  have same: "after_count cfg e ip ?m ip = Some st" if "clients (state d') ip = Some st" for st
    using that refused(4) by (auto split: if_splits)
  show ?thesis
    unfolding streak_inv_def
  proof (intro impI allI)
    fix ip'
    assume lim: "Action cfg = ''drop'' \<and> 0 < MaxDropsPerIP cfg \<and> MaxDropsPerIP cfg < MaxInt64"
    have I: "int (drop_streak cfg i tr) \<le> MaxDropsPerIP cfg + (if decides_undisturbed (labels_of tr) then 0 else 1)"
      "?m i = Some st \<Longrightarrow> int (drop_streak cfg i tr) \<le> DropCount st \<and> DropCount st \<le> MaxDropsPerIP cfg" for i st
      using inv lim by (auto simp: streak_inv_def)
    note R = streak_refused [OF _ _ st0 _ _ refused(2) refl]
    show "int (drop_streak cfg ip' (tr @ [(d, LPacket a e, d')]))
        \<le> MaxDropsPerIP cfg + (if decides_undisturbed (labels_of (tr @ [(d, LPacket a e, d')])) then 0 else 1)
      \<and> (\<forall>st. clients (state d') ip' = Some st \<longrightarrow>
           int (drop_streak cfg ip' (tr @ [(d, LPacket a e, d')])) \<le> DropCount st \<and> DropCount st \<le> MaxDropsPerIP cfg)"
    proof (cases "ip' = ip")
      case True
      then show ?thesis
        using l w lim I(2) [OF st0] R same by (auto simp: decides_undisturbed_def)
    next
      case False
      then show ?thesis using l I [of ip'] other by (auto split: if_splits)
    qed
  qed
qed

lemma streak_packet:
  assumes inv: "streak_inv cfg tr d" and h: "handler cfg wl a e d = Some d'" and ok: "config_ok cfg"
  shows "streak_inv cfg (tr @ [(d, LPacket a e, d')]) d'"
proof (cases "Action cfg = ''drop''")
  case True
  have np: "Packet cfg \<noteq> ''payload''" using ok True unfolding config_ok_def by auto
  show ?thesis
  proof (cases "matched_client cfg (LPacket a e)")
    case None
    then have "clients (state d') = clients (state d)"
      using h np match_packet_total [of cfg]
      by (auto simp: handler_def matched_client_def accept_def emit_def split: option.splits bind_splits)
    then show ?thesis using None by (intro streak_quiet [OF inv]) auto
  next
    case (Some ip)
    then obtain pid info where m: "handle_matched cfg wl pid (attr_Mark a) ip info e d = Some d'"
      using h np by (auto simp: handler_def matched_client_def split: option.splits if_splits)
    have pass: ?thesis
      if "d' = accept pid (logVerbose cfg tag (bump IncAccepted (remember ev d)))" for tag ev
      using that by (intro streak_quiet [OF inv]) (auto simp: effect_defs RememberEvent_def was_refused_def split: if_splits)
    show ?thesis
      using m True pass streak_drop [OF inv _ Some] by (auto simp: handle_matched_def split: if_splits bind_splits)
  qed
qed (use inv in \<open>simp add: streak_inv_def\<close>)

lemma streak_step:
  assumes inv: "streak_inv cfg tr d" and s: "do_step cfg wl l d = Some d'" and ok: "config_ok cfg"
  shows "streak_inv cfg (tr @ [(d, l, d')]) d'"
proof (cases "\<exists>a e. l = LPacket a e")
  case True
  then show ?thesis using streak_packet [OF inv _ ok] s by auto
next
  case False
  have "clients (state d) ip = Some st" if "clients (state d') ip = Some st" for ip st
  proof (cases "\<exists>now. l = LCleanup now")
    case True
    then show ?thesis
      using s that by (auto simp: cleanupLoop_tick_def Cleanup_def Let_def report_def emit_def map_remove_def split: if_splits option.splits)
  next
    case c: False
    have "client_part d' = client_part d"
      using s False c client.split_loop_parts release_client_part shape_tick_parts tick_parts shape_step_client
      by (cases l) auto
    then show ?thesis using that by (simp add: client_part_def)
  qed
  moreover have "matched_client cfg l = None" using False by (auto simp: matched_client_def split: label.splits)
  ultimately show ?thesis by (intro streak_quiet [OF inv]) auto
qed

interpretation streak: run_invariant "\<lambda>cfg wl tr d. streak_inv cfg tr d"
proof unfold_locales
  fix seeded f e cfg wl d
  assume "started seeded f e cfg wl d"
  then obtain q where "startup seeded f e = Inr (cfg, q, wl, d)" by (auto simp: started_def)
  then show "streak_inv cfg [] d"
    by (cases rule: startup_cases) (simp add: streak_inv_def emit_all_def init_daemon_def NewState_def)
qed (auto intro: streak_step)

text \<open>
  C7. What \<open>--max-drops-per-ip\<close> guarantees: in every run in drop mode no client has more packets refused in
  a row than the limit, provided that no cleanup tick of the client table falls between \<open>Decide\<close> and
  \<open>IncDrop\<close> of a packet. Under every interleaving of the ticks the count is exceeded by at most
  one: if a tick removes the entry between the two locked calls, \<open>IncDrop\<close> returns 0 and the packet is
  refused whatever the count was, but the next packet finds no entry and is accepted. The witness
  is a run in which this happens.
\<close>

theorem consecutive_drops_bounded:
  assumes "started seeded f e cfg wl d0" "daemon_run cfg wl d0 ls d"
    and "Action cfg = ''drop''" "0 < MaxDropsPerIP cfg" "MaxDropsPerIP cfg < MaxInt64"
  shows "int (drop_streak cfg ip (trace_of cfg wl ls d0)) \<le> MaxDropsPerIP cfg + (if decides_undisturbed ls then 0 else 1)"
  using streak.holds [OF assms(2,1)] assms(2-5) labels_of_trace [of cfg wl ls d0 d]
  by (simp add: streak_inv_def daemon_run_iff)

text \<open>
  The example: a cooldown of 500 ms, entries kept for 300 ms, one drop in a row allowed. The SYN at 1 s
  passes, those at 1.1 s and 1.4 s are refused; a cleanup at 1.4 s removes the entry between the
  two calls for the last of them.
\<close>

definition example_race_flags :: flags where
  "example_race_flags = example_drop_flags\<lparr>f_cleanup_after := ''300ms''\<rparr>"

definition example_race_labels :: "label list" where
  "example_race_labels =
     [LPacket (example_syn 1) (example_env 1000000000), LPacket (example_syn 2) (example_env 1100000000),
      LPacket (example_syn 3) ((example_env 1400000000)\<lparr>cleanups_decided := [1400000000]\<rparr>)]"

lemma example_race_started:
  "\<exists>cfg d. started example_seeded example_race_flags example_startup_env cfg \<lparr>nets = []\<rparr> d
     \<and> Packet cfg = ''syn'' \<and> Action cfg = ''drop'' \<and> \<not> Verbose cfg \<and> \<not> SkipMarkEnabled cfg \<and> \<not> RejectMarkEnabled cfg
     \<and> \<not> ForgetOnDrop cfg \<and> MaxDropsPerIP cfg = 1 \<and> CleanupAfter cfg = 300000000
     \<and> state d = NewState (FixedAlgorithm 500000000)"
proof -
  obtain cfg where c: "parseConfig example_race_flags = Inr cfg"
     "Packet cfg = ''syn''" "Action cfg = ''drop''" "\<not> Verbose cfg" "\<not> SkipMarkEnabled cfg" "\<not> RejectMarkEnabled cfg"
     "\<not> ForgetOnDrop cfg" "MaxDropsPerIP cfg = 1" "CleanupAfter cfg = 300000000" "cfg_Cooldown cfg = 500000000"
     "MaxPendingDelays cfg = 0"
     and s: "Mode cfg = ''fixed''" "0 < cfg_Cooldown cfg" "cfg_Whitelist cfg = ''''" "Seed cfg \<noteq> 0"
     "0 < CleanupEvery cfg" "0 < StatsEvery cfg" "QueueNum cfg = 443"
    by (simp add: example_race_flags_def example_drop_flags_def parse_defaults)
  show ?thesis
    using example_starts [OF c(1) s] c(2-) fair_rng_sconst [of "- 1"]
    by (fastforce simp: started_def example_seeded_def emit_all_def init_daemon_def)
qed

lemma example_race_run:
  "\<exists>cfg d0 d. started example_seeded example_race_flags example_startup_env cfg \<lparr>nets = []\<rparr> d0
     \<and> Action cfg = ''drop'' \<and> MaxDropsPerIP cfg = 1 \<and> daemon_run cfg \<lparr>nets = []\<rparr> d0 example_race_labels d
     \<and> drop_streak cfg ''192.0.2.10'' (trace_of cfg \<lparr>nets = []\<rparr> example_race_labels d0) = 2"
proof -
  obtain cfg d0 where s: "started example_seeded example_race_flags example_startup_env cfg \<lparr>nets = []\<rparr> d0"
    and c: "Packet cfg = ''syn''" "Action cfg = ''drop''" "\<not> Verbose cfg" "\<not> SkipMarkEnabled cfg" "\<not> RejectMarkEnabled cfg"
      "\<not> ForgetOnDrop cfg" "MaxDropsPerIP cfg = 1" "CleanupAfter cfg = 300000000" "state d0 = NewState (FixedAlgorithm 500000000)"
    using example_race_started by blast
  note ev = handler_def example_syn_def example_syn_parses handle_matched_def skip_mark_matches_def handle_drop_def
    Decide_def NewState_def Let_def effect_defs example_env_def time_Sub_def IncDrop_def RememberEvent_def wrap64_id int64_def
  obtain d1 where d1: "handler cfg \<lparr>nets = []\<rparr> (example_syn 1) (example_env 1000000000) d0 = Some d1"
      "outputs d1 = outputs d0 @ [SetVerdict 1 NfAccept]"
      "clients (state d1) ''192.0.2.10'' = Some \<lparr>LastSeen = 1000000000, Cooldown = 500000000, DropCount = 0\<rparr>"
    using c by (simp add: ev)
  obtain d2 where d2: "handler cfg \<lparr>nets = []\<rparr> (example_syn 2) (example_env 1100000000) d1 = Some d2"
      "outputs d2 = outputs d1 @ [SetVerdict 2 NfDrop]"
      "clients (state d2) ''192.0.2.10'' = Some \<lparr>LastSeen = 1000000000, Cooldown = 500000000, DropCount = 1\<rparr>"
    using c d1(3) by (simp add: ev)
  let ?e3 = "(example_env 1400000000)\<lparr>cleanups_decided := [1400000000]\<rparr>"
  have "daemon_run cfg \<lparr>nets = []\<rparr> d0 [LPacket (example_syn 1) (example_env 1000000000),
      LPacket (example_syn 2) (example_env 1100000000)] d2"
    using d1(1) d2(1) by (simp add: daemon_run_iff)
  then have "table_inv d2" using started_run_inv [OF s] by (simp add: daemon_inv_def)
  then obtain d3 where d3: "handle_drop cfg 3 None ''192.0.2.10'' 1400000000 ?e3 d2 = Some d3"
    using handle_drop_ok [of d2] by (fastforce simp: table_inv_def)
  have over: "\<not> cooldown_over 1400000000 (clients (state d2) ''192.0.2.10'')"
    by (simp add: cooldown_over_def d2(3) time_Sub_def wrap64_id int64_def)
  have exh: "\<not> drops_exhausted cfg (after_decide cfg ?e3 (clients (state d2)) ''192.0.2.10'')"
    using c(8) d2(3) by (simp add: after_decide_def drops_exhausted_def map_remove_def time_Before_def time_Add_def wrap64_id int64_def)
  have out: "last (outputs d3) = SetVerdict 3 NfDrop \<and> outputs d3 \<noteq> []"
    using d3 by (cases rule: handle_drop_cases) (use c(5) over exh in \<open>auto simp: refusal_def\<close>)
  have d3: "handler cfg \<lparr>nets = []\<rparr> (example_syn 3) ?e3 d2 = Some d3"
    using d3 c by (simp add: handler_def example_syn_def example_syn_parses handle_matched_def skip_mark_matches_def example_env_def)
  have m: "matched_client cfg (LPacket (example_syn n) e) = Some ''192.0.2.10''" for n e
    using c(1) by (simp add: matched_client_def example_syn_def example_syn_parses)
  have "daemon_run cfg \<lparr>nets = []\<rparr> d0 example_race_labels d3"
    using d1(1) d2(1) d3(1) by (simp add: daemon_run_iff example_race_labels_def)
  moreover have "drop_streak cfg ''192.0.2.10'' (trace_of cfg \<lparr>nets = []\<rparr> example_race_labels d0) = 2"
    using d1 d2 d3 out m by (simp add: drop_streak_def was_refused_def example_race_labels_def)
  ultimately show ?thesis using s c(2,7) by blast
qed

theorem consecutive_drops_bounded_witness:
  "\<exists>cfg d0 d. daemon_run cfg \<lparr>nets = []\<rparr> d0 example_race_labels d \<and> MaxDropsPerIP cfg = 1
     \<and> drop_streak cfg ''192.0.2.10'' (trace_of cfg \<lparr>nets = []\<rparr> example_race_labels d0) = 2
     \<and> int (drop_streak cfg ''192.0.2.10'' (trace_of cfg \<lparr>nets = []\<rparr> example_race_labels d0))
         \<le> MaxDropsPerIP cfg + (if decides_undisturbed example_race_labels then 0 else 1)"
proof -
  obtain cfg d0 d where r: "started example_seeded example_race_flags example_startup_env cfg \<lparr>nets = []\<rparr> d0"
      "daemon_run cfg \<lparr>nets = []\<rparr> d0 example_race_labels d" "Action cfg = ''drop''" "MaxDropsPerIP cfg = 1"
      "drop_streak cfg ''192.0.2.10'' (trace_of cfg \<lparr>nets = []\<rparr> example_race_labels d0) = 2"
    using example_race_run by blast
  have "int (drop_streak cfg ''192.0.2.10'' (trace_of cfg \<lparr>nets = []\<rparr> example_race_labels d0))
      \<le> MaxDropsPerIP cfg + (if decides_undisturbed example_race_labels then 0 else 1)"
    using consecutive_drops_bounded [OF r(1-3), of "''192.0.2.10''"] r(4) by simp
  then show ?thesis using r(2,4,5) by blast
qed

end
