(* ===== verification/Split_Mode.thy ===== *)
theory Split_Mode
  imports Drop_Mode
begin

text \<open>
  The split action end to end: what a client's payload packet is turned into on the wire, in both
  orders, and that no packet is split twice as long as its keys are remembered, which is followed step by
  step along a run.
\<close>

subsection \<open>Sending through the raw socket\<close>

definition sent :: "RawIPv4Sender \<Rightarrow> bytes \<Rightarrow> u32 \<Rightarrow> effect list" where
  "sent r pkt mark = [Syscall (SysSetMark (fd r) (uint mark)), Syscall (SysSendto (fd r) pkt (take 4 (drop 16 pkt)))]"

lemma raw_send_sent:
  assumes "rawSender d = Some r" "0 \<le> fd r" "20 \<le> length pkt" "drop_bit 4 (pkt ! 0) = 4"
  shows "raw_send pkt mark None None d = Some (None, d\<lparr>outputs := outputs d @ sent r pkt mark\<rparr>)"
  using assms Send_handed_over [of r pkt None mark None]
  by (simp add: raw_send_def hands_over_def complete_ipv4_def emit_all_def sent_def)

text \<open>The mark of the segments has all the bits of the split mark and of the packet's mark.\<close>

lemma segment_mark_bits:
  "segment_mark cfg mk AND SplitMarkValue cfg = SplitMarkValue cfg"
  "mk = Some m \<Longrightarrow> segment_mark cfg mk AND m = m"
proof -
  have "(a OR b) AND a = a" "(a OR b) AND b = b" for a b :: u32 by (auto simp: bit_eq_iff bit_simps)
  then show "segment_mark cfg mk AND SplitMarkValue cfg = SplitMarkValue cfg" "mk = Some m \<Longrightarrow> segment_mark cfg mk AND m = m"
    by (auto simp: segment_mark_def Let_def split: option.split)
qed

text \<open>A goroutine whose send succeeds takes one step.\<close>

lemma second_send_done:
  assumes "i < length (second_sends d)" "second_sends d ! i = t" "\<not> ss_failed t"
    and "rawSender d = Some r" "0 \<le> fd r" "40 \<le> length (ss_packet t)" "drop_bit 4 (ss_packet t ! 0) = 4"
  shows "second_send_step cfg i None None d = Some (d\<lparr>second_sends := take i (second_sends d) @ drop (Suc i) (second_sends d),
     outputs := outputs d @ nap (SplitDelay cfg) @ sent r (ss_packet t) (ss_mark t) @ log_line cfg ''SPLIT-RAW-SENT''\<rparr>)"
proof -
  let ?y = "if 0 < SplitDelay cfg then emit (Sleep (SplitDelay cfg)) d else d"
  have "rawSender ?y = Some r" using assms(4) by (simp add: emit_def)
  then have "raw_send (ss_packet t) (ss_mark t) None None ?y =
      Some (None, ?y\<lparr>outputs := outputs ?y @ sent r (ss_packet t) (ss_mark t)\<rparr>)"
    using assms(5-7) by (intro raw_send_sent) auto
  then show ?thesis
    using assms(1-3) unfolding second_send_step_def
    by (auto simp: Let_def nap_def log_line_def logVerbose_def emit_def)
qed

subsection \<open>Reaching the split\<close>

text \<open>A payload packet that is not exempt, not seen before, and finds no pass window configured.\<close>

lemma handler_split:
  assumes "Packet cfg = ''payload''" "ParseIPv4TCPPayload pkt = Some (info, True)" "\<not> skip_mark_matches cfg mk"
    and "splitSeen d (split_key info) = None" "PassWindow cfg = 0" "\<not> FakeBadChecksum cfg"
  shows "handler cfg wl \<lparr>attr_PacketID = Some pid, attr_Payload = Some pkt, attr_Mark = mk\<rparr> e d
     = send_segments cfg pid pkt info (segment_mark cfg mk) e (seen_store (split_key info) (now_seen e) d)"
  using assms by (simp add: handler_def handle_payload_def split_packet_def)

lemma segment_keys:
  assumes "i1 = info\<lparr>Flags := fl, PayloadLen := k, TotalLen := n1\<rparr>"
    and "i2 = info\<lparr>Seq := Seq info + word_of_int k, PayloadLen := PayloadLen info - k, TotalLen := n2\<rparr>"
  shows "split_key i2 = (split_key info)\<lparr>key_Seq := Seq info + word_of_int k, key_PayloadLen := PayloadLen info - k\<rparr>"
    "split_key i1 = (split_key info)\<lparr>key_PayloadLen := k\<rparr>"
  by (simp_all add: assms split_key_def)

text \<open>
  C8. A split delivers the payload. When a payload packet is split in the normal order, it is
  accepted with its first segment in place of the packet, and the goroutine started for it then sends the
  second segment to the packet's destination; both carry a mark with all bits of the split mark and of the
  packet's mark. Both segments are well-formed packets with valid checksums, their payloads are together exactly
  the original payload, and the second continues at the sequence number where the first ends.
\<close>

theorem split_delivers_payload:
  assumes "Packet cfg = ''payload''" "ParseIPv4TCPPayload pkt = Some (info, True)" "\<not> skip_mark_matches cfg mk"
    and "splitSeen d (split_key info) = None" "PassWindow cfg = 0" "\<not> FakeBadChecksum cfg"
    and "\<not> SplitReverse cfg" "\<not> SplitProbe cfg" "0 < SplitAt cfg" "SplitAt cfg < PayloadLen info"
    and "rawSender d = Some r" "0 \<le> fd r" "mod_verdict_ok e" "mark = segment_mark cfg mk"
  shows "\<exists>first second i1 i2 d1 d2.
     handler cfg wl \<lparr>attr_PacketID = Some pid, attr_Payload = Some pkt, attr_Mark = mk\<rparr> e d = Some d1
   \<and> outputs d1 = outputs d @ [SetVerdictModPacketWithConnMark pid NfAccept (uint mark) first True] @ log_line cfg ''SPLIT''
   \<and> second_send_step cfg (length (second_sends d)) None None d1 = Some d2
   \<and> outputs d2 = outputs d1 @ nap (SplitDelay cfg) @ sent r second mark @ log_line cfg ''SPLIT-RAW-SENT''
   \<and> second_sends d2 = second_sends d
   \<and> mark AND SplitMarkValue cfg = SplitMarkValue cfg \<and> (\<forall>m. mk = Some m \<longrightarrow> mark AND m = m)
   \<and> ParseIPv4TCPPayload first = Some (i1, True) \<and> ParseIPv4TCPPayload second = Some (i2, True)
   \<and> payload_of first i1 @ payload_of second i2 = payload_of pkt info
   \<and> Seq i1 = Seq info \<and> Seq i2 = Seq info + word_of_int (PayloadLen i1)
   \<and> ip_checksum_ok first i1 \<and> tcp_checksum_ok first i1 \<and> ip_checksum_ok second i2 \<and> tcp_checksum_ok second i2"
proof -
  obtain first second i1 i2 where
    s: "SplitIPv4TCPPacket pkt info (SplitAt cfg) = Some (Inr (first, second))"
    and p: "ParseIPv4TCPPayload first = Some (i1, True)" "ParseIPv4TCPPayload second = Some (i2, True)"
    and pl: "payload_of first i1 @ payload_of second i2 = payload_of pkt info"
    and i: "i1 = info\<lparr>Flags := Flags info AND NOT 0x09, PayloadLen := SplitAt cfg, TotalLen := len first\<rparr>"
      "i2 = info\<lparr>Seq := Seq info + word_of_int (SplitAt cfg), PayloadLen := PayloadLen info - SplitAt cfg, TotalLen := len second\<rparr>"
    and ck: "ip_checksum_ok first i1" "tcp_checksum_ok first i1" "ip_checksum_ok second i2" "tcp_checksum_ok second i2"
    using Split_segments [OF assms(2,9,10)] by blast
  let ?d1 = "send_forward cfg pid first second mark (split_key info) (second_key cfg info) e
      (seen_store (split_key info) (now_seen e) d)"
  have h: "handler cfg wl \<lparr>attr_PacketID = Some pid, attr_Payload = Some pkt, attr_Mark = mk\<rparr> e d = Some ?d1"
    using handler_split [OF assms(1-6)] s assms(7,14) by (simp add: send_segments_def)
  have o1: "outputs ?d1 = outputs d @ [SetVerdictModPacketWithConnMark pid NfAccept (uint mark) first True] @ log_line cfg ''SPLIT''"
    and t: "second_sends ?d1 = second_sends d @ [\<lparr>ss_packet = second, ss_mark = mark, ss_key = second_key cfg info, ss_failed = False\<rparr>]"
    and r: "rawSender ?d1 = Some r"
    using assms(8,11,13) by (simp_all add: send_forward_def Let_def effect_defs log_line_def int_of_def)
  have "\<exists>d2. second_send_step cfg (length (second_sends d)) None None ?d1 = Some d2
     \<and> outputs d2 = outputs ?d1 @ nap (SplitDelay cfg) @ sent r second mark @ log_line cfg ''SPLIT-RAW-SENT''
     \<and> second_sends d2 = second_sends d"
    using second_send_done [where d = ?d1 and i = "length (second_sends d)", OF _ refl _ r assms(12)] parsed_complete [OF p(2)]
    by (simp add: t)
  moreover have "Seq i1 = Seq info" "Seq i2 = Seq info + word_of_int (PayloadLen i1)" using i by simp_all
  moreover have "mark AND SplitMarkValue cfg = SplitMarkValue cfg" "\<forall>m. mk = Some m \<longrightarrow> mark AND m = m"
    using segment_mark_bits assms(14) by blast+
  ultimately show ?thesis using h o1 p pl ck by blast
qed

lemma example_payload_packet:
  "ParseIPv4TCPPayload (encode (example_packet 0x18 [97, 98, 99, 100, 101, 102]))
     = Some (info_of (example_packet 0x18 [97, 98, 99, 100, 101, 102]), True)"
  "PayloadLen (info_of (example_packet 0x18 [97, 98, 99, 100, 101, 102])) = 6"
  "payload_of (encode (example_packet 0x18 [97, 98, 99, 100, 101, 102]))
     (info_of (example_packet 0x18 [97, 98, 99, 100, 101, 102])) = [97, 98, 99, 100, 101, 102]"
proof -
  let ?p = "example_packet 0x18 [97, 98, 99, 100, 101, 102]"
  have "splittable ?p" by (simp add: splittable_def example_packet_wf) (simp add: example_packet_def)
  then show "ParseIPv4TCPPayload (encode ?p) = Some (info_of ?p, True)" using ParsePayload_encode [of ?p "[]"] by simp
  show "PayloadLen (info_of ?p) = 6" by (simp add: info_of_def example_packet_def)
  show "payload_of (encode ?p) (info_of ?p) = [97, 98, 99, 100, 101, 102]"
    using payload_of_encode [of ?p "[]"] by (simp add: example_packet_def)
qed

theorem split_delivers_payload_witness:
  "\<exists>cfg d first second i1 i2 d1 d2.
     handler cfg \<lparr>nets = []\<rparr> \<lparr>attr_PacketID = Some 7,
       attr_Payload = Some (encode (example_packet 0x18 [97, 98, 99, 100, 101, 102])), attr_Mark = Some 0x1\<rparr> (example_env 5) d = Some d1
   \<and> second_send_step cfg (length (second_sends d)) None None d1 = Some d2
   \<and> payload_of first i1 @ payload_of second i2 = [97, 98, 99, 100, 101, 102]"
proof -
  obtain cfg :: Config and d :: daemon where c: "Packet cfg = ''payload''" "\<not> SkipMarkEnabled cfg" "SplitAt cfg = 1" "PassWindow cfg = 0"
     "\<not> FakeBadChecksum cfg" "\<not> SplitReverse cfg" "\<not> SplitProbe cfg" "splitSeen d = Map.empty" "rawSender d = Some \<lparr>fd = 5\<rparr>"
    using example_split_startup by blast
  have "\<not> skip_mark_matches cfg (Some 0x1)" using c(2) by (simp add: skip_mark_matches_def)
  moreover have "splitSeen d k = None" for k by (simp add: c(8))
  ultimately show ?thesis
    using split_delivers_payload [OF c(1) example_payload_packet(1) _ _ c(4-7), of "Some 0x1" d _ "example_env 5" _ "\<lparr>nets = []\<rparr>" 7]
      c(3,9) example_payload_packet(2,3) by (fastforce simp: example_env_def)
qed

subsection \<open>Reverse order\<close>

text \<open>
  C10. In the reverse order the second segment leaves first: it is on the wire, with the mark and
  after the configured delay, before the packet is accepted with its first segment in place.
  Again both segments are what the split of the packet produces.
\<close>

theorem reverse_split_order:
  assumes "Packet cfg = ''payload''" "ParseIPv4TCPPayload pkt = Some (info, True)" "\<not> skip_mark_matches cfg mk"
    and "splitSeen d (split_key info) = None" "PassWindow cfg = 0" "\<not> FakeBadChecksum cfg"
    and "SplitReverse cfg" "SplitIPv4TCPPacket pkt info (SplitAt cfg) = Some (Inr (first, second))"
    and "rawSender d = Some r" "0 \<le> fd r" "mod_verdict_ok e" "second_setmark e = None" "second_sendto e = None"
    and "mark = segment_mark cfg mk"
  shows "\<exists>d1. handler cfg wl \<lparr>attr_PacketID = Some pid, attr_Payload = Some pkt, attr_Mark = mk\<rparr> e d = Some d1
   \<and> outputs d1 = outputs d @ sent r second mark @ log_line cfg ''SPLIT-REVERSE-RAW-SENT'' @ nap (SplitDelay cfg)
       @ [SetVerdictModPacketWithConnMark pid NfAccept (uint mark) first True] @ log_line cfg ''SPLIT-REVERSE''
   \<and> second_sends d1 = second_sends d"
proof -
  have k: "0 < SplitAt cfg" "SplitAt cfg < PayloadLen info" using Split_parsed [OF assms(2), of "SplitAt cfg"] assms(8) by auto
  obtain i2 where "ParseIPv4TCPPayload second = Some (i2, True)"
    using Split_segments [OF assms(2) k] assms(8) by auto
  note complete = parsed_complete [OF this]
  let ?d = "seen_store (second_key cfg info) (now_second e) (seen_store (split_key info) (now_seen e) d)"
  have "raw_send second mark None None ?d = Some (None, ?d\<lparr>outputs := outputs ?d @ sent r second mark\<rparr>)"
    using complete assms(9,10) by (intro raw_send_sent) (auto simp: seen_store_def)
  then show ?thesis
    using handler_split [OF assms(1-6), of wl pid e] assms(7,8,11-14)
    by (simp add: send_segments_def send_reverse_def Let_def effect_defs log_line_def nap_def int_of_def)
qed

theorem reverse_split_order_witness:
  "\<exists>cfg d d1 first second. SplitReverse cfg
   \<and> handler cfg \<lparr>nets = []\<rparr> \<lparr>attr_PacketID = Some 7,
       attr_Payload = Some (encode (example_packet 0x18 [97, 98, 99, 100, 101, 102])), attr_Mark = None\<rparr> (example_env 5) d = Some d1
   \<and> outputs d1 = outputs d @ sent \<lparr>fd = 5\<rparr> second 0x1000 @ nap (SplitDelay cfg)
       @ [SetVerdictModPacketWithConnMark 7 NfAccept 0x1000 first True]"
proof -
  let ?pkt = "encode (example_packet 0x18 [97, 98, 99, 100, 101, 102])"
  let ?info = "info_of (example_packet 0x18 [97, 98, 99, 100, 101, 102])"
  obtain cfg0 :: Config and d :: daemon where c: "Packet cfg0 = ''payload''" "\<not> SkipMarkEnabled cfg0" "SplitAt cfg0 = 1"
     "PassWindow cfg0 = 0" "\<not> FakeBadChecksum cfg0" "\<not> Verbose cfg0" "SplitMarkValue cfg0 = 0x1000"
     "splitSeen d = Map.empty" "rawSender d = Some \<lparr>fd = 5\<rparr>"
    using example_split_startup by blast
  let ?cfg = "cfg0\<lparr>SplitReverse := True\<rparr>"
  obtain first second where s: "SplitIPv4TCPPacket ?pkt ?info (SplitAt ?cfg) = Some (Inr (first, second))"
    using Split_segments [OF example_payload_packet(1), of 1] example_payload_packet(2) c(3) by auto
  have "\<not> skip_mark_matches ?cfg None" "splitSeen d (split_key ?info) = None" "segment_mark ?cfg None = 0x1000"
    using c by (simp_all add: skip_mark_matches_def segment_mark_def)
  then have "\<exists>d1. handler ?cfg \<lparr>nets = []\<rparr> \<lparr>attr_PacketID = Some 7, attr_Payload = Some ?pkt, attr_Mark = None\<rparr> (example_env 5) d = Some d1
   \<and> outputs d1 = outputs d @ sent \<lparr>fd = 5\<rparr> second 0x1000 @ nap (SplitDelay ?cfg)
       @ [SetVerdictModPacketWithConnMark 7 NfAccept 0x1000 first True]"
    using reverse_split_order [of ?cfg ?pkt ?info None d first second "\<lparr>fd = 5\<rparr>" "example_env 5" "0x1000" "\<lparr>nets = []\<rparr>" 7]
      c example_payload_packet(1) s by (auto simp: example_env_def log_line_def)
  moreover have "SplitReverse ?cfg" by simp
  ultimately show ?thesis by blast
qed

subsection \<open>No packet is split twice\<close>

lemma handler_seen_pass:
  assumes "Packet cfg = ''payload''" "ParseIPv4TCPPayload pkt = Some (info, True)" "splitSeen d (split_key info) \<noteq> None"
  shows "\<exists>os. handler cfg wl \<lparr>attr_PacketID = Some pid, attr_Payload = Some pkt, attr_Mark = mk\<rparr> e d
       = Some (d\<lparr>outputs := outputs d @ os @ [SetVerdict pid NfAccept]\<rparr>) \<and> settled_ids os = []"
proof (cases "skip_mark_matches cfg mk")
  case True
  then show ?thesis using assms by (intro exI [of _ "[]"]) (simp add: handler_def handle_payload_def effect_defs)
next
  case False
  then show ?thesis
    using assms by (intro exI [of _ "log_line cfg ''SPLIT-RETRANSMIT-PASS''"])
      (auto simp: handler_def handle_payload_def effect_defs log_line_def)
qed

lemma handler_short_pass:
  assumes "Packet cfg = ''payload''" "ParseIPv4TCPPayload pkt = Some (info, True)" "PayloadLen info \<le> SplitAt cfg"
    and "PassWindow cfg = 0" "\<not> FakeBadChecksum cfg"
  shows "\<exists>d' os. handler cfg wl \<lparr>attr_PacketID = Some pid, attr_Payload = Some pkt, attr_Mark = mk\<rparr> e d = Some d'
     \<and> outputs d' = outputs d @ os @ [SetVerdict pid NfAccept] \<and> settled_ids os = [] \<and> second_sends d' = second_sends d"
proof -
  have "\<exists>x. SplitIPv4TCPPacket pkt info (SplitAt cfg) = Some (Inl x)"
    using Split_parsed [OF assms(2), of "SplitAt cfg"] assms(3) by auto
  then show ?thesis
    using assms by (auto simp: handler_def handle_payload_def split_packet_def send_segments_def effect_defs)
qed

text \<open>
  How long a key stays remembered. Nothing in the state threatens the key: no sweep has found it stale
  or measures from later than \<open>--split-seen-ttl\<close> after \<open>T\<close>, and no goroutine is about to forget
  it after a failed send.
\<close>

definition safe_key :: "Config \<Rightarrow> time \<Rightarrow> splitSegmentKey \<Rightarrow> daemon \<Rightarrow> bool" where
  "safe_key cfg T k d \<longleftrightarrow>
     (case seenSweep d of None \<Rightarrow> True | Some s \<Rightarrow> seen_stale s \<noteq> Some k \<and> seen_now s - T \<le> SplitSeenTTL cfg)
   \<and> (\<forall>t \<in> set (second_sends d). ss_key t = k \<longrightarrow> \<not> ss_failed t)"

definition remembered :: "Config \<Rightarrow> time \<Rightarrow> splitSegmentKey \<Rightarrow> daemon \<Rightarrow> bool" where
  "remembered cfg T k d \<longleftrightarrow> safe_key cfg T k d \<and> (\<exists>t. splitSeen d k = Some t \<and> T \<le> t)"

text \<open>
  The steps that spare the key: the clock does not run backwards behind \<open>T\<close>, a tick of the loop that forgets old segments fires
  at most \<open>--split-seen-ttl\<close> after \<open>T\<close>, and no send of a segment with this key fails.
\<close>

definition spares :: "Config \<Rightarrow> time \<Rightarrow> splitSegmentKey \<Rightarrow> daemon \<Rightarrow> label \<Rightarrow> bool" where
  "spares cfg T k d l \<longleftrightarrow>
     (case l of
        LPacket a e \<Rightarrow> T \<le> now_seen e \<and> T \<le> now_second e \<and> T \<le> now_passed e
      | LSeenTick now keys \<Rightarrow> now - T \<le> SplitSeenTTL cfg
      | LSecondSend i x y \<Rightarrow> i < length (second_sends d) \<and> ss_key (second_sends d ! i) = k \<longrightarrow>
          (\<forall>err calls. Send (rawSender d) (ss_packet (second_sends d ! i)) (ss_mark (second_sends d ! i)) x y \<noteq> Some (Some err, calls))
      | _ \<Rightarrow> True)"

lemma not_stale:
  assumes "now - T \<le> keep" "T \<le> t" "int64 keep"
  shows "\<not> keep < time_Sub now t"
  using assms by (auto simp: time_Sub_def int64_def)

text \<open>What the handler does to the remembered keys, and to the goroutines of second segments.\<close>

definition seen_part :: "daemon \<Rightarrow> (splitSegmentKey \<rightharpoonup> time) \<times> seen_sweep option \<times> second_task list" where
  "seen_part d = (splitSeen d, seenSweep d, second_sends d)"

lemma seen_part_simps [simp]:
  "seen_part (emit x d) = seen_part d" "seen_part (emit_all xs d) = seen_part d" "seen_part (logVerbose cfg tag d) = seen_part d"
  "seen_part (accept pid d) = seen_part d" "seen_part (d\<lparr>splitPayloadWindow := w\<rparr>) = seen_part d"
  "seen_part (report n tag d) = seen_part d"
  by (simp_all add: seen_part_def effect_defs report_def)

lemma seen_fields [simp]:
  "splitSeen (emit x d) = splitSeen d" "splitSeen (emit_all xs d) = splitSeen d" "splitSeen (logVerbose cfg tag d) = splitSeen d"
  "splitSeen (accept pid d) = splitSeen d" "splitSeen (seen_store k t d) = (splitSeen d)(k \<mapsto> t)"
  "splitSeen (seen_delete k d) = (splitSeen d)(k := None)"
  "seenSweep (emit x d) = seenSweep d" "seenSweep (emit_all xs d) = seenSweep d" "seenSweep (logVerbose cfg tag d) = seenSweep d"
  "seenSweep (accept pid d) = seenSweep d" "seenSweep (seen_store k t d) = seenSweep d" "seenSweep (seen_delete k d) = seenSweep d"
  "second_sends (emit x d) = second_sends d" "second_sends (emit_all xs d) = second_sends d" "second_sends (logVerbose cfg tag d) = second_sends d"
  "second_sends (accept pid d) = second_sends d" "second_sends (seen_store k t d) = second_sends d"
  "second_sends (seen_delete k d) = second_sends d"
  by (simp_all add: effect_defs seen_store_def seen_delete_def)

definition keeps_seen :: "time \<Rightarrow> splitSegmentKey \<Rightarrow> daemon \<Rightarrow> daemon \<Rightarrow> bool" where
  "keeps_seen T k d d' \<longleftrightarrow> seenSweep d' = seenSweep d
     \<and> (\<exists>ts. second_sends d' = second_sends d @ ts \<and> list_all (\<lambda>t. \<not> ss_failed t) ts)
     \<and> (\<forall>t. splitSeen d k = Some t \<and> T \<le> t \<longrightarrow> (\<exists>t'. splitSeen d' k = Some t' \<and> T \<le> t'))"

lemma keeps_seen_remembered: "keeps_seen T k d d' \<Longrightarrow> remembered cfg T k d \<Longrightarrow> remembered cfg T k d'"
  by (auto simp: keeps_seen_def remembered_def safe_key_def list_all_iff)

lemma raw_send_seen: "raw_send p m x y d = Some (err, d') \<Longrightarrow> \<exists>os. d' = emit_all os d"
  by (auto simp: raw_send_def split: bind_splits)

lemma handler_keeps_seen:
  assumes "handler cfg wl a e d = Some d'" "Packet cfg = ''payload''" "\<not> SplitReverse cfg"
    and "T \<le> now_seen e" "T \<le> now_second e" "T \<le> now_passed e" "splitSeen d k \<noteq> None"
  shows "keeps_seen T k d d'"
proof -
  have fwd: "keeps_seen T k d (send_forward cfg pid first second mark sk k2 e d1)"
    if "keeps_seen T k d d1" "sk \<noteq> k" for pid first second mark sk k2 d1
    using that assms(5) by (auto simp: keeps_seen_def send_forward_def Let_def)
  have seg: "keeps_seen T k d d2"
    if "send_segments cfg pid pkt info mark e d1 = Some d2" "keeps_seen T k d d1" "split_key info \<noteq> k" for pid pkt info mark d1 d2
    using that fwd assms(3) by (auto simp: send_segments_def keeps_seen_def split: bind_splits sum.splits)
  have fake: "keeps_seen T k d d2"
    if "send_fake cfg pid pkt mark sk e d1 = Some (Inl d2)" "keeps_seen T k d d1" "sk \<noteq> k" for pid pkt mark sk d1 d2
    using that assms(3) by (auto simp: send_fake_def Let_def keeps_seen_def dest!: raw_send_seen split: bind_splits sum.splits if_splits)
  have fake2: "send_fake cfg pid pkt mark sk e d1 \<noteq> Some (Inr d2)" for pid pkt mark sk d1 d2
    using assms(3) by (auto simp: send_fake_def Let_def split: bind_splits sum.splits if_splits)
  have split: "keeps_seen T k d d2"
    if "split_packet cfg pid m pkt info e d1 = Some d2" "keeps_seen T k d d1" "split_key info \<noteq> k" for pid m pkt info d1 d2
  proof -
    have "keeps_seen T k d (seen_store (split_key info) (now_seen e) d1)"
      using that(2,3) by (auto simp: keeps_seen_def)
    then show ?thesis
      using that(1,3) seg fake fake2 unfolding split_packet_def Let_def
      by (auto split: bind_splits sum.splits if_splits)
  qed
  have refl: "keeps_seen T k d d1" if "seen_part d1 = seen_part d" for d1
    using that by (simp add: keeps_seen_def seen_part_def)
  have store: "keeps_seen T k d (accept pid (logVerbose cfg tag (seen_store sk (now_passed e) (d\<lparr>splitPayloadWindow := w\<rparr>))))" for pid tag sk w
    using assms(6) by (auto simp: keeps_seen_def)
  have payload: "keeps_seen T k d d'" if h: "handle_payload cfg pid m pkt e d = Some d'" for pid m pkt
  proof -
    obtain info ok where "ParseIPv4TCPPayload pkt = Some (info, ok)"
      using h by (auto simp: handle_payload_def split: bind_splits)
    note h = h [unfolded handle_payload_def this, simplified]
    obtain act since w where w: "window_decide (splitPayloadWindow d) (ip_key (DstIP info)) (now_window e) (PassWindow cfg)
        = ((act, since), w)" by (metis prod.exhaust)
    consider "seen_part d' = seen_part d"
      | "d' = accept pid (logVerbose cfg ''SPLIT-PASS-WINDOW'' (seen_store (split_key info) (now_passed e) (d\<lparr>splitPayloadWindow := w\<rparr>)))"
      | d1 where "split_packet cfg pid m pkt info e d1 = Some d'" "seen_part d1 = seen_part d" "splitSeen d (split_key info) = None"
    proof -
      consider (pass) "\<not> ok \<or> skip_mark_matches cfg m \<or> splitSeen d (split_key info) \<noteq> None"
        | (window) "ok" "\<not> skip_mark_matches cfg m" "splitSeen d (split_key info) = None" "0 < PassWindow cfg"
        | (plain) "ok" "\<not> skip_mark_matches cfg m" "splitSeen d (split_key info) = None" "\<not> 0 < PassWindow cfg" by blast
      then show thesis
      proof cases
        case pass
        then have "seen_part d' = seen_part d" using h by (auto split: if_splits)
        then show thesis by (rule that(1))
      next
        case window
        then show thesis using h w that(2,3) by (cases act) simp_all
      next
        case plain
        then show thesis using h that(3) [of d] by simp
      qed
    qed
    then show ?thesis
    proof cases
      case (3 d1)
      then have "split_key info \<noteq> k" using assms(7) by auto
      then show ?thesis using split [OF 3(1) refl [OF 3(2)]] by blast
    qed (use refl store in auto)
  qed
  consider "seen_part d' = seen_part d" | pid pkt where "handle_payload cfg pid (attr_Mark a) pkt e d = Some d'"
    using assms(1,2) by (auto simp: handler_def split: option.splits)
  then show ?thesis by cases (use refl payload in auto)
qed

lemma second_send_remembered:
  assumes rem: "remembered cfg T k d" and sp: "spares cfg T k d (LSecondSend i x y)"
    and s: "second_send_step cfg i x y d = Some d'"
  shows "remembered cfg T k d'"
proof -
  let ?t = "second_sends d ! i"
  have i: "i < length (second_sends d)" using s by (auto simp: second_send_step_def split: if_splits)
  then have t: "?t \<in> set (second_sends d)" by simp
  have fewer: "remembered cfg T k d1"
    if "seenSweep d1 = seenSweep d" "second_sends d1 = take i (second_sends d) @ drop (Suc i) (second_sends d)"
      "splitSeen d1 k = splitSeen d k" for d1
  proof -
    have "set (second_sends d1) \<subseteq> set (second_sends d)" unfolding that(2) by (auto dest: in_set_takeD in_set_dropD)
    then show ?thesis using rem that(1,3) by (auto simp: remembered_def safe_key_def subset_iff)
  qed
  show ?thesis
  proof (cases "ss_failed ?t")
    case True
    then have "ss_key ?t \<noteq> k" using rem t by (auto simp: remembered_def safe_key_def)
    then show ?thesis using s i True by (intro fewer) (auto simp: second_send_step_def Let_def)
  next
    case False
    let ?y = "if 0 < SplitDelay cfg then emit (Sleep (SplitDelay cfg)) d else d"
    have y: "rawSender ?y = rawSender d" "seenSweep ?y = seenSweep d" "second_sends ?y = second_sends d" "splitSeen ?y = splitSeen d"
      by (simp_all add: emit_def)
    obtain err calls where c: "Send (rawSender d) (ss_packet ?t) (ss_mark ?t) x y = Some (err, calls)"
      using s i False y(1) by (auto simp: second_send_step_def raw_send_def Let_def split: bind_splits)
    have r: "second_send_step cfg i x y d = Some (let d1 = emit_all (map Syscall calls) ?y in
        if err \<noteq> None then d1\<lparr>second_sends := (second_sends d1)[i := ?t\<lparr>ss_failed := True\<rparr>]\<rparr>
        else (logVerbose cfg ''SPLIT-RAW-SENT'' d1)\<lparr>second_sends := take i (second_sends d) @ drop (Suc i) (second_sends d)\<rparr>)"
      using i False c y(1,3) unfolding second_send_step_def raw_send_def by (auto simp: Let_def)
    show ?thesis
    proof (cases err)
      case None
      then show ?thesis using s y unfolding r by (intro fewer) (auto simp: Let_def)
    next
      case (Some ec)
      then have "ss_key ?t \<noteq> k" using sp i c by (auto simp: spares_def)
      then have "\<forall>t \<in> set ((second_sends d)[i := ?t\<lparr>ss_failed := True\<rparr>]). ss_key t = k \<longrightarrow> \<not> ss_failed t"
        using rem by (auto simp: remembered_def safe_key_def dest!: set_update_subset_insert [THEN subsetD])
      then show ?thesis using s Some rem y unfolding r by (auto simp: remembered_def safe_key_def Let_def)
    qed
  qed
qed

lemma seen_step_remembered:
  assumes rem: "remembered cfg T k d" and s: "splitSeenCleanupLoop_step cfg d = Some d'" and n: "int64 (SplitSeenTTL cfg)"
  shows "remembered cfg T k d'"
proof -
  obtain w where w: "seenSweep d = Some w" using s by (auto simp: splitSeenCleanupLoop_step_def split: option.splits)
  obtain t where t: "splitSeen d k = Some t" "T \<le> t" using rem by (auto simp: remembered_def)
  have r: "seen_stale w \<noteq> Some k" "seen_now w - T \<le> SplitSeenTTL cfg" "\<forall>t \<in> set (second_sends d). ss_key t = k \<longrightarrow> \<not> ss_failed t"
    using rem w by (auto simp: remembered_def safe_key_def)
  have fresh: "\<not> SplitSeenTTL cfg < time_Sub (seen_now w) t" using not_stale [OF r(2) t(2) n] .
  show ?thesis
  proof (cases "seen_stale w")
    case (Some k')
    then show ?thesis using s w t r by (auto simp: splitSeenCleanupLoop_step_def remembered_def safe_key_def seen_delete_def)
  next
    case None
    show ?thesis
    proof (cases "seen_todo w")
      case Nil
      then show ?thesis using s w t r None by (auto simp: splitSeenCleanupLoop_step_def remembered_def safe_key_def report_def emit_def split: if_splits)
    next
      case (Cons k' rest)
      then show ?thesis using s w t r None fresh
        by (cases "splitSeen d k'") (auto simp: splitSeenCleanupLoop_step_def remembered_def safe_key_def)
    qed
  qed
qed

lemma other_step_remembered:
  assumes "remembered cfg T k d" "do_step cfg wl l d = Some d'"
    and "\<And>a e. l \<noteq> LPacket a e" "\<And>i x y. l \<noteq> LSecondSend i x y" "\<And>now keys. l \<noteq> LSeenTick now keys" "l \<noteq> LSeenStep"
  shows "remembered cfg T k d'"
proof -
  have "seen_part d' = seen_part d"
  proof (cases l)
    case (LRelease i now)
    then have "release_step cfg i now d = Some d'" using assms(2) by simp
    then show ?thesis by (cases rule: release_cases) (auto simp: seen_part_def effect_defs)
  qed (use assms(2-) in \<open>auto simp: seen_part_def cleanupLoop_tick_def splitPayloadWindowCleanupLoop_tick_def statsLoop_tick_def
      shapeCleanup_tick_def shapeCleanup_step_def report_def effect_defs split_beta
      split: if_splits option.splits list.splits\<close>)
  then show ?thesis using assms(1) by (simp add: seen_part_def remembered_def safe_key_def)
qed

lemma step_remembered:
  assumes "remembered cfg T k d" "spares cfg T k d l" "do_step cfg wl l d = Some d'"
    and "Packet cfg = ''payload''" "\<not> SplitReverse cfg" "int64 (SplitSeenTTL cfg)"
  shows "remembered cfg T k d'"
proof (cases l)
  case (LPacket a e)
  then have "keeps_seen T k d d'"
    using assms by (intro handler_keeps_seen [of cfg wl a e]) (auto simp: spares_def remembered_def)
  then show ?thesis using keeps_seen_remembered assms(1) by blast
next
  case (LSecondSend i x y)
  then show ?thesis using second_send_remembered [OF assms(1)] assms(2,3) by simp
next
  case (LSeenTick now keys)
  then show ?thesis
    using assms(1-3) by (auto simp: splitSeenCleanupLoop_tick_def remembered_def safe_key_def spares_def split: if_splits)
next
  case LSeenStep
  then show ?thesis using seen_step_remembered [OF assms(1) _ assms(6)] assms(3) by simp
qed (use other_step_remembered [OF assms(1,3)] in auto)

lemma run_remembered:
  assumes "run_labels cfg wl ls d = Some d'" "remembered cfg T k d"
    and "list_all (\<lambda>(d, l, d'). spares cfg T k d l) (trace_of cfg wl ls d)"
    and "Packet cfg = ''payload''" "\<not> SplitReverse cfg" "int64 (SplitSeenTTL cfg)"
  shows "remembered cfg T k d'"
  using assms
proof (induction ls arbitrary: d)
  case (Cons l ls)
  then obtain d1 where d1: "do_step cfg wl l d = Some d1" "run_labels cfg wl ls d1 = Some d'" by (auto split: bind_splits)
  then show ?case using Cons.IH [OF d1(2)] step_remembered [OF Cons.prems(2) _ d1(1)] Cons.prems(3-) by simp
qed simp

text \<open>
  C9. No packet is split twice. A packet is split in the normal order (or probed) and accepted. Then, after any run of
  the daemon that spares the keys, a retransmission of the packet and its own second segment (except in probe
  mode, where the second segment is not sent) pass with a plain accept and without starting another send; the first
  segment is too short to be split and passes in the same way. The run may handle any packets, release
  goroutines, send second segments and sweep the remembered segments, step by step; it spares a key if
  the clock readings it stores are not before those of the split, the ticks of the sweep are at most
  \<open>--split-seen-ttl\<close> later, and no send of a segment with this key fails (after a failed send the code
  forgets the key on purpose). When the packet arrives no sweep has already condemned one of its keys and
  no earlier send of the same segment has failed.
\<close>

theorem split_once:
  assumes "config_ok cfg" "Packet cfg = ''payload''" "ParseIPv4TCPPayload pkt = Some (info, True)" "\<not> skip_mark_matches cfg mk"
    and "splitSeen d (split_key info) = None" "PassWindow cfg = 0" "\<not> FakeBadChecksum cfg"
    and "\<not> SplitReverse cfg" "SplitIPv4TCPPacket pkt info (SplitAt cfg) = Some (Inr (first, second))"
    and "mod_verdict_ok e" "handler cfg wl \<lparr>attr_PacketID = Some pid, attr_Payload = Some pkt, attr_Mark = mk\<rparr> e d = Some d1"
    and "T \<le> now_seen e" "T \<le> now_second e" "\<forall>k \<in> {split_key info, second_key cfg info}. safe_key cfg T k d"
    and "run_labels cfg wl ls d1 = Some d2"
    and "list_all (\<lambda>(d, l, d'). \<forall>k \<in> {split_key info, second_key cfg info}. spares cfg T k d l) (trace_of cfg wl ls d1)"
    and "again \<in> {pkt, first} \<union> (if SplitProbe cfg then {} else {second})"
  shows "\<exists>d3 os. handler cfg wl \<lparr>attr_PacketID = Some pid2, attr_Payload = Some again, attr_Mark = mk2\<rparr> e2 d2 = Some d3
      \<and> outputs d3 = outputs d2 @ os @ [SetVerdict pid2 NfAccept] \<and> settled_ids os = [] \<and> second_sends d3 = second_sends d2"
proof -
  have k: "0 < SplitAt cfg" "SplitAt cfg < PayloadLen info" using Split_parsed [OF assms(3), of "SplitAt cfg"] assms(9) by auto
  obtain i1 i2 where p: "ParseIPv4TCPPayload first = Some (i1, True)" "ParseIPv4TCPPayload second = Some (i2, True)"
    and i1: "PayloadLen i1 = SplitAt cfg"
    and i2: "i2 = info\<lparr>Seq := Seq info + word_of_int (SplitAt cfg), PayloadLen := PayloadLen info - SplitAt cfg, TotalLen := len second\<rparr>"
    using Split_segments [OF assms(3) k] assms(9) by auto
  have k2: "split_key i2 = second_key cfg info" by (simp add: i2 split_key_def second_key_def)
  have ne: "second_key cfg info \<noteq> split_key info" using k(1) by (simp add: split_key_def second_key_def)
  have d1: "d1 = send_forward cfg pid first second (segment_mark cfg mk) (split_key info) (second_key cfg info) e
      (seen_store (split_key info) (now_seen e) d)"
    using assms(8,9,11) handler_split [OF assms(2-7)] by (simp add: send_segments_def)
  have rem: "remembered cfg T (split_key info) d1" "SplitProbe cfg \<or> remembered cfg T (second_key cfg info) d1"
    using assms(10,12-14) ne by (auto simp: d1 send_forward_def Let_def remembered_def safe_key_def)
  have sp: "list_all (\<lambda>(d, l, d'). spares cfg T (split_key info) d l) (trace_of cfg wl ls d1)"
    "list_all (\<lambda>(d, l, d'). spares cfg T (second_key cfg info) d l) (trace_of cfg wl ls d1)"
    using assms(16) by (auto simp: list_all_iff)
  have n: "int64 (SplitSeenTTL cfg)" using assms(1) by (simp add: config_ok_def durations_def)
  note kept = run_remembered [OF assms(15) _ _ assms(2,8) n]
  have "splitSeen d2 (split_key info) \<noteq> None" "SplitProbe cfg \<or> splitSeen d2 (split_key i2) \<noteq> None"
    using kept [OF rem(1) sp(1)] kept [OF _ sp(2)] rem(2) by (auto simp: remembered_def k2)
  note seen = handler_seen_pass [OF assms(2,3) this(1)] handler_seen_pass [OF assms(2) p(2)] this(2)
  have "\<exists>d3 os. handler cfg wl \<lparr>attr_PacketID = Some pid2, attr_Payload = Some first, attr_Mark = mk2\<rparr> e2 d2 = Some d3
      \<and> outputs d3 = outputs d2 @ os @ [SetVerdict pid2 NfAccept] \<and> settled_ids os = [] \<and> second_sends d3 = second_sends d2"
    using handler_short_pass [OF assms(2) p(1) _ assms(6,7)] i1 by simp
  then show ?thesis
    using seen(1) [of wl pid2 mk2 e2] seen(2) [of d2 wl pid2 mk2 e2] seen(3) assms(17) by (fastforce split: if_splits)
qed

text \<open>
  The example: the packet is split, its second segment is sent, a sweep visits both keys, and the
  packet and its second segment come again.
\<close>

lemma example_split_fresh:
  assumes "startup example_seeded f e = Inr (cfg, q, wl, d)"
  shows "seenSweep d = None \<and> second_sends d = []"
  using assms by (cases rule: startup_cases) (simp add: emit_all_def init_daemon_def)

lemma example_sweep_run:
  assumes d: "splitSeen d = [k1 \<mapsto> 5, k2 \<mapsto> 5]" "k1 \<noteq> k2" "seenSweep d = None" "second_sends d = [t]" "rawSender d = Some \<lparr>fd = 5\<rparr>"
    and t: "\<not> ss_failed t" "40 \<le> length (ss_packet t)" "drop_bit 4 (ss_packet t ! 0) = 4" and keep: "SplitSeenTTL cfg = 60000000000"
  shows "\<exists>d'. run_labels cfg wl [LSecondSend 0 None None, LSeenTick 8 [k1, k2], LSeenStep, LSeenStep, LSeenStep] d = Some d'
     \<and> list_all (\<lambda>(d, l, d'). spares cfg 5 k d l)
          (trace_of cfg wl [LSecondSend 0 None None, LSeenTick 8 [k1, k2], LSeenStep, LSeenStep, LSeenStep] d)"
proof -
  have "Send (rawSender d) (ss_packet t) (ss_mark t) None None
      = Some (None, [SysSetMark 5 (uint (ss_mark t)), SysSendto 5 (ss_packet t) (take 4 (drop 16 (ss_packet t)))])"
    using Send_handed_over [of "\<lparr>fd = 5\<rparr>" "ss_packet t" None "ss_mark t" None] t d(5)
    by (simp add: hands_over_def complete_ipv4_def)
  moreover have "second_send_step cfg 0 None None d = Some (d\<lparr>second_sends := [],
     outputs := outputs d @ nap (SplitDelay cfg) @ sent \<lparr>fd = 5\<rparr> (ss_packet t) (ss_mark t) @ log_line cfg ''SPLIT-RAW-SENT''\<rparr>)"
    using second_send_done [of 0 d t "\<lparr>fd = 5\<rparr>" cfg] d t by simp
  ultimately show ?thesis
    using d keep by (simp add: splitSeenCleanupLoop_tick_def splitSeenCleanupLoop_step_def time_Sub_def report_def spares_def)
qed

theorem split_once_witness:
  "\<exists>cfg d d1 d2 ls second d3 d4 os. handler cfg \<lparr>nets = []\<rparr> \<lparr>attr_PacketID = Some 7,
       attr_Payload = Some (encode (example_packet 0x18 [97, 98, 99, 100, 101, 102])), attr_Mark = None\<rparr> (example_env 5) d = Some d1
   \<and> length ls = 5 \<and> run_labels cfg \<lparr>nets = []\<rparr> ls d1 = Some d2
   \<and> handler cfg \<lparr>nets = []\<rparr> \<lparr>attr_PacketID = Some 8,
       attr_Payload = Some (encode (example_packet 0x18 [97, 98, 99, 100, 101, 102])), attr_Mark = None\<rparr> (example_env 9) d2 = Some d3
   \<and> outputs d3 = outputs d2 @ os @ [SetVerdict 8 NfAccept]
   \<and> handler cfg \<lparr>nets = []\<rparr> \<lparr>attr_PacketID = Some 9, attr_Payload = Some second, attr_Mark = None\<rparr> (example_env 9) d2 = Some d4"
proof -
  let ?pkt = "encode (example_packet 0x18 [97, 98, 99, 100, 101, 102])"
  let ?info = "info_of (example_packet 0x18 [97, 98, 99, 100, 101, 102])"
  let ?at = "\<lambda>pid. \<lparr>attr_PacketID = Some pid, attr_Payload = Some ?pkt, attr_Mark = None\<rparr>"
  obtain cfg d where c: "startup example_seeded example_split_flags example_startup_env = Inr (cfg, 443, \<lparr>nets = []\<rparr>, d)"
      "Packet cfg = ''payload''" "\<not> SkipMarkEnabled cfg" "SplitAt cfg = 1" "PassWindow cfg = 0" "SplitSeenTTL cfg = 60000000000"
      "\<not> FakeBadChecksum cfg" "\<not> SplitReverse cfg" "\<not> SplitProbe cfg" "splitSeen d = Map.empty" "rawSender d = Some \<lparr>fd = 5\<rparr>"
    using example_split_startup by blast
  have ok: "config_ok cfg"
    using startup_valid [OF c(1)] fair_rng_sconst [of "- 1"] by (simp add: example_seeded_def)
  obtain first second i2 where s: "SplitIPv4TCPPacket ?pkt ?info (SplitAt cfg) = Some (Inr (first, second))"
    and i2: "ParseIPv4TCPPayload second = Some (i2, True)"
    using Split_segments [OF example_payload_packet(1), of 1] example_payload_packet(2) c(4) by auto
  have f: "\<not> skip_mark_matches cfg None" "splitSeen d (split_key ?info) = None" using c by (simp_all add: skip_mark_matches_def)
  let ?d1 = "send_forward cfg 7 first second (segment_mark cfg None) (split_key ?info) (second_key cfg ?info) (example_env 5)
      (seen_store (split_key ?info) 5 d)"
  have h: "handler cfg \<lparr>nets = []\<rparr> (?at 7) (example_env 5) d = Some ?d1"
    using handler_split [OF c(2) example_payload_packet(1) f c(5,7), of "\<lparr>nets = []\<rparr>" 7 "example_env 5"] s c(8)
    by (simp add: send_segments_def example_env_def)
  have ne: "split_key ?info \<noteq> second_key cfg ?info" by (simp add: split_key_def second_key_def c(4))
  let ?t = "\<lparr>ss_packet = second, ss_mark = segment_mark cfg None, ss_key = second_key cfg ?info, ss_failed = False\<rparr>"
  have d1: "splitSeen ?d1 = [split_key ?info \<mapsto> 5, second_key cfg ?info \<mapsto> 5]" "seenSweep ?d1 = None" "second_sends ?d1 = [?t]"
    "rawSender ?d1 = Some \<lparr>fd = 5\<rparr>"
    using c(9,10,11) example_split_fresh [OF c(1)] by (simp_all add: send_forward_def Let_def example_env_def seen_store_def effect_defs)
  let ?ls = "[LSecondSend 0 None None, LSeenTick 8 [split_key ?info, second_key cfg ?info], LSeenStep, LSeenStep, LSeenStep]"
  obtain d2 where r: "run_labels cfg \<lparr>nets = []\<rparr> ?ls ?d1 = Some d2"
      and sp: "list_all (\<lambda>(d, l, d'). spares cfg 5 k d l) (trace_of cfg \<lparr>nets = []\<rparr> ?ls ?d1)" for k
    using example_sweep_run [OF d1(1) ne d1(2-4) _ _ _ c(6), where wl = "\<lparr>nets = []\<rparr>"] parsed_complete [OF i2]
    by fastforce
  have safe: "\<forall>k \<in> {split_key ?info, second_key cfg ?info}. safe_key cfg 5 k d"
    using example_split_fresh [OF c(1)] by (simp add: safe_key_def)
  have t: "mod_verdict_ok (example_env 5)" "5 \<le> now_seen (example_env 5)" "5 \<le> now_second (example_env 5)"
    by (simp_all add: example_env_def)
  have sp2: "list_all (\<lambda>(d, l, d'). \<forall>k \<in> {split_key ?info, second_key cfg ?info}. spares cfg 5 k d l) (trace_of cfg \<lparr>nets = []\<rparr> ?ls ?d1)"
    using sp [of "split_key ?info"] sp [of "second_key cfg ?info"] by (auto simp: list_all_iff)
  note again = split_once [OF ok c(2) example_payload_packet(1) f c(5,7,8) s t(1) h t(2,3) safe r sp2]
  obtain d3 os where d3: "handler cfg \<lparr>nets = []\<rparr> (?at 8) (example_env 9) d2 = Some d3"
      "outputs d3 = outputs d2 @ os @ [SetVerdict 8 NfAccept]"
    using again [of ?pkt 8 None "example_env 9"] by auto
  obtain d4 where d4: "handler cfg \<lparr>nets = []\<rparr> \<lparr>attr_PacketID = Some 9, attr_Payload = Some second, attr_Mark = None\<rparr> (example_env 9) d2 = Some d4"
    using again [of second 9 None "example_env 9"] c(9) by auto
  have len: "length ?ls = 5" by simp
  show ?thesis by (intro exI conjI, rule h, rule len, rule r, rule d3(1), rule d3(2), rule d4)
qed

end
