(* ===== verification/Shape_Spacing.thy ===== *)
theory Shape_Spacing
  imports Drop_Mode
begin

text \<open>
  The promise of shape mode: SYNs of one client pass at least \<open>--burst-interval\<close> apart. It
  holds on the runs in which the clock does not go back, the goroutine of a delayed packet
  wakes before the client's next packet is handled after its delay, and no packet of the client is handled between the
  two steps by which a sweep decides and deletes its pacer.
\<close>

subsection \<open>When a client passes\<close>

text \<open>
  The time at which a step lets a packet of the client pass: an immediate acceptance (the packet is
  not exempt, not refused and not delayed), or the waking of its goroutine.
\<close>

definition pass_time :: "Config \<Rightarrow> Whitelist \<Rightarrow> string \<Rightarrow> daemon \<times> label \<times> daemon \<Rightarrow> time option" where
  "pass_time cfg wl ip x =
     (case x of (d, l, d') \<Rightarrow>
       (case l of
          LPacket a e \<Rightarrow>
            if matched_client cfg l = Some ip \<and> \<not> skip_mark_matches cfg (attr_Mark a) \<and> Whitelist_Contains wl ip = Some False
              \<and> \<not> was_refused d' \<and> length (releases d') = length (releases d)
            then Some (now_main e) else None
        | LRelease i now \<Rightarrow>
            if i < length (releases d) \<and> rt_pc (releases d ! i) = R_Sleep \<and> rt_ip (releases d ! i) = ip then Some now else None
        | _ \<Rightarrow> None))"

definition pass_times :: "Config \<Rightarrow> Whitelist \<Rightarrow> string \<Rightarrow> trace \<Rightarrow> time list" where
  "pass_times cfg wl ip tr = List.map_filter (pass_time cfg wl ip) tr"

lemma pass_times_simps [simp]:
  "pass_times cfg wl ip [] = []"
  "pass_times cfg wl ip (tr @ [x]) = pass_times cfg wl ip tr @ (case pass_time cfg wl ip x of None \<Rightarrow> [] | Some t \<Rightarrow> [t])"
  by (simp_all add: pass_times_def List.map_filter_def split: option.split)

subsection \<open>Timely runs\<close>

definition sleeping :: "string \<Rightarrow> daemon \<Rightarrow> release_task list" where
  "sleeping ip d = filter (\<lambda>r. rt_pc r = R_Sleep \<and> rt_ip r = ip) (releases d)"

definition condemned :: "string \<Rightarrow> daemon \<Rightarrow> bool" where
  "condemned ip d \<longleftrightarrow> (case shapeSweep d of None \<Rightarrow> False | Some s \<Rightarrow> sweep_stale s = Some ip)"

fun tick_clock :: "time \<Rightarrow> daemon \<times> label \<times> daemon \<Rightarrow> time" where
  "tick_clock c (d, LPacket a e, d') = max c (now_main e)"
| "tick_clock c (d, LRelease i t, d') = max c t"
| "tick_clock c (d, LShapeTick t keys, d') = max c t"
| "tick_clock c _ = c"

definition clock :: "trace \<Rightarrow> time" where
  "clock tr = foldl tick_clock 0 tr"

fun step_timely :: "Config \<Rightarrow> string \<Rightarrow> time \<Rightarrow> daemon \<times> label \<times> daemon \<Rightarrow> bool" where
  "step_timely cfg ip c (d, LPacket a e, d') \<longleftrightarrow> c \<le> now_main e \<and> 0 < now_main e \<and>
     (matched_client cfg (LPacket a e) = Some ip \<longrightarrow>
        list_all (\<lambda>r. now_main e < rt_started r + rt_delay r) (sleeping ip d) \<and> \<not> condemned ip d)"
| "step_timely cfg ip c (d, LRelease i t, d') \<longleftrightarrow> c \<le> t \<and> 0 < t"
| "step_timely cfg ip c _ \<longleftrightarrow> True"

fun timely_from :: "Config \<Rightarrow> string \<Rightarrow> time \<Rightarrow> trace \<Rightarrow> bool" where
  "timely_from cfg ip c [] \<longleftrightarrow> True"
| "timely_from cfg ip c (x # tr) \<longleftrightarrow> step_timely cfg ip c x \<and> timely_from cfg ip (tick_clock c x) tr"

definition timely :: "Config \<Rightarrow> string \<Rightarrow> trace \<Rightarrow> bool" where
  "timely cfg ip tr \<longleftrightarrow> timely_from cfg ip 0 tr"

lemma timely_from_snoc:
  "timely_from cfg ip c (tr @ [x]) \<longleftrightarrow> timely_from cfg ip c tr \<and> step_timely cfg ip (foldl tick_clock c tr) x"
  by (induction tr arbitrary: c) auto

lemma timely_simps [simp]:
  "timely cfg ip []" "timely cfg ip (tr @ [x]) \<longleftrightarrow> timely cfg ip tr \<and> step_timely cfg ip (clock tr) x"
  "clock [] = 0" "clock (tr @ [x]) = tick_clock (clock tr) x"
  by (simp_all add: timely_def timely_from_snoc clock_def)

subsection \<open>The invariant\<close>

text \<open>The last time the client passed lies a full interval back.\<close>

definition gap :: "Config \<Rightarrow> time \<Rightarrow> time list \<Rightarrow> bool" where
  "gap cfg c ts \<longleftrightarrow> ts = [] \<or> last ts + BurstInterval cfg \<le> c"

definition owners :: "daemon \<Rightarrow> bool" where
  "owners d \<longleftrightarrow> (\<forall>r \<in> set (releases d). \<forall>ip. burstPacerByIP d ip = Some (rt_pacer r) \<longrightarrow> rt_ip r = ip)"

definition paced :: "Config \<Rightarrow> string \<Rightarrow> time \<Rightarrow> time list \<Rightarrow> daemon \<Rightarrow> bool" where
  "paced cfg ip c ts d \<longleftrightarrow>
     (case burstPacerByIP d ip of
        None \<Rightarrow> gap cfg c ts \<and> sleeping ip d = []
      | Some a \<Rightarrow> ts \<noteq> [] \<and> LastRelease (pacers d a) = last ts \<and> 0 < last ts \<and> last ts \<le> pacer_LastSeen (pacers d a)
          \<and> last ts \<le> c
          \<and> (sleeping ip d = [] \<or>
              (\<exists>r. sleeping ip d = [r] \<and> rt_pacer r = a \<and> Pending (pacers d a)
                 \<and> rt_started r + rt_delay r = last ts + BurstInterval cfg)))
   \<and> (condemned ip d \<longrightarrow> gap cfg c ts \<and> sleeping ip d = [])
   \<and> (case shapeSweep d of None \<Rightarrow> True | Some s \<Rightarrow> sweep_now s \<le> c)"

lemma paced_quiet:
  assumes "paced cfg ip c ts d" "c \<le> c'" "burstPacerByIP d' ip = burstPacerByIP d ip" "sleeping ip d' = sleeping ip d"
    and "\<And>a. burstPacerByIP d ip = Some a \<Longrightarrow> pacers d' a = pacers d a" "shapeSweep d' = shapeSweep d"
  shows "paced cfg ip c' ts d'"
  using assms by (auto simp: paced_def gap_def condemned_def split: option.splits)

subsection \<open>A packet of the client\<close>

text \<open>What the outcomes of the shape action do to the fields the invariant reads.\<close>

lemma shape_drop_fields:
  "burstPacerByIP (shape_drop cfg pid m ev tag d) = burstPacerByIP d" "pacers (shape_drop cfg pid m ev tag d) = pacers d"
  "releases (shape_drop cfg pid m ev tag d) = releases d" "shapeSweep (shape_drop cfg pid m ev tag d) = shapeSweep d"
  "was_refused (shape_drop cfg pid m ev tag d)"
  by (simp_all add: shape_drop_def Let_def dropOrReject_refusal effect_defs was_refused_def refusal_def split: option.split)

lemma shape_accept_fields:
  "burstPacerByIP (shape_accept cfg pid ip now a d) = burstPacerByIP d"
  "pacers (shape_accept cfg pid ip now a d) = (pacers d)(a := \<lparr>LastRelease = now, pacer_LastSeen = now, Pending = False\<rparr>)"
  "releases (shape_accept cfg pid ip now a d) = releases d" "shapeSweep (shape_accept cfg pid ip now a d) = shapeSweep d"
  "\<not> was_refused (shape_accept cfg pid ip now a d)"
  by (simp_all add: shape_accept_def Let_def effect_defs was_refused_def)

lemma shape_delay_fields:
  "burstPacerByIP (shape_delay cfg pid ip fk now dl a d) = burstPacerByIP d"
  "pacers (shape_delay cfg pid ip fk now dl a d) = (pacers d)(a := (pacers d a)\<lparr>Pending := True\<rparr>)"
  "releases (shape_delay cfg pid ip fk now dl a d) = releases d @ [\<lparr>rt_pc = R_Sleep, rt_packetID = pid, rt_ip = ip,
     rt_key = fk, rt_delay = dl, rt_pacer = a, rt_started = now\<rparr>]"
  "shapeSweep (shape_delay cfg pid ip fk now dl a d) = shapeSweep d"
  by (simp_all add: shape_delay_def Let_def effect_defs)

lemma load_pacer_fields:
  assumes "load_pacer ip d = (a, d1)" "shape_inv cfg d"
  shows "burstPacerByIP d1 = (burstPacerByIP d)(ip \<mapsto> a)" "releases d1 = releases d" "shapeSweep d1 = shapeSweep d"
    "burstPacerByIP d ip = Some a \<Longrightarrow> pacers d1 = pacers d"
    "burstPacerByIP d ip = None \<Longrightarrow> LastRelease (pacers d1 a) = 0 \<and> \<not> Pending (pacers d1 a)"
    "burstPacerByIP d x = Some b \<Longrightarrow> x \<noteq> ip \<Longrightarrow> b \<noteq> a \<and> pacers d1 b = pacers d b"
    "r \<in> set (releases d) \<Longrightarrow> rt_pacer r = a \<Longrightarrow> burstPacerByIP d ip = Some a"
    "burstPacerByIP d ip \<noteq> None \<Longrightarrow> burstPacerByIP d ip = Some a"
proof -
  have alloc: "\<And>x b. burstPacerByIP d x = Some b \<Longrightarrow> b < next_pacer d" "\<And>r. r \<in> set (releases d) \<Longrightarrow> rt_pacer r < next_pacer d"
    and inj: "inj_on (burstPacerByIP d) (dom (burstPacerByIP d))" using assms(2) by (simp_all add: shape_inv_def)
  show "burstPacerByIP d1 = (burstPacerByIP d)(ip \<mapsto> a)" "releases d1 = releases d" "shapeSweep d1 = shapeSweep d"
    "burstPacerByIP d ip = Some a \<Longrightarrow> pacers d1 = pacers d" "burstPacerByIP d ip \<noteq> None \<Longrightarrow> burstPacerByIP d ip = Some a"
    "burstPacerByIP d ip = None \<Longrightarrow> LastRelease (pacers d1 a) = 0 \<and> \<not> Pending (pacers d1 a)"
    using assms(1) by (auto simp: load_pacer_def burstPacer_zero_def split: option.splits)
  show "b \<noteq> a \<and> pacers d1 b = pacers d b" if "burstPacerByIP d x = Some b" "x \<noteq> ip"
    using assms(1) that alloc(1) [OF that(1)] inj_onD [OF inj, of x ip] by (auto simp: load_pacer_def split: option.splits)
  show "burstPacerByIP d ip = Some a" if "r \<in> set (releases d)" "rt_pacer r = a"
    using assms(1) that alloc(2) [OF that(1)] by (auto simp: load_pacer_def split: option.splits)
qed

lemma sleeping_cong: "releases d' = releases d \<Longrightarrow> sleeping ip d' = sleeping ip d"
  by (simp add: sleeping_def)

lemma sleeping_delay:
  "sleeping x (shape_delay cfg pid ip fk now dl a d) = sleeping x d @ (if ip = x then [\<lparr>rt_pc = R_Sleep, rt_packetID = pid,
     rt_ip = ip, rt_key = fk, rt_delay = dl, rt_pacer = a, rt_started = now\<rparr>] else [])"
  by (simp add: sleeping_def shape_delay_fields)

lemmas sleeping_outcome = sleeping_cong [OF shape_drop_fields(3)] sleeping_cong [OF shape_accept_fields(3)] sleeping_delay

text \<open>The delay fills up the interval exactly.\<close>

lemma delay_exact:
  fixes t :: time
  assumes "t \<le> now" "time_Sub now t < B" "0 < B" "int64 B"
  shows "now + max 0 (wrap64 (B - time_Sub now t)) = t + B"
proof -
  have "time_Sub now t = now - t" using assms by (auto simp: time_Sub_def int64_def)
  moreover have "wrap64 (B - (now - t)) = B - (now - t)"
    using assms calculation by (intro wrap64_id) (auto simp: int64_def)
  ultimately show ?thesis using assms by simp
qed

lemma paced_known:
  assumes p: "paced cfg ip c ts d" and inv: "shape_inv cfg d" and l: "load_pacer ip d = (a, d1)"
    and z: "\<not> time_IsZero (LastRelease (pacers d1 a))"
  shows "ts \<noteq> [] \<and> LastRelease (pacers d1 a) = last ts \<and> 0 < last ts \<and> last ts \<le> c
      \<and> (sleeping ip d = [] \<or> (\<exists>r. sleeping ip d = [r] \<and> rt_pacer r = a \<and> Pending (pacers d1 a)
            \<and> rt_started r + rt_delay r = last ts + BurstInterval cfg))"
proof -
  note lf = load_pacer_fields [OF l inv]
  have "burstPacerByIP d ip = Some a" using lf(5,8) z by (cases "burstPacerByIP d ip") (auto simp: time_IsZero_def)
  then show ?thesis using p lf(4) by (auto simp: paced_def)
qed

text \<open>When the handler accepts at once, the interval is over and no SYN of the client is delayed.\<close>

lemma paced_free:
  assumes p: "paced cfg ip c ts d" and inv: "shape_inv cfg d" and l: "load_pacer ip d = (a, d1)" and now: "c \<le> now"
    and due: "list_all (\<lambda>r. now < rt_started r + rt_delay r) (sleeping ip d)" and B: "int64 (BurstInterval cfg)" "0 < BurstInterval cfg"
    and free: "time_IsZero (LastRelease (pacers d1 a)) \<or> BurstInterval cfg \<le> time_Sub now (LastRelease (pacers d1 a))"
  shows "gap cfg now ts \<and> sleeping ip d = []"
proof (cases "time_IsZero (LastRelease (pacers d1 a))")
  case True
  note lf = load_pacer_fields [OF l inv]
  have "burstPacerByIP d ip = None"
    using True p lf(4,8) by (cases "burstPacerByIP d ip") (auto simp: paced_def time_IsZero_def)
  then show ?thesis using p now by (auto simp: paced_def gap_def)
next
  case False
  note known = paced_known [OF p inv l False]
  have "last ts + BurstInterval cfg \<le> now"
    using free False known time_Sub_lower [of "BurstInterval cfg" now "last ts"] B by auto
  moreover have "sleeping ip d = []" using known due calculation by auto
  ultimately show ?thesis by (simp add: gap_def)
qed

lemma paced_packet:
  assumes p: "paced cfg ip c ts d" and inv: "shape_inv cfg d" and now: "c \<le> now" "0 < now"
    and due: "list_all (\<lambda>r. now < rt_started r + rt_delay r) (sleeping ip d)" and nc: "\<not> condemned ip d"
    and B: "0 < BurstInterval cfg" "int64 (BurstInterval cfg)" and d': "d' = handle_shape cfg pid m ip info now d"
  obtains (refused) "was_refused d'" "paced cfg ip now ts d'"
  | (passed) "\<not> was_refused d'" "length (releases d') = length (releases d)" "gap cfg now ts" "paced cfg ip now (ts @ [now]) d'"
  | (delayed) "length (releases d') \<noteq> length (releases d)" "paced cfg ip now ts d'"
proof -
  obtain a d1 where l: "load_pacer ip d = (a, d1)" by (metis prod.exhaust)
  note lf = load_pacer_fields [OF l inv]
  let ?p = "pacers d1 a"
  define d2 where "d2 = set_pacer a (?p\<lparr>pacer_LastSeen := now\<rparr>) d1"
  have d2: "burstPacerByIP d2 ip = Some a" "releases d2 = releases d" "shapeSweep d2 = shapeSweep d"
    "sleeping ip d2 = sleeping ip d" "pacers d2 a = ?p\<lparr>pacer_LastSeen := now\<rparr>"
    using lf(1-3) by (simp_all add: d2_def set_pacer_def sleeping_def)
  have sw: "case shapeSweep d of None \<Rightarrow> True | Some s \<Rightarrow> sweep_now s \<le> now"
    using p now(1) by (auto simp: paced_def split: option.splits)
  note known = paced_known [OF p inv l]
  show thesis
  proof (cases rule: handle_shape_cases [OF l d2_def refl refl, where info = info and cfg = cfg and pid = pid and m = m])
    case (1 ev tag)
    then show thesis
      using refused paced_quiet [OF p now(1)] d' shape_drop_fields [of cfg pid m ev tag d] sleeping_outcome by auto
  next
    case 2
    have f: "gap cfg now ts \<and> sleeping ip d = []" using paced_free [OF p inv l now(1) due B(2,1)] 2(1) by blast
    have "paced cfg ip now (ts @ [now]) d'"
      using f d2 shape_accept_fields [of cfg pid ip now a d2] sw nc now(2) B
      by (simp add: d' 2(2) paced_def condemned_def sleeping_outcome)
    then show thesis using passed f d2 d' 2(2) shape_accept_fields [of cfg pid ip now a d2] by simp
  next
    case (3 ev tag)
    have "paced cfg ip now ts d'"
      using known [OF 3(1)] d2 sw nc now shape_drop_fields [of cfg pid m ev tag d2]
      by (auto simp: d' 3(2) paced_def condemned_def sleeping_outcome)
    then show thesis using refused d' 3(2) shape_drop_fields [of cfg pid m ev tag d2] by simp
  next
    case 4
    have k: "sleeping ip d = []" "ts \<noteq> []" "LastRelease ?p = last ts" "0 < last ts" "last ts \<le> c" using known [OF 4(1)] 4(4) by auto
    have "now + max 0 (wrap64 (BurstInterval cfg - time_Sub now (LastRelease ?p))) = last ts + BurstInterval cfg"
      using delay_exact [of "last ts" now "BurstInterval cfg"] k(3,5) now(1) 4(2) B by simp
    then have "paced cfg ip now ts d'"
      using k d2 sw nc now shape_delay_fields [of cfg pid ip _ now _ a d2]
      by (simp add: d' 4(5) paced_def condemned_def sleeping_outcome)
    then show thesis using delayed d2 d' 4(5) shape_delay_fields [of cfg pid ip _ now _ a d2] by simp
  qed
qed

subsection \<open>The other steps\<close>

lemma shape_other_client:
  assumes "shape_inv cfg d" "x \<noteq> ip" "d' = handle_shape cfg pid m x info now d"
  shows "burstPacerByIP d' ip = burstPacerByIP d ip" "sleeping ip d' = sleeping ip d" "shapeSweep d' = shapeSweep d"
    "burstPacerByIP d ip = Some b \<Longrightarrow> pacers d' b = pacers d b"
proof -
  obtain a d1 where l: "load_pacer x d = (a, d1)" by (metis prod.exhaust)
  note lf = load_pacer_fields [OF l assms(1)]
  define d2 where "d2 = set_pacer a ((pacers d1 a)\<lparr>pacer_LastSeen := now\<rparr>) d1"
  have d2: "burstPacerByIP d2 = (burstPacerByIP d)(x \<mapsto> a)" "shapeSweep d2 = shapeSweep d" "sleeping ip d2 = sleeping ip d"
    "burstPacerByIP d ip = Some b \<Longrightarrow> b \<noteq> a \<and> pacers d2 b = pacers d b"
    using lf(1-3) lf(6) [of ip b] assms(2) by (auto simp: d2_def set_pacer_def sleeping_def)
  have "burstPacerByIP d' ip = burstPacerByIP d ip \<and> sleeping ip d' = sleeping ip d \<and> shapeSweep d' = shapeSweep d
      \<and> (burstPacerByIP d ip = Some b \<longrightarrow> pacers d' b = pacers d b)"
    by (cases rule: handle_shape_cases [OF l d2_def refl refl, where info = info and cfg = cfg and pid = pid and m = m])
       (use assms(2) d2 in \<open>auto simp: assms(3) shape_drop_fields shape_accept_fields shape_delay_fields sleeping_outcome\<close>)
  then show "burstPacerByIP d' ip = burstPacerByIP d ip" "sleeping ip d' = sleeping ip d" "shapeSweep d' = shapeSweep d"
    "burstPacerByIP d ip = Some b \<Longrightarrow> pacers d' b = pacers d b" by blast+
qed

lemma owners_shape:
  assumes "owners d" "shape_inv cfg d"
  shows "owners (handle_shape cfg pid m ip info now d)"
proof -
  obtain a d1 where l: "load_pacer ip d = (a, d1)" by (metis prod.exhaust)
  note lf = load_pacer_fields [OF l assms(2)]
  define d2 where "d2 = set_pacer a ((pacers d1 a)\<lparr>pacer_LastSeen := now\<rparr>) d1"
  have d2: "burstPacerByIP d2 = (burstPacerByIP d)(ip \<mapsto> a)" "releases d2 = releases d"
    using lf(1,2) by (simp_all add: d2_def set_pacer_def)
  have "owners d2" using assms(1) lf(7) by (auto simp: owners_def d2)
  moreover have "x = ip" if "burstPacerByIP d2 x = Some a" for x using that lf(6) [of x a] by (auto simp: d2 split: if_splits)
  ultimately show ?thesis
    by (cases rule: handle_shape_cases [OF l d2_def refl refl, where info = info and cfg = cfg and pid = pid and m = m])
       (use assms(1) in \<open>auto simp: owners_def shape_drop_fields shape_accept_fields shape_delay_fields\<close>)
qed

text \<open>The fields the invariant reads, and the steps of the handler that leave them alone.\<close>

definition pace_part :: "daemon \<Rightarrow> (string \<rightharpoonup> nat) \<times> (nat \<Rightarrow> burstPacerState) \<times> release_task list \<times> shape_sweep option" where
  "pace_part d = (burstPacerByIP d, pacers d, releases d, shapeSweep d)"

interpretation pace: split_frame pace_part
  by unfold_locales (simp_all add: pace_part_def)

lemma pace_part_quiet: "pace_part d' = pace_part d \<Longrightarrow> paced cfg ip c ts d \<Longrightarrow> c \<le> c' \<Longrightarrow> paced cfg ip c' ts d'"
  by (rule paced_quiet [of cfg ip c ts d c' d']) (simp_all add: pace_part_def sleeping_def)

lemma owners_cong: "burstPacerByIP d' = burstPacerByIP d \<and> releases d' = releases d \<Longrightarrow> owners d \<Longrightarrow> owners d'"
  by (simp add: owners_def)

lemma owners_part: "pace_part d' = pace_part d \<Longrightarrow> owners d \<Longrightarrow> owners d'"
  by (auto simp: pace_part_def intro: owners_cong)

text \<open>A packet in shape mode either is shaped or changes none of these fields.\<close>

lemma shape_packet_cases:
  assumes "handler cfg wl a e d = Some d'" "Action cfg = ''shape''" "Packet cfg = ''syn''"
  obtains (shaped) x pid info where "matched_client cfg (LPacket a e) = Some x" "\<not> skip_mark_matches cfg (attr_Mark a)"
      "Whitelist_Contains wl x = Some False" "d' = handle_shape cfg pid (attr_Mark a) x info (now_main e) d"
  | (other) "pace_part d' = pace_part d" "pass_time cfg wl ip (d, LPacket a e, d') = None"
proof (cases "\<exists>x. matched_client cfg (LPacket a e) = Some x \<and> \<not> skip_mark_matches cfg (attr_Mark a) \<and> Whitelist_Contains wl x = Some False")
  case True
  then show thesis
    using assms shaped by (auto simp: handler_def matched_client_def handle_matched_def split: option.splits)
next
  case False
  have "pace_part d' = pace_part d"
    using assms False by (auto simp: handler_def matched_client_def handle_matched_def pace_part_def effect_defs
        split: option.splits if_splits bind_splits)
  moreover have "pass_time cfg wl ip (d, LPacket a e, d') = None" using False by (auto simp: pass_time_def)
  ultimately show thesis by (rule other)
qed

lemma paced_wake:
  assumes p: "paced cfg ip c ts d" and now: "c \<le> now" "0 < now"
    and r: "releases d = us @ r # vs" "rt_pc r = R_Sleep" "rt_ip r = ip" "rt_started r + rt_delay r \<le> now"
    and d': "d' = (set_pacer (rt_pacer r) \<lparr>LastRelease = now, pacer_LastSeen = now, Pending = False\<rparr> d)
      \<lparr>releases := us @ r\<lparr>rt_pc := R_DeleteFlow\<rparr> # vs\<rparr>"
  shows "gap cfg now ts \<and> paced cfg ip now (ts @ [now]) d'"
proof -
  have sl: "sleeping ip d = sleeping ip (d\<lparr>releases := us\<rparr>) @ r # sleeping ip (d\<lparr>releases := vs\<rparr>)"
    using r by (simp add: sleeping_def)
  then have "sleeping ip d \<noteq> []" by simp
  then obtain a where a: "burstPacerByIP d ip = Some a" "sleeping ip d = [r]" "rt_pacer r = a"
      "rt_started r + rt_delay r = last ts + BurstInterval cfg" and nc: "\<not> condemned ip d"
    and sw: "case shapeSweep d of None \<Rightarrow> True | Some s \<Rightarrow> sweep_now s \<le> c"
    using p sl by (cases "burstPacerByIP d ip") (auto simp: paced_def append_eq_Cons_conv)
  have "sleeping ip d' = []" using a(2) sl by (auto simp: d' sleeping_def Cons_eq_append_conv)
  moreover have "shapeSweep d' = shapeSweep d" "burstPacerByIP d' ip = Some a"
    "pacers d' a = \<lparr>LastRelease = now, pacer_LastSeen = now, Pending = False\<rparr>"
    using a by (simp_all add: d' set_pacer_def)
  ultimately show ?thesis
    using a(4) r(4) nc sw now by (auto simp: paced_def gap_def condemned_def split: option.splits)
qed

lemma paced_release:
  assumes p: "paced cfg ip c ts d" and own: "owners d" and now: "c \<le> now" "0 < now" and s: "release_step cfg i now d = Some d'"
  shows "case pass_time cfg wl ip (d, LRelease i now, d') of
      None \<Rightarrow> paced cfg ip now ts d' | Some t \<Rightarrow> gap cfg t ts \<and> paced cfg ip now (ts @ [t]) d'"
  using s
proof (cases rule: release_cases)
  case (1 us r vs)
  have pt: "pass_time cfg wl ip (d, LRelease i now, d') = (if rt_pc r = R_Sleep \<and> rt_ip r = ip then Some now else None)"
    using 1(1,3) by (auto simp: pass_time_def)
  show ?thesis
  proof (cases "rt_pc r = R_Sleep \<and> rt_ip r = ip")
    case True
    then show ?thesis
      using paced_wake [OF p now 1(1)] 1(2) pt by auto
  next
    case False
    have "burstPacerByIP d' = burstPacerByIP d" "shapeSweep d' = shapeSweep d" "sleeping ip d' = sleeping ip d"
      using 1(1,2) False by (auto simp: sleeping_def effect_defs)
    moreover have "pacers d' a = pacers d a" if "burstPacerByIP d ip = Some a" for a
    proof -
      have "rt_pc r = R_Sleep \<Longrightarrow> a \<noteq> rt_pacer r" using own that False 1(1) by (auto simp: owners_def)
      then show ?thesis using 1(2) by (auto simp: effect_defs)
    qed
    ultimately have "paced cfg ip now ts d'" by (intro paced_quiet [OF p now(1)]) auto
    then show ?thesis using False pt by auto
  qed
qed

lemma owners_release: "release_step cfg i now d = Some d' \<Longrightarrow> owners d \<Longrightarrow> owners d'"
  by (erule release_cases) (auto simp: owners_def effect_defs split: if_splits)

lemma paced_sweep:
  assumes p: "paced cfg ip c ts d" and s: "shapeCleanup_step cfg d = Some d'" and B: "BurstInterval cfg \<le> CleanupAfter cfg"
    "0 < BurstInterval cfg"
  shows "paced cfg ip c ts d'"
proof -
  obtain w where w: "shapeSweep d = Some w" using s by (auto simp: shapeCleanup_step_def split: option.splits)
  show ?thesis
  proof (cases "sweep_stale w")
    case (Some x)
    then have d': "d' = d\<lparr>burstPacerByIP := (burstPacerByIP d)(x := None),
        shapeSweep := Some (w\<lparr>sweep_removed := sweep_removed w + 1, sweep_stale := None\<rparr>)\<rparr>"
      using s w by (simp add: shapeCleanup_step_def)
    show ?thesis
      using p w Some by (auto simp: d' paced_def condemned_def sleeping_def split: option.splits)
  next
    case None
    show ?thesis
    proof (cases "\<exists>rest a. sweep_todo w = ip # rest \<and> burstPacerByIP d ip = Some a \<and> pacer_stale cfg (sweep_now w) (pacers d a)")
      case True
      then obtain rest a where t: "sweep_todo w = ip # rest" "burstPacerByIP d ip = Some a" "pacer_stale cfg (sweep_now w) (pacers d a)"
        by blast
      have d': "d' = d\<lparr>shapeSweep := Some (w\<lparr>sweep_todo := rest, sweep_stale := Some ip\<rparr>)\<rparr>"
        using s w None t by (simp add: shapeCleanup_step_def)
      have "CleanupAfter cfg \<le> sweep_now w - pacer_LastSeen (pacers d a)"
        using t(3) B time_Sub_lower [of "CleanupAfter cfg" "sweep_now w" "pacer_LastSeen (pacers d a)"] by (simp add: pacer_stale_def)
      then show ?thesis
        using p w t B by (auto simp: d' paced_def condemned_def sleeping_def gap_def pacer_stale_def split: option.splits)
    next
      case False
      have "burstPacerByIP d' = burstPacerByIP d" "pacers d' = pacers d" "releases d' = releases d" "\<not> condemned ip d'"
        "case shapeSweep d' of None \<Rightarrow> True | Some s \<Rightarrow> sweep_now s = sweep_now w"
        using s w None False by (auto simp: shapeCleanup_step_def report_def emit_def condemned_def split: list.splits option.splits if_splits)
      then show ?thesis using p w by (auto simp: paced_def sleeping_def split: option.splits)
    qed
  qed
qed

subsection \<open>All steps\<close>

lemma paced_step:
  assumes p: "paced cfg ip c ts d" and own: "owners d" and inv: "shape_inv cfg d" and ok: "config_ok cfg"
    and shape: "Action cfg = ''shape''" "BurstInterval cfg \<le> CleanupAfter cfg"
    and s: "do_step cfg wl l d = Some d'" and t: "step_timely cfg ip c (d, l, d')"
  shows "case pass_time cfg wl ip (d, l, d') of
      None \<Rightarrow> paced cfg ip (tick_clock c (d, l, d')) ts d'
    | Some t \<Rightarrow> gap cfg t ts \<and> paced cfg ip (tick_clock c (d, l, d')) (ts @ [t]) d'"
proof -
  have B: "0 < BurstInterval cfg" "int64 (BurstInterval cfg)" "Packet cfg = ''syn''"
    using ok shape(1) by (simp_all add: config_ok_def durations_def)
  show ?thesis
  proof (cases l)
    case (LPacket a e)
    have h: "handler cfg wl a e d = Some d'" and now: "c \<le> now_main e" "0 < now_main e" using s t LPacket by simp_all
    show ?thesis
    proof (cases rule: shape_packet_cases [OF h shape(1) B(3), where ip = ip])
      case (1 x pid info)
      show ?thesis
      proof (cases "x = ip")
        case True
        have due: "list_all (\<lambda>r. now_main e < rt_started r + rt_delay r) (sleeping ip d)" "\<not> condemned ip d"
          using t LPacket 1(1) True by simp_all
        show ?thesis
          by (rule paced_packet [OF p inv now due B(1,2)]) (use 1 True LPacket now in \<open>auto simp: pass_time_def max_def\<close>)
      next
        case False
        have "paced cfg ip (now_main e) ts d'"
          using shape_other_client [OF inv False 1(4)] by (intro paced_quiet [OF p now(1)]) auto
        then show ?thesis using LPacket 1(1) False now by (auto simp: pass_time_def max_def)
      qed
    next
      case 2
      then show ?thesis using LPacket now pace_part_quiet [OF 2(1) p] by (auto simp: max_def)
    qed
  next
    case (LRelease i now)
    then have "tick_clock c (d, l, d') = now" using t by (simp add: max_absorb2)
    then show ?thesis using LRelease paced_release [OF p own, of now i d' wl] s t by (auto split: option.splits)
  next
    case LShapeStep
    then show ?thesis using paced_sweep [OF p _ shape(2) B(1)] s by (simp add: pass_time_def)
  next
    case (LShapeTick now keys)
    then show ?thesis
      using p s by (auto simp: pass_time_def shapeCleanup_tick_def paced_def condemned_def gap_def sleeping_def max_def
          split: option.splits if_splits)
  next
    case (LSecondSend i x y)
    then show ?thesis using pace.second_send_part s pace_part_quiet [OF _ p] by (simp add: pass_time_def)
  next
    case (LSeenTick now keys)
    then show ?thesis using pace.seen_tick_part s pace_part_quiet [OF _ p] by (simp add: pass_time_def)
  next
    case LSeenStep
    then show ?thesis using pace.seen_step_part s pace_part_quiet [OF _ p] by (simp add: pass_time_def)
  qed (use s in \<open>auto simp: pass_time_def cleanupLoop_tick_def
        splitPayloadWindowCleanupLoop_tick_def statsLoop_tick_def report_def pace_part_def effect_defs Let_def
        intro!: pace_part_quiet [OF _ p] split: prod.splits\<close>)
qed

lemma owners_step:
  assumes "owners d" "shape_inv cfg d" "do_step cfg wl l d = Some d'"
  shows "owners d'"
proof (cases l)
  case (LPacket a e)
  have "owners d'" if "handle_matched cfg wl pid m ip info e d = Some d'" for pid m ip info
  proof (cases "\<exists>now. d' = handle_shape cfg pid m ip info now d")
    case True
    then show ?thesis using owners_shape [OF assms(1,2)] by auto
  next
    case False
    then have "burstPacerByIP d' = burstPacerByIP d \<and> releases d' = releases d"
      using that handle_drop_shape_part
      by (auto simp: handle_matched_def shape_part_def effect_defs split: if_splits bind_splits)
    then show ?thesis using owners_cong assms(1) by blast
  qed
  then show ?thesis
    using LPacket assms pace.handle_payload_part owners_part [of d' d]
    by (auto simp: handler_def split: option.splits if_splits bind_splits)
next
  case (LRelease i now)
  then show ?thesis using owners_release assms by simp
next
  case (LSecondSend i x y)
  then show ?thesis using pace.second_send_part owners_part assms by fastforce
next
  case (LSeenTick now keys)
  then show ?thesis using pace.seen_tick_part owners_part assms by fastforce
next
  case LSeenStep
  then show ?thesis using pace.seen_step_part owners_part assms by fastforce
qed (use assms in \<open>auto simp: owners_def cleanupLoop_tick_def
        splitPayloadWindowCleanupLoop_tick_def statsLoop_tick_def shapeCleanup_tick_def shapeCleanup_step_def report_def
        effect_defs Let_def split: prod.splits if_splits option.splits list.splits\<close>)

definition spacing_inv :: "Config \<Rightarrow> Whitelist \<Rightarrow> trace \<Rightarrow> daemon \<Rightarrow> bool" where
  "spacing_inv cfg wl tr d \<longleftrightarrow> owners d \<and>
     (Action cfg = ''shape'' \<and> BurstInterval cfg \<le> CleanupAfter cfg \<longrightarrow>
       (\<forall>ip. timely cfg ip tr \<longrightarrow>
          successively (\<lambda>s t. s + BurstInterval cfg \<le> t) (pass_times cfg wl ip tr)
          \<and> paced cfg ip (clock tr) (pass_times cfg wl ip tr) d))"

lemma successively_snoc:
  "successively P (xs @ [x]) \<longleftrightarrow> successively P xs \<and> (xs = [] \<or> P (last xs) x)"
  by (auto simp: successively_append_iff)

lemma spacing_step:
  assumes "spacing_inv cfg wl tr d" "daemon_inv cfg d" "config_ok cfg" "do_step cfg wl l d = Some d'"
  shows "spacing_inv cfg wl (tr @ [(d, l, d')]) d'"
  unfolding spacing_inv_def
proof (intro conjI impI allI)
  have inv: "shape_inv cfg d" "owners d" using assms(1,2) by (simp_all add: daemon_inv_def spacing_inv_def)
  then show "owners d'" using owners_step assms(4) by blast
  fix ip
  assume a: "Action cfg = ''shape'' \<and> BurstInterval cfg \<le> CleanupAfter cfg" and t: "timely cfg ip (tr @ [(d, l, d')])"
  have p: "successively (\<lambda>s t. s + BurstInterval cfg \<le> t) (pass_times cfg wl ip tr)"
    "paced cfg ip (clock tr) (pass_times cfg wl ip tr) d"
    using assms(1) a t by (simp_all add: spacing_inv_def)
  show "successively (\<lambda>s t. s + BurstInterval cfg \<le> t) (pass_times cfg wl ip (tr @ [(d, l, d')]))"
    and "paced cfg ip (clock (tr @ [(d, l, d')])) (pass_times cfg wl ip (tr @ [(d, l, d')])) d'"
    using paced_step [OF p(2) inv(2,1) assms(3) _ _ assms(4)] a t p(1)
    by (auto simp: successively_snoc gap_def split: option.splits)
qed

interpretation spacing: run_invariant spacing_inv
proof unfold_locales
  fix seeded f e cfg wl d
  assume "started seeded f e cfg wl d"
  then obtain q where "startup seeded f e = Inr (cfg, q, wl, d)" by (auto simp: started_def)
  then show "spacing_inv cfg wl [] d"
    by (cases rule: startup_cases)
       (simp add: spacing_inv_def owners_def emit_all_def init_daemon_def paced_def gap_def sleeping_def condemned_def)
qed (rule spacing_step)

text \<open>
  C12. Shape mode paces each client. In every run of a started daemon in shape mode, if idle pacers are
  kept at least as long as the burst interval and the run is timely for the client, then any two
  consecutive SYNs of the client that are let through, at once or after a delay, are at least the
  burst interval apart.
\<close>

theorem shape_spacing:
  assumes "started seeded f e cfg wl d0" "daemon_run cfg wl d0 ls d"
    and "Action cfg = ''shape''" "BurstInterval cfg \<le> CleanupAfter cfg" "timely cfg ip (trace_of cfg wl ls d0)"
  shows "successively (\<lambda>s t. s + BurstInterval cfg \<le> t) (pass_times cfg wl ip (trace_of cfg wl ls d0))"
  using spacing.holds [OF assms(2,1)] assms(3-5) by (simp add: spacing_inv_def)

text \<open>The two SYNs of the example run, and the client they come from.\<close>

lemmas example_handler_eval = handler_def example_syn_def example_syn_parses handle_matched_def skip_mark_matches_def
  handle_shape_def load_pacer_def Let_def shape_accept_def shape_delay_def effect_defs example_env_def burstPacer_zero_def
  time_Sub_def time_IsZero_def wrap64_id int64_def

lemma example_two_syns:
  "\<exists>cfg d0 d1 d2. started example_seeded example_flags example_startup_env cfg \<lparr>nets = []\<rparr> d0
     \<and> (Packet cfg = ''syn'' \<and> Action cfg = ''shape'' \<and> \<not> Verbose cfg \<and> \<not> SkipMarkEnabled cfg
        \<and> BurstInterval cfg = 100000000 \<and> BurstInterval cfg \<le> CleanupAfter cfg)
     \<and> (releases d0 = [] \<and> shapeSweep d0 = None)
     \<and> (handler cfg \<lparr>nets = []\<rparr> (example_syn 1) (example_env 1000000000) d0 = Some d1
        \<and> \<not> was_refused d1 \<and> releases d1 = [] \<and> shapeSweep d1 = None)
     \<and> (handler cfg \<lparr>nets = []\<rparr> (example_syn 2) (example_env 1040000000) d1 = Some d2
        \<and> releases d2 = [example_release] \<and> shapePendingFlows d2 = [rt_key example_release \<mapsto> True]
        \<and> burstPacerByIP d2 = [''192.0.2.10'' \<mapsto> 0]
        \<and> pacers d2 0 = \<lparr>LastRelease = 1000000000, pacer_LastSeen = 1040000000, Pending = True\<rparr>)"
proof -
  obtain cfg d0 where st: "startup example_seeded example_flags example_startup_env = Inr (cfg, 443, \<lparr>nets = []\<rparr>, d0)"
     and c: "Packet cfg = ''syn''" "Action cfg = ''shape''" "\<not> Verbose cfg" "\<not> SkipMarkEnabled cfg"
       "MaxPendingDelays cfg = 0" "BurstInterval cfg = 100000000" "BurstMaxDelay cfg = 1000000000" "CleanupAfter cfg = 600000000000"
     and d: "burstPacerByIP d0 = Map.empty" "shapePendingFlows d0 = Map.empty" "releases d0 = []" "next_pacer d0 = 0"
       "shapeSweep d0 = None"
    using example_startup by blast
  have st': "started example_seeded example_flags example_startup_env cfg \<lparr>nets = []\<rparr> d0"
    using st c(5) fair_rng_sconst [of "- 1"] by (simp add: started_def example_seeded_def)
  obtain d1 where d1: "handler cfg \<lparr>nets = []\<rparr> (example_syn 1) (example_env 1000000000) d0 = Some d1"
      "last (outputs d1) = SetVerdict 1 NfAccept" "releases d1 = []" "shapePendingFlows d1 = Map.empty" "shapeSweep d1 = None"
      "burstPacerByIP d1 = [''192.0.2.10'' \<mapsto> 0]" "pacers d1 0 = \<lparr>LastRelease = 1000000000, pacer_LastSeen = 1000000000, Pending = False\<rparr>"
    using c d by (simp add: example_handler_eval)
  have "\<not> was_refused d1" using d1(2) by (simp add: was_refused_def)
  moreover obtain d2 where "handler cfg \<lparr>nets = []\<rparr> (example_syn 2) (example_env 1040000000) d1 = Some d2"
      "releases d2 = [example_release]" "shapePendingFlows d2 = [rt_key example_release \<mapsto> True]"
      "burstPacerByIP d2 = [''192.0.2.10'' \<mapsto> 0]" "pacers d2 0 = \<lparr>LastRelease = 1000000000, pacer_LastSeen = 1040000000, Pending = True\<rparr>"
    using c d1(3-7) by (simp add: example_handler_eval example_release_def)
  moreover have "BurstInterval cfg \<le> CleanupAfter cfg" using c(6,8) by simp
  ultimately show ?thesis using st' c(1-4,6) d(3,5) d1(1,3,5) by blast
qed

lemma example_syn_matched: "Packet cfg = ''syn'' \<Longrightarrow> matched_client cfg (LPacket (example_syn n) e) = Some ''192.0.2.10''"
  by (simp add: matched_client_def example_syn_def example_syn_parses)

text \<open>The example run, with the delayed SYN woken after its 60 ms: the client passes at 1 s and at 1.1 s.\<close>

lemma example_spaced_run:
  "\<exists>cfg d0 d. started example_seeded example_flags example_startup_env cfg \<lparr>nets = []\<rparr> d0
     \<and> Action cfg = ''shape'' \<and> BurstInterval cfg = 100000000 \<and> BurstInterval cfg \<le> CleanupAfter cfg
     \<and> daemon_run cfg \<lparr>nets = []\<rparr> d0 (example_labels @ [LRelease 0 1100000000]) d
     \<and> timely cfg ''192.0.2.10'' (trace_of cfg \<lparr>nets = []\<rparr> (example_labels @ [LRelease 0 1100000000]) d0)
     \<and> pass_times cfg \<lparr>nets = []\<rparr> ''192.0.2.10'' (trace_of cfg \<lparr>nets = []\<rparr> (example_labels @ [LRelease 0 1100000000]) d0)
         = [1000000000, 1100000000]"
proof -
  obtain cfg d0 d1 d2 where st: "started example_seeded example_flags example_startup_env cfg \<lparr>nets = []\<rparr> d0"
     and c: "Packet cfg = ''syn''" "Action cfg = ''shape''" "\<not> SkipMarkEnabled cfg" "BurstInterval cfg = 100000000"
       "BurstInterval cfg \<le> CleanupAfter cfg"
     and d0: "releases d0 = []" "shapeSweep d0 = None"
     and d1: "handler cfg \<lparr>nets = []\<rparr> (example_syn 1) (example_env 1000000000) d0 = Some d1" "\<not> was_refused d1"
       "releases d1 = []" "shapeSweep d1 = None"
     and d2: "handler cfg \<lparr>nets = []\<rparr> (example_syn 2) (example_env 1040000000) d1 = Some d2" "releases d2 = [example_release]"
    using example_two_syns by blast
  obtain d3 where d3: "release_step cfg 0 1100000000 d2 = Some d3"
    using d2(2) by (simp add: release_step_def Let_def example_release_def)
  let ?ls = "example_labels @ [LRelease 0 1100000000]"
  have tr: "trace_of cfg \<lparr>nets = []\<rparr> ?ls d0 = [(d0, LPacket (example_syn 1) (example_env 1000000000), d1),
      (d1, LPacket (example_syn 2) (example_env 1040000000), d2), (d2, LRelease 0 1100000000, d3)]"
    and run: "daemon_run cfg \<lparr>nets = []\<rparr> d0 ?ls d3"
    using d1(1) d2(1) d3 by (simp_all add: example_labels_def daemon_run_iff)
  have "timely cfg ''192.0.2.10'' (trace_of cfg \<lparr>nets = []\<rparr> ?ls d0)"
    using d0 d1(3,4) unfolding tr by (simp add: timely_def example_env_def sleeping_def condemned_def)
  moreover have "pass_times cfg \<lparr>nets = []\<rparr> ''192.0.2.10'' (trace_of cfg \<lparr>nets = []\<rparr> ?ls d0) = [1000000000, 1100000000]"
    using c(1,3) d0(1) d1(2,3) d2(2) unfolding tr
    by (simp add: pass_times_def pass_time_def List.map_filter_def skip_mark_matches_def example_env_def example_release_def
        example_syn_matched)
  ultimately show ?thesis using st run c(2,4,5) by blast
qed

theorem shape_spacing_witness:
  "\<exists>cfg d0 d ls. daemon_run cfg \<lparr>nets = []\<rparr> d0 ls d
     \<and> pass_times cfg \<lparr>nets = []\<rparr> ''192.0.2.10'' (trace_of cfg \<lparr>nets = []\<rparr> ls d0) = [1000000000, 1100000000]
     \<and> successively (\<lambda>s t. s + BurstInterval cfg \<le> t)
         (pass_times cfg \<lparr>nets = []\<rparr> ''192.0.2.10'' (trace_of cfg \<lparr>nets = []\<rparr> ls d0))"
proof -
  obtain cfg d0 d ls where r: "started example_seeded example_flags example_startup_env cfg \<lparr>nets = []\<rparr> d0"
      "daemon_run cfg \<lparr>nets = []\<rparr> d0 ls d" "Action cfg = ''shape''" "BurstInterval cfg \<le> CleanupAfter cfg"
      "timely cfg ''192.0.2.10'' (trace_of cfg \<lparr>nets = []\<rparr> ls d0)"
      "pass_times cfg \<lparr>nets = []\<rparr> ''192.0.2.10'' (trace_of cfg \<lparr>nets = []\<rparr> ls d0) = [1000000000, 1100000000]"
    using example_spaced_run by blast
  then show ?thesis using shape_spacing [OF r(1-5)] by blast
qed

end
