(* ===== verification/Progress.thy ===== *)
theory Progress
  imports Run_Invariants
begin

text \<open>
  The activities that run beside the handler come to an end, however the steps of the daemon
  interleave: a release goroutine is never blocked once its delay is over and settles its packet, and every
  sweep of the pacers ends.
\<close>

subsection \<open>Release goroutines\<close>

text \<open>The program counter of a release goroutine, ordered along its code.\<close>

fun pc_rank :: "release_pc \<Rightarrow> nat" where
  "pc_rank R_Sleep = 0"
| "pc_rank R_DeleteFlow = 1"
| "pc_rank R_Count = 2"
| "pc_rank R_Verdict = 3"
| "pc_rank R_Exit = 4"

fun next_pc :: "release_pc \<Rightarrow> release_pc" where
  "next_pc R_Sleep = R_DeleteFlow"
| "next_pc R_DeleteFlow = R_Count"
| "next_pc R_Count = R_Verdict"
| "next_pc R_Verdict = R_Exit"
| "next_pc R_Exit = R_Exit"

lemma pc_rank_next: "pc \<noteq> R_Exit \<Longrightarrow> pc_rank (next_pc pc) = Suc (pc_rank pc)"
  by (cases pc) auto

instantiation release_pc :: linorder
begin

definition less_eq_release_pc :: "release_pc \<Rightarrow> release_pc \<Rightarrow> bool" where
  "p \<le> q \<longleftrightarrow> pc_rank p \<le> pc_rank q"

definition less_release_pc :: "release_pc \<Rightarrow> release_pc \<Rightarrow> bool" where
  "p < q \<longleftrightarrow> pc_rank p < pc_rank q"

instance
proof
  fix p q :: release_pc
  show "p \<le> q \<Longrightarrow> q \<le> p \<Longrightarrow> p = q"
    by (cases p; cases q) (simp_all add: less_eq_release_pc_def)
qed (auto simp: less_eq_release_pc_def less_release_pc_def)

end

text \<open>
  A goroutine is known by its place in \<open>releases\<close>, which changes when another one exits.
  \<open>follow\<close> keeps track of it along a run: the number of steps it took itself and its place at the
  end, \<open>None\<close> if it has exited.
\<close>

definition own_step :: "nat \<Rightarrow> label \<Rightarrow> bool" where
  "own_step i l \<longleftrightarrow> (case l of LRelease j now \<Rightarrow> j = i | _ \<Rightarrow> False)"

definition moved :: "daemon \<Rightarrow> label \<Rightarrow> nat \<Rightarrow> nat option" where
  "moved d l i =
     (case l of
        LRelease j now \<Rightarrow>
          if rt_pc (releases d ! j) = R_Exit then (if i = j then None else if j < i then Some (i - 1) else Some i) else Some i
      | _ \<Rightarrow> Some i)"

fun follow :: "Config \<Rightarrow> Whitelist \<Rightarrow> label list \<Rightarrow> daemon \<Rightarrow> nat \<Rightarrow> nat \<times> nat option" where
  "follow cfg wl [] d i = (0, Some i)"
| "follow cfg wl (l # ls) d i =
     (case (do_step cfg wl l d, moved d l i) of
        (Some d', Some i') \<Rightarrow> (case follow cfg wl ls d' i' of (n, j) \<Rightarrow> (n + (if own_step i l then 1 else 0), j))
      | (Some d', None) \<Rightarrow> (1, None)
      | (None, _) \<Rightarrow> (0, Some i))"

text \<open>Outputs are only ever appended to, and goroutines too except when one exits.\<close>

lemma step_grows:
  assumes "do_step cfg wl l d = Some d'" "daemon_inv cfg d" "list_all net_ok (nets wl)"
  shows "\<exists>os. outputs d' = outputs d @ os" "(\<And>i now. l \<noteq> LRelease i now) \<Longrightarrow> \<exists>rs. releases d' = releases d @ rs"
proof -
  consider (packet) a e where "l = LPacket a e" | (release) i now where "l = LRelease i now"
    | (other) "\<And>a e. l \<noteq> LPacket a e" "\<And>i now. l \<noteq> LRelease i now" by blast
  then have "(\<exists>os. outputs d' = outputs d @ os) \<and> ((\<forall>i now. l \<noteq> LRelease i now) \<longrightarrow> (\<exists>rs. releases d' = releases d @ rs))"
  proof cases
    case (packet a e)
    obtain d'' where "handler cfg wl a e d = Some d''"
        "adds (case attr_PacketID a of None \<Rightarrow> [] | Some pid \<Rightarrow> [pid]) d d''"
      using handler_ok [of d wl cfg a e] assms(2,3) by (auto simp: daemon_inv_def table_inv_def)
    then show ?thesis using assms(1) packet by (auto simp: adds_def)
  next
    case (release i now)
    then have "release_step cfg i now d = Some d'" using assms(1) by simp
    then show ?thesis using release by (cases rule: release_cases) (auto simp: effect_defs)
  next
    case other
    have "releases d' = releases d" using housekeeping_frame [OF assms(1) other] by (simp add: core_part_def)
    moreover have "\<exists>os. outputs d' = outputs d @ os"
      using assms(1) other by (cases l) (auto simp: second_send_step_def raw_send_def cleanupLoop_tick_def
        splitSeenCleanupLoop_tick_def splitSeenCleanupLoop_step_def splitPayloadWindowCleanupLoop_tick_def statsLoop_tick_def
        shapeCleanup_tick_def shapeCleanup_step_def report_def effect_defs Let_def
        split: if_splits option.splits list.splits prod.splits bind_splits)
    ultimately show ?thesis by simp
  qed
  then show "\<exists>os. outputs d' = outputs d @ os" "(\<And>i now. l \<noteq> LRelease i now) \<Longrightarrow> \<exists>rs. releases d' = releases d @ rs"
    by blast+
qed

text \<open>One step, seen from a goroutine: it advances by its own steps and is left alone by all others.\<close>

lemma follow_step:
  assumes s: "do_step cfg wl l d = Some d'" and inv: "daemon_inv cfg d" "list_all net_ok (nets wl)" and i: "i < length (releases d)"
  shows "case moved d l i of
      None \<Rightarrow> own_step i l \<and> rt_pc (releases d ! i) = R_Exit
    | Some k \<Rightarrow> k < length (releases d') \<and>
        (if own_step i l
         then rt_pc (releases d ! i) \<noteq> R_Exit \<and> releases d' ! k = (releases d ! i)\<lparr>rt_pc := next_pc (rt_pc (releases d ! i))\<rparr>
            \<and> (rt_pc (releases d ! i) = R_Verdict \<longrightarrow> outputs d' = outputs d @ [SetVerdict (rt_packetID (releases d ! i)) NfAccept])
         else releases d' ! k = releases d ! i)"
proof (cases "\<exists>j now. l = LRelease j now")
  case True
  then obtain j now where l: "l = LRelease j now" by blast
  then have "release_step cfg j now d = Some d'" using s by simp
  then show ?thesis
  proof (cases rule: release_cases)
    case (1 us r vs)
    have at: "releases d ! j = r" using 1(1,3) by auto
    from 1(2) show ?thesis
      using 1(1,3) at i l by (auto simp: moved_def own_step_def effect_defs nth_append nth_Cons' split: if_splits)
  qed
next
  case False
  then obtain rs where "releases d' = releases d @ rs" using step_grows(2) [OF s inv] by blast
  moreover have "moved d l i = Some i" "\<not> own_step i l" using False by (auto simp: moved_def own_step_def split: label.splits)
  ultimately show ?thesis using i by (simp add: nth_append)
qed


lemma run_grows:
  assumes "run_labels cfg wl ls d = Some d'" "daemon_inv cfg d" "list_all net_ok (nets wl)" "MaxPendingDelays cfg \<le> MaxInt64"
  shows "\<exists>os. outputs d' = outputs d @ os"
  using assms
proof (induction ls arbitrary: d)
  case (Cons l ls)
  then obtain d1 where d1: "do_step cfg wl l d = Some d1" "run_labels cfg wl ls d1 = Some d'" by (auto split: bind_splits)
  then have "daemon_inv cfg d1" using step_inv Cons.prems(2,4) by blast
  then show ?case using Cons.IH [OF d1(2)] step_grows(1) [OF d1(1)] Cons.prems(2-4) by fastforce
qed simp

lemma pc_rank_Verdict: "pc_rank pc = 3 \<longleftrightarrow> pc = R_Verdict" "pc_rank pc \<le> 4"
  by (cases pc; simp)+

text \<open>A whole run, seen from a goroutine.\<close>

definition followed :: "release_task \<Rightarrow> nat \<Rightarrow> nat option \<Rightarrow> daemon \<Rightarrow> effect list \<Rightarrow> bool" where
  "followed r n j d' os \<longleftrightarrow>
     (pc_rank (rt_pc r) \<le> 3 \<and> 4 \<le> pc_rank (rt_pc r) + n \<longrightarrow> SetVerdict (rt_packetID r) NfAccept \<in> set os)
   \<and> (case j of
        None \<Rightarrow> pc_rank (rt_pc r) + n = 5
      | Some k \<Rightarrow> k < length (releases d') \<and> (\<exists>pc. releases d' ! k = r\<lparr>rt_pc := pc\<rparr> \<and> pc_rank (rt_pc r) + n = pc_rank pc))"

lemma followed_own:
  assumes "followed (r\<lparr>rt_pc := next_pc (rt_pc r)\<rparr>) n j d' os" "rt_pc r \<noteq> R_Exit"
    and "rt_pc r = R_Verdict \<longrightarrow> os1 = [SetVerdict (rt_packetID r) NfAccept]"
  shows "followed r (Suc n) j d' (os1 @ os)"
proof -
  have "pc_rank (next_pc (rt_pc r)) = Suc (pc_rank (rt_pc r))" using pc_rank_next assms(2) by blast
  moreover have "rt_pc r = R_Verdict \<or> pc_rank (rt_pc r) \<le> 2" using assms(2) by (cases "rt_pc r") auto
  ultimately show ?thesis
    using assms(1,3) by (auto simp: followed_def split: option.splits)
qed

lemma follow_run:
  assumes "run_labels cfg wl ls d = Some d'" "daemon_inv cfg d" "list_all net_ok (nets wl)" "MaxPendingDelays cfg \<le> MaxInt64"
    and "i < length (releases d)" "follow cfg wl ls d i = (n, j)"
  shows "\<exists>os. outputs d' = outputs d @ os \<and> followed (releases d ! i) n j d' os"
  using assms
proof (induction ls arbitrary: d i n)
  case Nil
  have "releases d ! i = (releases d ! i)\<lparr>rt_pc := rt_pc (releases d ! i)\<rparr>" by simp
  then have "\<exists>pc. releases d ! i = (releases d ! i)\<lparr>rt_pc := pc\<rparr> \<and> pc_rank (rt_pc (releases d ! i)) = pc_rank pc" by blast
  then show ?case using Nil by (auto simp: followed_def)
next
  case (Cons l ls)
  obtain d1 where d1: "do_step cfg wl l d = Some d1" "run_labels cfg wl ls d1 = Some d'"
    using Cons.prems(1) by (auto split: bind_splits)
  have inv: "daemon_inv cfg d1" using step_inv [OF d1(1)] Cons.prems(2,4) by blast
  obtain os1 where o1: "outputs d1 = outputs d @ os1" using step_grows(1) [OF d1(1)] Cons.prems(2,3) by blast
  note fs = follow_step [OF d1(1) Cons.prems(2,3,5)]
  show ?case
  proof (cases "moved d l i")
    case None
    obtain os2 where "outputs d' = outputs d1 @ os2" using run_grows [OF d1(2) inv] Cons.prems(3,4) by blast
    then show ?thesis using None fs Cons.prems(6) d1(1) o1 by (auto simp: followed_def)
  next
    case (Some k)
    obtain m where m: "follow cfg wl ls d1 k = (m, j)" "n = m + (if own_step i l then 1 else 0)"
      using Cons.prems(6) d1(1) Some by (auto split: prod.splits)
    have k: "k < length (releases d1)" using fs Some by simp
    obtain os where os: "outputs d' = outputs d1 @ os" "followed (releases d1 ! k) m j d' os"
      using Cons.IH [OF d1(2) inv Cons.prems(3,4) k m(1)] by blast
    have "followed (releases d ! i) n j d' (os1 @ os)"
    proof (cases "own_step i l")
      case True
      then show ?thesis using fs Some m(2) os(2) o1 followed_own [of "releases d ! i" m j d' os os1] by auto
    next
      case False
      then show ?thesis using fs Some m(2) os(2) by (auto simp: followed_def)
    qed
    then show ?thesis using os(1) o1 by auto
  qed
qed

text \<open>Once its delay is over, a goroutine can take its next step in every state.\<close>

lemma release_enabled:
  assumes "k < length (releases d)" "rt_started (releases d ! k) + rt_delay (releases d ! k) \<le> now"
  shows "\<exists>d'. release_step cfg k now d = Some d'"
  using assms by (cases "rt_pc (releases d ! k)") (simp_all add: release_step_def Let_def)

text \<open>
  C4. Every delayed packet is released, whatever the rest of the daemon does. Take any state a
  started daemon reaches in which a goroutine has just been given a packet to delay, and any run
  from there, with the steps of the handler, of other goroutines and of the loops in any order.
  As long as the goroutine has not exited, its next step can be taken at every time after the delay,
  so that nothing blocks it; by its fourth step the packet has got its accept verdict; and
  it exits with its fifth step, no earlier and no later.
\<close>

theorem delayed_packet_released:
  assumes "started seeded f e cfg wl d0" "daemon_run cfg wl d0 ls0 d" "daemon_run cfg wl d ls d'"
    and "i < length (releases d)" "r = releases d ! i" "rt_pc r = R_Sleep" "follow cfg wl ls d i = (n, j)"
  shows "(\<exists>os. outputs d' = outputs d @ os \<and> (4 \<le> n \<longrightarrow> SetVerdict (rt_packetID r) NfAccept \<in> set os))
     \<and> n \<le> 5 \<and> (j = None \<longleftrightarrow> n = 5)
     \<and> (\<forall>k now. j = Some k \<and> rt_started r + rt_delay r \<le> now \<longrightarrow> (\<exists>d''. release_step cfg k now d' = Some d''))"
proof -
  have inv: "daemon_inv cfg d" "list_all net_ok (nets wl)" "MaxPendingDelays cfg \<le> MaxInt64"
    using started_run_inv [OF assms(1,2)] assms(1) by (auto simp: started_def)
  obtain os where os: "outputs d' = outputs d @ os" "followed r n j d' os"
    using follow_run [OF _ inv assms(4,7)] assms(3,5) by (auto simp: daemon_run_iff)
  have "\<exists>d''. release_step cfg k now d' = Some d''" if "j = Some k" "rt_started r + rt_delay r \<le> now" for k now
    using os(2) that by (intro release_enabled) (auto simp: followed_def)
  moreover have "n \<le> 5 \<and> (j = None \<longleftrightarrow> n = 5)"
  proof (cases j)
    case (Some k)
    then obtain pc where "n = pc_rank pc" using os(2) assms(6) by (auto simp: followed_def)
    then show ?thesis using Some pc_rank_Verdict(2) [of pc] by simp
  qed (use os(2) assms(6) in \<open>simp add: followed_def\<close>)
  ultimately show ?thesis using os assms(6) by (auto simp: followed_def)
qed

text \<open>The delayed SYN of the example takes its first four steps, with the statistics loop in between.\<close>

lemma releases_stats [simp]: "releases (statsLoop_tick cfg d) = releases d"
  by (simp add: statsLoop_tick_def emit_all_def split_beta)

theorem delayed_packet_released_witness:
  "\<exists>cfg d d' os. daemon_run cfg \<lparr>nets = []\<rparr> d
       [LRelease 0 1100000000, LStats, LRelease 0 1100000001, LRelease 0 1100000002, LRelease 0 1100000003] d'
     \<and> releases d = [example_release] \<and> outputs d' = outputs d @ os \<and> SetVerdict 2 NfAccept \<in> set os"
proof -
  obtain cfg d0 d where r: "started example_seeded example_flags example_startup_env cfg \<lparr>nets = []\<rparr> d0"
      "daemon_run cfg \<lparr>nets = []\<rparr> d0 example_labels d" "releases d = [example_release]"
    using example_started by blast
  let ?ls = "[LRelease 0 1100000000, LStats, LRelease 0 1100000001, LRelease 0 1100000002, LRelease 0 1100000003]"
  have f: "(\<exists>d'. daemon_run cfg \<lparr>nets = []\<rparr> d ?ls d') \<and> follow cfg \<lparr>nets = []\<rparr> ?ls d 0 = (4, Some 0)"
    using r(3) by (simp add: daemon_run_iff release_step_def Let_def example_release_def effect_defs moved_def own_step_def)
  then obtain d' where run: "daemon_run cfg \<lparr>nets = []\<rparr> d ?ls d'" by blast
  have "\<exists>os. outputs d' = outputs d @ os \<and> (4 \<le> (4 :: nat) \<longrightarrow> SetVerdict (rt_packetID example_release) NfAccept \<in> set os)"
    using delayed_packet_released [OF r(1,2) run, of 0 example_release 4 "Some 0"] r(3) f by (auto simp: example_release_def)
  then show ?thesis using run r(3) by (auto simp: example_release_def)
qed

subsection \<open>Sweeps\<close>

definition stale_key :: "Config \<Rightarrow> time \<Rightarrow> daemon \<Rightarrow> string \<Rightarrow> bool" where
  "stale_key cfg now d ip \<longleftrightarrow> (case burstPacerByIP d ip of None \<Rightarrow> False | Some a \<Rightarrow> pacer_stale cfg now (pacers d a))"

text \<open>A visit of one key takes one step, or two if the pacer is stale.\<close>

lemma sweep_visit:
  assumes "shapeSweep d = Some s" "sweep_stale s = None" "sweep_todo s = ip # rest" "st = stale_key cfg (sweep_now s) d ip"
  shows "run_labels cfg wl (replicate (if st then 2 else 1) LShapeStep) d =
     Some (d\<lparr>burstPacerByIP := (burstPacerByIP d)(ip := if st then None else burstPacerByIP d ip),
       shapeSweep := Some (s\<lparr>sweep_todo := rest, sweep_removed := sweep_removed s + (if st then 1 else 0)\<rparr>)\<rparr>)"
  using assms by (auto simp: stale_key_def shapeCleanup_step_def numeral_2_eq_2 split: option.splits)

definition swept :: "Config \<Rightarrow> time \<Rightarrow> string list \<Rightarrow> nat \<Rightarrow> daemon \<Rightarrow> daemon" where
  "swept cfg now keys removed d =
     (let gone = filter (stale_key cfg now d) keys
      in d\<lparr>shapeSweep := None, burstPacerByIP := (\<lambda>ip. if ip \<in> set gone then None else burstPacerByIP d ip),
           outputs := outputs d @ (if removed + length gone = 0 then [] else [Printed ''shape cleanup removed''])\<rparr>)"

lemma sweep_ends:
  assumes "shapeSweep d = Some s" "sweep_stale s = None" "distinct (sweep_todo s)"
  shows "\<exists>n \<le> 2 * length (sweep_todo s) + 1.
     run_labels cfg wl (replicate n LShapeStep) d = Some (swept cfg (sweep_now s) (sweep_todo s) (sweep_removed s) d)"
  using assms
proof (induction "sweep_todo s" arbitrary: d s)
  case Nil
  then have "run_labels cfg wl (replicate 1 LShapeStep) d = Some (swept cfg (sweep_now s) (sweep_todo s) (sweep_removed s) d)"
    by (auto simp: shapeCleanup_step_def report_def emit_def swept_def)
  then show ?case by (intro exI [of _ 1]) simp
next
  case (Cons ip rest)
  note todo = Cons.hyps(2) [symmetric]
  define st where "st = stale_key cfg (sweep_now s) d ip"
  define k where "k = (if st then 2 else 1 :: nat)"
  define s1 where "s1 = s\<lparr>sweep_todo := rest, sweep_removed := sweep_removed s + (if st then 1 else 0)\<rparr>"
  define d1 where "d1 = d\<lparr>burstPacerByIP := (burstPacerByIP d)(ip := if st then None else burstPacerByIP d ip), shapeSweep := Some s1\<rparr>"
  have visit: "run_labels cfg wl (replicate k LShapeStep) d = Some d1"
    unfolding k_def d1_def s1_def using Cons.prems(1,2) todo st_def by (rule sweep_visit)
  have ip: "ip \<notin> set rest" "distinct rest" using Cons.prems(3) todo by simp_all
  obtain n where n: "n \<le> 2 * length rest + 1"
      "run_labels cfg wl (replicate n LShapeStep) d1 = Some (swept cfg (sweep_now s) rest (sweep_removed s1) d1)"
    using Cons.hyps(1) [of s1 d1] Cons.prems ip by (auto simp: s1_def d1_def)
  have "stale_key cfg (sweep_now s) d1 x = stale_key cfg (sweep_now s) d x" if "x \<in> set rest" for x
    using that ip(1) by (auto simp: stale_key_def d1_def split: option.splits)
  then have keys: "filter (stale_key cfg (sweep_now s) d1) rest = filter (stale_key cfg (sweep_now s) d) rest"
    by (intro filter_cong) auto
  have "swept cfg (sweep_now s) rest (sweep_removed s1) d1 = swept cfg (sweep_now s) (sweep_todo s) (sweep_removed s) d"
    unfolding swept_def Let_def keys todo
    by (rule daemon.equality) (auto simp: st_def fun_eq_iff d1_def s1_def)
  then have "run_labels cfg wl (replicate (k + n) LShapeStep) d = Some (swept cfg (sweep_now s) (sweep_todo s) (sweep_removed s) d)"
    using visit n(2) by (simp add: replicate_add run_labels_append)
  then show ?case using n(1) todo by (intro exI [of _ "k + n"]) (simp add: k_def)
qed

lemma sweep_undisturbed:
  assumes "shapeSweep d = None" "distinct keys" "dom (burstPacerByIP d) \<subseteq> set keys"
  shows "\<exists>n d'. n \<le> 2 * length keys + 1 \<and> run_labels cfg wl (LShapeTick now keys # replicate n LShapeStep) d = Some d'
     \<and> shapeSweep d' = None \<and> pacers d' = pacers d
     \<and> (\<forall>ip a. burstPacerByIP d' ip = Some a \<longleftrightarrow> burstPacerByIP d ip = Some a \<and> \<not> pacer_stale cfg now (pacers d a))
     \<and> outputs d' = outputs d @ (if burstPacerByIP d' = burstPacerByIP d then [] else [Printed ''shape cleanup removed''])"
proof -
  define d1 where "d1 = d\<lparr>shapeSweep := Some \<lparr>sweep_now = now, sweep_todo = keys, sweep_removed = 0, sweep_stale = None\<rparr>\<rparr>"
  obtain n where n: "n \<le> 2 * length keys + 1" "run_labels cfg wl (replicate n LShapeStep) d1 = Some (swept cfg now keys 0 d1)"
    using sweep_ends [of d1 _ cfg wl] assms(2) by (auto simp: d1_def)
  let ?d' = "swept cfg now keys 0 d1"
  have run: "run_labels cfg wl (LShapeTick now keys # replicate n LShapeStep) d = Some ?d'"
    using n(2) assms(1,2) by (simp add: shapeCleanup_tick_def d1_def)
  have left: "burstPacerByIP ?d' ip = Some a \<longleftrightarrow> burstPacerByIP d ip = Some a \<and> \<not> pacer_stale cfg now (pacers d a)" for ip a
    using assms(3) by (auto simp: swept_def Let_def d1_def stale_key_def split: option.splits)
  have "burstPacerByIP ?d' = burstPacerByIP d \<longleftrightarrow> filter (stale_key cfg now d1) keys = []"
  proof
    assume eq: "burstPacerByIP ?d' = burstPacerByIP d"
    have "\<not> stale_key cfg now d1 ip" for ip
      using left [of ip] unfolding eq by (auto simp: stale_key_def d1_def split: option.splits)
    then show "filter (stale_key cfg now d1) keys = []" by simp
  next
    assume "filter (stale_key cfg now d1) keys = []"
    then show "burstPacerByIP ?d' = burstPacerByIP d" by (auto simp: swept_def d1_def filter_empty_conv)
  qed
  then have "outputs ?d' = outputs d @ (if burstPacerByIP ?d' = burstPacerByIP d then [] else [Printed ''shape cleanup removed''])"
    by (simp add: swept_def Let_def d1_def)
  moreover have "shapeSweep ?d' = None" "pacers ?d' = pacers d" by (simp_all add: swept_def Let_def d1_def)
  ultimately show ?thesis using n(1) run left by blast
qed

text \<open>How many steps a sweep may still take.\<close>

definition sweep_left :: "daemon \<Rightarrow> nat" where
  "sweep_left d = (case shapeSweep d of None \<Rightarrow> 0
     | Some s \<Rightarrow> 2 * length (sweep_todo s) + (if sweep_stale s = None then 0 else 1) + 1)"

definition is_sweep :: "label \<Rightarrow> bool" where
  "is_sweep l \<longleftrightarrow> (case l of LShapeStep \<Rightarrow> True | _ \<Rightarrow> False)"

definition is_tick :: "label \<Rightarrow> bool" where
  "is_tick l \<longleftrightarrow> (case l of LShapeTick now keys \<Rightarrow> True | _ \<Rightarrow> False)"

lemma sweep_decreases: "shapeCleanup_step cfg d = Some d' \<Longrightarrow> sweep_left d' < sweep_left d"
  by (auto simp: shapeCleanup_step_def sweep_left_def report_def emit_def split: option.splits list.splits if_splits)

interpretation sweep: split_frame shapeSweep
  by unfold_locales simp_all

lemma shapeSweep_handler: "handler cfg wl a e d = Some d' \<Longrightarrow> shapeSweep d' = shapeSweep d"
proof -
  have "shapeSweep (handle_shape cfg pid m ip info now d) = shapeSweep d" for pid m ip info now
    by (auto simp: handle_shape_def Let_def split_beta load_pacer_def shape_drop_def shape_accept_def shape_delay_def
        effect_defs split: option.split)
  then show "handler cfg wl a e d = Some d' \<Longrightarrow> shapeSweep d' = shapeSweep d"
    by (auto simp: handler_def handle_matched_def handle_drop_def Let_def split_beta bump_def remember_def dest: sweep.handle_payload_part
        split: option.splits if_splits bind_splits)
qed

lemma sweep_left_step:
  assumes "do_step cfg wl l d = Some d'" "\<not> is_tick l"
  shows "sweep_left d' + (if is_sweep l then 1 else 0) \<le> sweep_left d"
proof (cases l)
  case (LPacket a e)
  then show ?thesis using assms(1) shapeSweep_handler by (simp add: sweep_left_def is_sweep_def)
next
  case (LRelease i now)
  then have "release_step cfg i now d = Some d'" using assms(1) by simp
  then show ?thesis using LRelease by (cases rule: release_cases) (auto simp: sweep_left_def is_sweep_def effect_defs)
next
  case LShapeStep
  then show ?thesis using assms(1) sweep_decreases [of cfg d d'] by (simp add: is_sweep_def)
qed (use assms sweep.split_loop_parts in \<open>auto simp: is_tick_def is_sweep_def sweep_left_def cleanupLoop_tick_def
  splitPayloadWindowCleanupLoop_tick_def statsLoop_tick_def report_def effect_defs split_beta\<close>)

lemma sweep_left_run:
  "run_labels cfg wl ls d = Some d' \<Longrightarrow> \<not> list_ex is_tick ls \<Longrightarrow> length (filter is_sweep ls) + sweep_left d' \<le> sweep_left d"
proof (induction ls arbitrary: d)
  case (Cons l ls)
  then obtain d1 where d1: "do_step cfg wl l d = Some d1" "run_labels cfg wl ls d1 = Some d'" by (auto split: bind_splits)
  have "length (filter is_sweep ls) + sweep_left d' \<le> sweep_left d1" using Cons d1(2) by simp
  then show ?case using sweep_left_step [OF d1(1)] Cons.prems(2) by (auto split: if_splits)
qed simp

text \<open>
  C13. A sweep of the idle pacers ends. After the tick that starts it, whatever other steps run in
  between and until the next tick, the sweep takes at most two steps per key and one more, and
  as long as it has not ended its next step can be taken. If no other step runs in between, it removes
  exactly the pacers that are not pending and have been idle for longer than \<open>--cleanup-after\<close> when the tick
  fires, keeps all others, and reports if it removed any.
\<close>

theorem shape_sweep_terminates:
  assumes "shapeSweep d = None" "distinct keys" "dom (burstPacerByIP d) \<subseteq> set keys"
  shows "(\<forall>ls d'. run_labels cfg wl (LShapeTick now keys # ls) d = Some d' \<and> \<not> list_ex is_tick ls \<longrightarrow>
        length (filter is_sweep ls) \<le> 2 * length keys + 1
      \<and> (shapeSweep d' \<noteq> None \<longrightarrow> (\<exists>d''. shapeCleanup_step cfg d' = Some d'')))
   \<and> (\<exists>n d'. run_labels cfg wl (LShapeTick now keys # replicate n LShapeStep) d = Some d'
     \<and> shapeSweep d' = None \<and> pacers d' = pacers d
     \<and> (\<forall>ip a. burstPacerByIP d' ip = Some a \<longleftrightarrow> burstPacerByIP d ip = Some a \<and> \<not> pacer_stale cfg now (pacers d a))
     \<and> outputs d' = outputs d @ (if burstPacerByIP d' = burstPacerByIP d then [] else [Printed ''shape cleanup removed'']))"
proof (intro conjI allI impI)
  fix ls d'
  assume r: "run_labels cfg wl (LShapeTick now keys # ls) d = Some d' \<and> \<not> list_ex is_tick ls"
  then obtain d1 where "shapeCleanup_tick now keys d = Some d1" "run_labels cfg wl ls d1 = Some d'" by (auto split: bind_splits)
  then show "length (filter is_sweep ls) \<le> 2 * length keys + 1"
    using sweep_left_run [of cfg wl ls d1 d'] r assms(1,2) by (auto simp: shapeCleanup_tick_def sweep_left_def)
  show "\<exists>d''. shapeCleanup_step cfg d' = Some d''" if "shapeSweep d' \<noteq> None"
    using that by (auto simp: shapeCleanup_step_def split: option.split list.split)
next
  show "\<exists>n d'. run_labels cfg wl (LShapeTick now keys # replicate n LShapeStep) d = Some d'
     \<and> shapeSweep d' = None \<and> pacers d' = pacers d
     \<and> (\<forall>ip a. burstPacerByIP d' ip = Some a \<longleftrightarrow> burstPacerByIP d ip = Some a \<and> \<not> pacer_stale cfg now (pacers d a))
     \<and> outputs d' = outputs d @ (if burstPacerByIP d' = burstPacerByIP d then [] else [Printed ''shape cleanup removed''])"
    using sweep_undisturbed [OF assms, of cfg wl now] by blast
qed

theorem shape_sweep_terminates_witness:
  "\<exists>cfg n d'. CleanupAfter cfg = 600000000000
     \<and> run_labels cfg \<lparr>nets = []\<rparr> (LShapeTick 700000000000 [''192.0.2.10''] # replicate n LShapeStep)
         ((init_daemon (FixedAlgorithm 1) None (sconst 0))\<lparr>burstPacerByIP := [''192.0.2.10'' \<mapsto> 0],
            pacers := (\<lambda>_. \<lparr>LastRelease = 5, pacer_LastSeen = 5, Pending = False\<rparr>)\<rparr>) = Some d'
     \<and> burstPacerByIP d' ''192.0.2.10'' = None"
proof -
  obtain cfg :: Config where c: "CleanupAfter cfg = 600000000000" using example_startup by blast
  let ?d = "(init_daemon (FixedAlgorithm 1) None (sconst 0))\<lparr>burstPacerByIP := [''192.0.2.10'' \<mapsto> 0],
      pacers := (\<lambda>_. \<lparr>LastRelease = 5, pacer_LastSeen = 5, Pending = False\<rparr>)\<rparr>"
  have d: "shapeSweep ?d = None" "dom (burstPacerByIP ?d) \<subseteq> set [''192.0.2.10'']" by (simp_all add: init_daemon_def)
  have "pacer_stale cfg 700000000000 (pacers ?d 0)" by (simp add: pacer_stale_def c time_IsZero_def time_Sub_def)
  then show ?thesis
    using shape_sweep_terminates [OF d(1) _ d(2), of cfg "\<lparr>nets = []\<rparr>" 700000000000] c by fastforce
qed

end
