(* ===== verification/Command_Line.thy ===== *)
theory Command_Line
  imports Printing
begin

text \<open>
  The command line of \<open>src/cmd/nfqcooldown/main.go\<close>: the table of flags \<open>parseConfig\<close> declares,
  \<open>flag.Parse\<close> on that table, and the whole of \<open>parseConfig\<close> from the arguments to the configuration or
  the exit of the process.
\<close>

subsection \<open>The flags\<close>

text \<open>What a flag holds, and the variable it sets.\<close>

datatype flag_value =
    UintValue "u64 \<Rightarrow> flags \<Rightarrow> flags"
  | IntValue "int \<Rightarrow> flags \<Rightarrow> flags"
  | StringValue "string \<Rightarrow> flags \<Rightarrow> flags"
  | BoolValue "bool \<Rightarrow> flags \<Rightarrow> flags"

definition flag_table :: "(string \<times> flag_value) list" where
  "flag_table =
     [(''queue'', UintValue (\<lambda>v f. f\<lparr>f_queue := v\<rparr>)),
      (''action'', StringValue (\<lambda>v f. f\<lparr>f_action := v\<rparr>)),
      (''mode'', StringValue (\<lambda>v f. f\<lparr>f_mode := v\<rparr>)),
      (''cooldown'', StringValue (\<lambda>v f. f\<lparr>f_cooldown := v\<rparr>)),
      (''min-delay'', StringValue (\<lambda>v f. f\<lparr>f_min_delay := v\<rparr>)),
      (''max-delay'', StringValue (\<lambda>v f. f\<lparr>f_max_delay := v\<rparr>)),
      (''jitter'', StringValue (\<lambda>v f. f\<lparr>f_jitter := v\<rparr>)),
      (''whitelist'', StringValue (\<lambda>v f. f\<lparr>f_whitelist := v\<rparr>)),
      (''verbose'', BoolValue (\<lambda>v f. f\<lparr>f_verbose := v\<rparr>)),
      (''seed'', IntValue (\<lambda>v f. f\<lparr>f_seed := v\<rparr>)),
      (''stats-every'', StringValue (\<lambda>v f. f\<lparr>f_stats_every := v\<rparr>)),
      (''cleanup-after'', StringValue (\<lambda>v f. f\<lparr>f_cleanup_after := v\<rparr>)),
      (''cleanup-every'', StringValue (\<lambda>v f. f\<lparr>f_cleanup_every := v\<rparr>)),
      (''forget-on-drop'', BoolValue (\<lambda>v f. f\<lparr>f_forget_on_drop := v\<rparr>)),
      (''max-drops-per-ip'', IntValue (\<lambda>v f. f\<lparr>f_max_drops_per_ip := v\<rparr>)),
      (''packet'', StringValue (\<lambda>v f. f\<lparr>f_packet := v\<rparr>)),
      (''max-pending-delays'', IntValue (\<lambda>v f. f\<lparr>f_max_pending_delays := v\<rparr>)),
      (''burst-interval'', StringValue (\<lambda>v f. f\<lparr>f_burst_interval := v\<rparr>)),
      (''burst-max-delay'', StringValue (\<lambda>v f. f\<lparr>f_burst_max_delay := v\<rparr>)),
      (''skip-mark'', StringValue (\<lambda>v f. f\<lparr>f_skip_mark := v\<rparr>)),
      (''reject-mark'', StringValue (\<lambda>v f. f\<lparr>f_reject_mark := v\<rparr>)),
      (''split-at'', IntValue (\<lambda>v f. f\<lparr>f_split_at := v\<rparr>)),
      (''split-mark'', StringValue (\<lambda>v f. f\<lparr>f_split_mark := v\<rparr>)),
      (''split-delay'', StringValue (\<lambda>v f. f\<lparr>f_split_delay := v\<rparr>)),
      (''split-seen-ttl'', StringValue (\<lambda>v f. f\<lparr>f_split_seen_ttl := v\<rparr>)),
      (''split-probe'', BoolValue (\<lambda>v f. f\<lparr>f_split_probe := v\<rparr>)),
      (''split-reverse'', BoolValue (\<lambda>v f. f\<lparr>f_split_reverse := v\<rparr>)),
      (''fake-bad-checksum'', BoolValue (\<lambda>v f. f\<lparr>f_fake_bad_checksum := v\<rparr>)),
      (''fake-payload'', StringValue (\<lambda>v f. f\<lparr>f_fake_payload := v\<rparr>)),
      (''fake-length'', IntValue (\<lambda>v f. f\<lparr>f_fake_length := v\<rparr>)),
      (''fake-delay'', StringValue (\<lambda>v f. f\<lparr>f_fake_delay := v\<rparr>)),
      (''pass-window'', StringValue (\<lambda>v f. f\<lparr>f_pass_window := v\<rparr>))]"

text \<open>\<open>Value.Set\<close>: \<open>None\<close> is an error.\<close>

fun set_value :: "flag_value \<Rightarrow> string \<Rightarrow> flags \<Rightarrow> flags option" where
  "set_value (UintValue k) s f = map_option (\<lambda>n. k (of_nat n) f) (ParseUint 64 s)"
| "set_value (IntValue k) s f = map_option (\<lambda>n. k n f) (ParseInt64 s)"
| "set_value (StringValue k) s f = Some (k s f)"
| "set_value (BoolValue k) s f = map_option (\<lambda>b. k b f) (ParseBool s)"

fun is_bool_value :: "flag_value \<Rightarrow> bool" where
  "is_bool_value (BoolValue _) = True"
| "is_bool_value _ = False"

subsection \<open>flag.Parse\<close>

datatype flag_error =
    BadFlagSyntax string
  | FlagNotDefined string
  | FlagNeedsArgument string
  | InvalidFlagValue string string
  | HelpRequested

text \<open>The first equals sign that is not the first character separates the name from the value.\<close>

fun cut_equals :: "string \<Rightarrow> string \<times> string option" where
  "cut_equals [] = ([], None)"
| "cut_equals (c # s) =
     (if c = CHR ''='' then ([], Some s) else case cut_equals s of (n, v) \<Rightarrow> (c # n, v))"

fun cut_name :: "string \<Rightarrow> string \<times> string option" where
  "cut_name [] = ([], None)"
| "cut_name (c # s) = (case cut_equals s of (n, v) \<Rightarrow> (c # n, v))"

text \<open>
  \<open>parseOne\<close>: \<open>Inr (seen, args, f)\<close> tells whether a flag was consumed, the arguments left and
  the variables.
\<close>

definition parseOne :: "string list \<Rightarrow> flags \<Rightarrow> flag_error + bool \<times> string list \<times> flags" where
  "parseOne args f =
     (case args of
        [] \<Rightarrow> Inr (False, args, f)
      | s # rest \<Rightarrow>
          if length s < 2 \<or> s ! 0 \<noteq> CHR ''-'' then Inr (False, args, f)
          else if s = ''--'' then Inr (False, rest, f)
          else let name = (if s ! 1 = CHR ''-'' then drop 2 s else drop 1 s)
          in if name = [] \<or> name ! 0 = CHR ''-'' \<or> name ! 0 = CHR ''='' then Inl (BadFlagSyntax s)
          else (case cut_name name of (name, v) \<Rightarrow>
            (case map_of flag_table name of
               None \<Rightarrow> Inl (if name = ''help'' \<or> name = ''h'' then HelpRequested else FlagNotDefined name)
             | Some fv \<Rightarrow>
                 let assign = (\<lambda>value rest. case set_value fv value f of
                       None \<Rightarrow> Inl (InvalidFlagValue value name) | Some f' \<Rightarrow> Inr (True, rest, f'))
                 in if is_bool_value fv then assign (case v of None \<Rightarrow> ''true'' | Some x \<Rightarrow> x) rest
                    else (case v of
                      Some x \<Rightarrow> assign x rest
                    | None \<Rightarrow> (case rest of [] \<Rightarrow> Inl (FlagNeedsArgument name) | x # rest' \<Rightarrow> assign x rest')))))"

lemma parseOne_shorter: "parseOne args f = Inr (True, rest, f') \<Longrightarrow> length rest < length args"
  by (auto simp: parseOne_def Let_def split: list.splits if_splits prod.splits option.splits)

text \<open>The loop of \<open>Parse\<close>: it consumes flags until there is none, and leaves the other arguments.\<close>

function flag_Parse :: "string list \<Rightarrow> flags \<Rightarrow> flag_error + string list \<times> flags" where
  "flag_Parse args f =
     (case parseOne args f of
        Inl e \<Rightarrow> Inl e
      | Inr (seen, rest, f') \<Rightarrow> if seen then flag_Parse rest f' else Inr (rest, f'))"
  by pat_completeness auto

termination flag_Parse
  by (relation "measure (\<lambda>(args, f). length args)") (auto dest: parseOne_shorter)

declare flag_Parse.simps [simp del]

subsection \<open>parseConfig on the arguments\<close>

datatype cli_exit =
    UsageExit
  | VersionExit
  | FlagExit flag_error
  | FatalExit config_error

definition command_line :: "string list \<Rightarrow> cli_exit + Config" where
  "command_line args =
     (case scan_args args of
        Some ShowUsage \<Rightarrow> Inl UsageExit
      | Some ShowVersion \<Rightarrow> Inl VersionExit
      | None \<Rightarrow>
          (case flag_Parse args default_flags of
             Inl e \<Rightarrow> Inl (FlagExit e)
           | Inr (rest, f) \<Rightarrow> (case parseConfig f of Inl e \<Rightarrow> Inl (FatalExit e) | Inr cfg \<Rightarrow> Inr cfg)))"

text \<open>The status the process exits with: \<open>flag.ExitOnError\<close> gives 2, except for help; \<open>fatalf\<close> gives 1.\<close>

fun exit_status :: "cli_exit \<Rightarrow> int" where
  "exit_status UsageExit = 0"
| "exit_status VersionExit = 0"
| "exit_status (FlagExit HelpRequested) = 0"
| "exit_status (FlagExit _) = 2"
| "exit_status (FatalExit _) = 1"

subsection \<open>Reading back printed arguments\<close>

lemma ParseInt64_fmt_d:
  assumes "int64 n"
  shows "ParseInt64 (fmt_d n) = Some n"
proof -
  have sign: "hd (itoa k) \<noteq> CHR ''+'' \<and> hd (itoa k) \<noteq> CHR ''-''" for k
    using itoa_digits [of "hd (itoa k)" k] by (auto simp: is_dec_def less_eq_char_def)
  have "nat (- n) \<le> 2 ^ 63" "nat n < 2 ^ 63" using assms by (auto simp: int64_def nat_le_iff nat_less_iff)
  moreover from this have "nat (- n) < 2 ^ 64" "nat n < 2 ^ 64" by auto
  ultimately show ?thesis
    using sign [of "nat n"] ParseUint_itoa [of "nat (- n)" 64] ParseUint_itoa [of "nat n" 64]
    by (auto simp: ParseInt64_def fmt_d_def Let_def)
qed

lemma ParseUint64_fmt_u: "ParseUint 64 (fmt_u (w :: u64)) = Some (unat w)"
  unfolding fmt_u_def using unsigned_less [of w, where ?'a = nat] by (intro ParseUint_itoa) simp

lemma ParseBool_fmt_v: "ParseBool (fmt_v b) = Some b"
  by (simp add: ParseBool_def fmt_v_def)

definition arg :: "string \<Rightarrow> string \<Rightarrow> string" where
  "arg name v = ''--'' @ name @ CHR ''='' # v"

lemma cut_equals_app: "CHR ''='' \<notin> set n \<Longrightarrow> cut_equals (n @ CHR ''='' # v) = (n, Some v)"
  by (induction n) auto

definition flag_name :: "string \<Rightarrow> bool" where
  "flag_name n \<longleftrightarrow> n \<noteq> [] \<and> hd n \<noteq> CHR ''-'' \<and> CHR ''='' \<notin> set n"

lemma parseOne_arg:
  assumes "flag_name n" "map_of flag_table n = Some fv" "set_value fv v f = Some f'"
  shows "parseOne (arg n v # rest) f = Inr (True, rest, f')"
proof -
  obtain c m where n: "n = c # m" using assms(1) by (cases n) (auto simp: flag_name_def)
  have "cut_name (n @ CHR ''='' # v) = (n, Some v)" using assms(1) n by (simp add: flag_name_def cut_equals_app)
  then show ?thesis using assms n by (auto simp: parseOne_def arg_def flag_name_def Let_def)
qed

lemma flag_Parse_arg:
  "flag_name n \<Longrightarrow> map_of flag_table n = Some fv \<Longrightarrow> set_value fv v f = Some f' \<Longrightarrow>
   flag_Parse (arg n v # rest) f = flag_Parse rest f'"
  by (subst flag_Parse.simps) (simp add: parseOne_arg)

lemma flag_Parse_Nil: "flag_Parse [] f = Inr ([], f)"
  by (simp add: flag_Parse.simps parseOne_def)

text \<open>One argument for every flag.\<close>

definition show_args :: "flags \<Rightarrow> string list" where
  "show_args f =
     [arg ''queue'' (fmt_u (f_queue f)), arg ''action'' (f_action f), arg ''mode'' (f_mode f), arg ''cooldown'' (f_cooldown f),
      arg ''min-delay'' (f_min_delay f), arg ''max-delay'' (f_max_delay f), arg ''jitter'' (f_jitter f),
      arg ''whitelist'' (f_whitelist f), arg ''verbose'' (fmt_v (f_verbose f)), arg ''seed'' (fmt_d (f_seed f)),
      arg ''stats-every'' (f_stats_every f), arg ''cleanup-after'' (f_cleanup_after f), arg ''cleanup-every'' (f_cleanup_every f),
      arg ''forget-on-drop'' (fmt_v (f_forget_on_drop f)), arg ''max-drops-per-ip'' (fmt_d (f_max_drops_per_ip f)),
      arg ''packet'' (f_packet f), arg ''max-pending-delays'' (fmt_d (f_max_pending_delays f)),
      arg ''burst-interval'' (f_burst_interval f), arg ''burst-max-delay'' (f_burst_max_delay f),
      arg ''skip-mark'' (f_skip_mark f), arg ''reject-mark'' (f_reject_mark f), arg ''split-at'' (fmt_d (f_split_at f)),
      arg ''split-mark'' (f_split_mark f), arg ''split-delay'' (f_split_delay f), arg ''split-seen-ttl'' (f_split_seen_ttl f),
      arg ''split-probe'' (fmt_v (f_split_probe f)), arg ''split-reverse'' (fmt_v (f_split_reverse f)),
      arg ''fake-bad-checksum'' (fmt_v (f_fake_bad_checksum f)), arg ''fake-payload'' (f_fake_payload f),
      arg ''fake-length'' (fmt_d (f_fake_length f)), arg ''fake-delay'' (f_fake_delay f), arg ''pass-window'' (f_pass_window f)]"

lemma flag_Parse_show:
  assumes "list_all int64 [f_seed f, f_max_drops_per_ip f, f_max_pending_delays f, f_split_at f, f_fake_length f]"
  shows "flag_Parse (show_args f @ rest) f0 = flag_Parse rest f"
  using assms
  by (simp add: show_args_def flag_Parse_arg flag_name_def flag_table_def ParseInt64_fmt_d ParseUint64_fmt_u ParseBool_fmt_v)
    (rule arg_cong [where f = "flag_Parse rest"], simp)

lemma scan_show_args: "scan_args (show_args f @ rest) = scan_args rest"
  by (simp add: show_args_def arg_def)

text \<open>
  C37. Every setting of the flags, with integers of 64 bits, is reached by a command line: with one
  argument \<open>--name=value\<close> for each flag, the integers and booleans printed the way fmt
  prints them, parseConfig reads back exactly the given settings, so that it returns their
  configuration or exits with the error of the settings.
\<close>

theorem command_line_roundtrip:
  assumes "list_all int64 [f_seed f, f_max_drops_per_ip f, f_max_pending_delays f, f_split_at f, f_fake_length f]"
  shows "command_line (show_args f) = (case parseConfig f of Inl e \<Rightarrow> Inl (FatalExit e) | Inr cfg \<Rightarrow> Inr cfg)"
  using scan_show_args [of f "[]"] flag_Parse_show [OF assms, of "[]"] by (simp add: command_line_def flag_Parse_Nil)

theorem command_line_roundtrip_witness:
  "command_line (show_args (default_flags\<lparr>f_seed := - 7, f_split_at := 0\<rparr>)) = Inl (FatalExit (BadSplitAt 0))"
proof -
  let ?f = "default_flags\<lparr>f_seed := - 7, f_split_at := 0\<rparr>"
  have "parseConfig ?f = Inl (BadSplitAt 0)"
    by (simp add: parseConfig_def default_flags_def mustDuration_def default_durations default_marks bindE_def
        config_checks_def)
  moreover have "list_all int64 [f_seed ?f, f_max_drops_per_ip ?f, f_max_pending_delays ?f, f_split_at ?f, f_fake_length ?f]"
    by (simp add: default_flags_def int64_def)
  ultimately show ?thesis using command_line_roundtrip [of ?f] by simp
qed



end
