(* ===== verification/Usage_Text.thy ===== *)
theory Usage_Text
  imports Command_Line
begin

text \<open>
  The usage text \<open>printUsage\<close> prints (\<open>src/cmd/nfqcooldown/main.go\<close>), read against the flags the program
  declares: the options it documents and its example command lines.
\<close>

subsection \<open>The usage text\<close>

text \<open>The lines \<open>printUsage\<close> prints; \<open>version\<close> is the version string set at build time.\<close>

definition printUsage :: "string \<Rightarrow> string list" where
  "printUsage version = [
      ''nfqcooldown '' @ version,
      '''',
      ''NFQUEUE-based TCP SYN rate limiter and TCP payload splitter.'',
      '''',
      ''USAGE:'',
      ''    nfqcooldown [OPTIONS]'',
      '''',
      ''CORE OPTIONS:'',
      ''    --queue <n>                   NFQUEUE number (default: 443)'',
      ''    --action <drop|shape|split>   Packet action (default: drop)'',
      ''    --packet <syn|synack|payload> Packet type; payload is used by split'',
      ''    --mode <fixed|random|jitter>  Cooldown algorithm used by drop (default: fixed)'',
      '''',
      ''DROP MODE:'',
      ''    --cooldown <duration>         Base cooldown for fixed/jitter mode (default: 500ms)'',
      ''    --min-delay <duration>        Random mode minimum cooldown (default: 300ms)'',
      ''    --max-delay <duration>        Random mode maximum cooldown (default: 700ms)'',
      ''    --jitter <duration>           Jitter around cooldown (default: 100ms)'',
      ''    --max-drops-per-ip <n>        Force accept after N consecutive drops; 0 disables'',
      ''    --forget-on-drop              Forget source IP state after DROP'',
      '''',
      ''SPLIT MODE:'',
      ''    --split-at <n>                Split payload before byte n (default: 1)'',
      ''    --split-mark <mark>           Packet mark for nftables persistence (default: 0x1000)'',
      ''    --split-delay <duration>      Delay before second segment (default: 1ms)'',
      ''    --split-seen-ttl <duration>   Remember split segments and pass retransmits unchanged (default: 1m)'',
      ''    --split-probe                 Send only the first part; rely on TCP retransmission'',
      ''    --split-reverse               Send the second part before the first'',
      ''    --fake-bad-checksum           Send an invalid-checksum fake before real data'',
      ''    --fake-payload <mode>         Fake payload: copy or tls-invalid-length'',
      ''    --fake-length <n>             Fake TCP payload bytes; 0 keeps original length'',
      ''    --fake-delay <duration>       Delay between fake and real data (default: 5ms)'',
      ''    --pass-window <duration>      Pass first payload normally, split later payload packets inside fixed window; 0 disables'',
      '''',
      ''SHAPE MODE:'',
      ''    --burst-interval <duration>   Minimum interval between released SYN packets per IP'',
      ''    --burst-max-delay <duration>  Maximum permitted delay; larger delays are dropped'',
      ''    --max-pending-delays <n>      Global pending shaped-packet limit; 0 disables'',
      '''',
      ''STATE:'',
      ''    --cleanup-every <duration>    Cleanup interval (default: 30s)'',
      ''    --cleanup-after <duration>    Forget inactive IPs after this duration (default: 10m)'',
      '''',
      ''FILTERING:'',
      ''    --whitelist <ip,cidr,...>     Comma-separated IP/CIDR whitelist'',
      ''    --skip-mark <mark[/mask]>     Accept matching packet marks before shaping/drop'',
      ''    --reject-mark <mark>          Replace DROP with ACCEPT carrying old_mark|mark'',
      '''',
      ''LOGGING:'',
      ''    --stats-every <duration>      Aggregate stats interval (default: 30s)'',
      ''    --verbose                     Log every packet decision'',
      '''',
      ''OTHER:'',
      ''    --seed <n>                    Random seed; 0 means current time'',
      ''    --help                        Show this help'',
      ''    --version                     Show program version'',
      '''',
      ''EXAMPLES:'',
      ''    nfqcooldown --queue 443 --packet syn --action shape '' @ [CHR 0x5C],
      ''      --burst-interval 800ms --burst-max-delay 50ms'',
      '''',
      ''    nfqcooldown --queue 443 --packet syn --action drop '' @ [CHR 0x5C],
      ''      --mode jitter --cooldown 990ms --jitter 100ms '' @ [CHR 0x5C],
      ''      --max-drops-per-ip 7'',
      '''',
      ''    nfqcooldown --queue 444 --packet synack --action drop '' @ [CHR 0x5C],
      ''      --mode fixed --cooldown 1s --verbose'',
      '''',
      ''    nfqcooldown --queue 443 --packet syn --action shape '' @ [CHR 0x5C],
      ''      --skip-mark 0x400/0x400 '' @ [CHR 0x5C],
      ''      --reject-mark 0x800 '' @ [CHR 0x5C],
      ''      --burst-interval 1090ms --burst-max-delay 10ms'',
      '''']"

subsection \<open>The documented options\<close>

text \<open>The rest of a string after a prefix, and after the first occurrence of a pattern.\<close>

fun strip_prefix :: "string \<Rightarrow> string \<Rightarrow> string option" where
  "strip_prefix [] s = Some s"
| "strip_prefix (p # ps) [] = None"
| "strip_prefix (p # ps) (c # s) = (if p = c then strip_prefix ps s else None)"

fun after :: "string \<Rightarrow> string \<Rightarrow> string option" where
  "after p [] = strip_prefix p []"
| "after p (c # s) = (case strip_prefix p (c # s) of None \<Rightarrow> after p s | Some r \<Rightarrow> Some r)"

fun is_blank :: "char \<Rightarrow> bool" where
  "is_blank c = (c = CHR '' '')"

text \<open>
  An option line gives a name, whether the option takes an argument, which stands in angle
  brackets, and the default if the line has one.
\<close>

definition option_entry :: "string \<Rightarrow> (string \<times> bool \<times> string option) option" where
  "option_entry l =
     (case strip_prefix ''    --'' l of
        None \<Rightarrow> None
      | Some s \<Rightarrow>
          let rest = dropWhile (\<lambda>c. \<not> is_blank c) s
          in Some (takeWhile (\<lambda>c. \<not> is_blank c) s, strip_prefix '' <'' rest \<noteq> None,
               map_option (takeWhile (\<lambda>c. c \<noteq> CHR '')'')) (after ''(default: '' rest)))"

definition option_entries :: "string list \<Rightarrow> (string \<times> bool \<times> string option) list" where
  "option_entries ls = List.map_filter option_entry ls"

lemma usage_options:
  "option_entries (printUsage v) =
     [(''queue'', True, Some ''443''), (''action'', True, Some ''drop''), (''packet'', True, None),
      (''mode'', True, Some ''fixed''), (''cooldown'', True, Some ''500ms''), (''min-delay'', True, Some ''300ms''),
      (''max-delay'', True, Some ''700ms''), (''jitter'', True, Some ''100ms''), (''max-drops-per-ip'', True, None),
      (''forget-on-drop'', False, None), (''split-at'', True, Some ''1''), (''split-mark'', True, Some ''0x1000''),
      (''split-delay'', True, Some ''1ms''), (''split-seen-ttl'', True, Some ''1m''), (''split-probe'', False, None),
      (''split-reverse'', False, None), (''fake-bad-checksum'', False, None), (''fake-payload'', True, None),
      (''fake-length'', True, None), (''fake-delay'', True, Some ''5ms''), (''pass-window'', True, None),
      (''burst-interval'', True, None), (''burst-max-delay'', True, None), (''max-pending-delays'', True, None),
      (''cleanup-every'', True, Some ''30s''), (''cleanup-after'', True, Some ''10m''), (''whitelist'', True, None),
      (''skip-mark'', True, None), (''reject-mark'', True, None), (''stats-every'', True, Some ''30s''),
      (''verbose'', False, None), (''seed'', True, None), (''help'', False, None),
      (''version'', False, None)]"
  by code_simp


lemma usage_names:
  "distinct (map fst (option_entries (printUsage v)))"
  "set (map fst (option_entries (printUsage v))) = set (map fst flag_table) \<union> {''help'', ''version''}"
  unfolding usage_options by code_simp+

definition documented :: "(string \<times> bool \<times> string option) list \<Rightarrow> string \<times> flag_value \<Rightarrow> bool" where
  "documented es = (\<lambda>(name, fv). case map_of es name of
       None \<Rightarrow> False
     | Some (takes_arg, dflt) \<Rightarrow> takes_arg = (\<not> is_bool_value fv)
         \<and> (case dflt of None \<Rightarrow> True | Some s \<Rightarrow> set_value fv s default_flags = Some default_flags))"

lemma default_numbers: "ParseUint 64 ''443'' = Some 443" "ParseInt64 ''1'' = Some 1"
proof -
  have "itoa 443 = ''443''" "fmt_d 1 = ''1''" by (simp_all add: fmt_d_def print_base.simps digit_def char_of_def bit_0)
  then show "ParseUint 64 ''443'' = Some 443" "ParseInt64 ''1'' = Some 1"
    using ParseUint_itoa [of 443 64] ParseInt64_fmt_d [of 1] by (simp_all add: int64_def)
qed

lemma usage_documented: "list_all (documented (option_entries (printUsage v))) flag_table"
  unfolding usage_options by (simp add: flag_table_def documented_def default_numbers default_flags_def)


text \<open>
  The usage text and the flags agree: every declared flag and the two options handled before
  flag.Parse are documented exactly once and nothing else is; an option is documented with an
  argument exactly if it is not a boolean flag; and setting a flag to its documented default changes
  nothing.
\<close>

lemma usage_matches_flags:
  "distinct (map fst (option_entries (printUsage v)))
   \<and> set (map fst (option_entries (printUsage v))) = set (map fst flag_table) \<union> {''help'', ''version''}
   \<and> list_all (documented (option_entries (printUsage v))) flag_table"
  using usage_names usage_documented by blast

subsection \<open>The example command lines\<close>

text \<open>The words of a line, and the command lines of a text in which a final backslash continues a line.\<close>

fun words_from :: "string \<Rightarrow> string \<Rightarrow> string list" where
  "words_from w [] = (if w = [] then [] else [rev w])"
| "words_from w (c # s) =
     (if is_blank c then (if w = [] then words_from [] s else rev w # words_from [] s) else words_from (c # w) s)"

fun commands :: "string list \<Rightarrow> string list \<Rightarrow> string list list" where
  "commands acc [] = (if acc = [] then [] else [acc])"
| "commands acc (l # ls) =
     (let ws = words_from [] l
      in if ws \<noteq> [] \<and> last ws = [CHR 0x5C] then commands (acc @ butlast ws) ls
         else if acc @ ws = [] then commands [] ls
         else (acc @ ws) # commands [] ls)"

text \<open>The arguments of the examples, without the name of the program.\<close>

definition usage_examples :: "string list \<Rightarrow> string list list" where
  "usage_examples ls = map tl (commands [] (tl (dropWhile (\<lambda>l. l \<noteq> ''EXAMPLES:'') ls)))"

lemma usage_examples_eval:
  "usage_examples (printUsage v) =
     [[''--queue'', ''443'', ''--packet'', ''syn'', ''--action'', ''shape'', ''--burst-interval'', ''800ms'',
       ''--burst-max-delay'', ''50ms''],
      [''--queue'', ''443'', ''--packet'', ''syn'', ''--action'', ''drop'', ''--mode'', ''jitter'', ''--cooldown'', ''990ms'',
       ''--jitter'', ''100ms'', ''--max-drops-per-ip'', ''7''],
      [''--queue'', ''444'', ''--packet'', ''synack'', ''--action'', ''drop'', ''--mode'', ''fixed'', ''--cooldown'', ''1s'',
       ''--verbose''],
      [''--queue'', ''443'', ''--packet'', ''syn'', ''--action'', ''shape'', ''--skip-mark'', ''0x400/0x400'',
       ''--reject-mark'', ''0x800'', ''--burst-interval'', ''1090ms'', ''--burst-max-delay'', ''10ms'']]"
  by code_simp

lemma cut_equals_none: "CHR ''='' \<notin> set n \<Longrightarrow> cut_equals n = (n, None)"
  by (induction n) auto

lemma parseOne_name:
  assumes "flag_name n" "map_of flag_table n = Some fv"
  shows "parseOne ((CHR ''-'' # CHR ''-'' # n) # rest) f =
    (if is_bool_value fv then (case set_value fv ''true'' f of None \<Rightarrow> Inl (InvalidFlagValue ''true'' n) | Some f' \<Rightarrow> Inr (True, rest, f'))
     else (case rest of [] \<Rightarrow> Inl (FlagNeedsArgument n) | v # rest' \<Rightarrow>
       (case set_value fv v f of None \<Rightarrow> Inl (InvalidFlagValue v n) | Some f' \<Rightarrow> Inr (True, rest', f'))))"
proof -
  obtain c m where n: "n = c # m" using assms(1) by (cases n) (auto simp: flag_name_def)
  have "cut_name n = (n, None)" using assms(1) n by (simp add: flag_name_def cut_equals_none)
  then show ?thesis using assms n by (auto simp: parseOne_def flag_name_def Let_def split: option.splits list.splits)
qed

lemma flag_Parse_word:
  assumes "flag_name n" "map_of flag_table n = Some fv" "\<not> is_bool_value fv" "set_value fv v f = Some f'"
  shows "flag_Parse ((CHR ''-'' # CHR ''-'' # n) # v # rest) f = flag_Parse rest f'"
  using assms by (subst flag_Parse.simps) (simp add: parseOne_name)

lemma flag_Parse_switch:
  assumes "flag_name n" "map_of flag_table n = Some fv" "is_bool_value fv" "set_value fv ''true'' f = Some f'"
  shows "flag_Parse ((CHR ''-'' # CHR ''-'' # n) # rest) f = flag_Parse rest f'"
  using assms by (subst flag_Parse.simps) (simp add: parseOne_name)

lemma example_numbers: "ParseUint 64 ''444'' = Some 444" "ParseInt64 ''7'' = Some 7"
proof -
  have "itoa 444 = ''444''" "fmt_d 7 = ''7''" by (simp_all add: fmt_d_def print_base.simps digit_def char_of_def bit_0)
  then show "ParseUint 64 ''444'' = Some 444" "ParseInt64 ''7'' = Some 7"
    using ParseUint_itoa [of 444 64] ParseInt64_fmt_d [of 7] by (simp_all add: int64_def)
qed

lemma example_durations:
  "ParseDuration ''800ms'' = Some 800000000" "ParseDuration ''50ms'' = Some 50000000"
  "ParseDuration ''990ms'' = Some 990000000" "ParseDuration ''1090ms'' = Some 1090000000"
  "ParseDuration ''10ms'' = Some 10000000"
  by (simp_all add: duration_eval)

lemma example_marks:
  "mustMarkSpec n ''0x400/0x400'' = Inr (True, 0x400, 0x400)" "mustMark n ''0x800'' = Inr (True, 0x800)"
proof -
  have h: "hex_mark 0x400 = ''0x400''" "hex_mark 0x800 = ''0x800''"
    by (simp_all add: hex_mark_def print_base.simps digit_def char_of_def bit_0)
  show "mustMarkSpec n ''0x400/0x400'' = Inr (True, 0x400, 0x400)"
    using mustMarkSpec_hex [of "0x400" n "0x400"] by (simp add: h)
  show "mustMark n ''0x800'' = Inr (True, 0x800)" using mustMark_hex [of "0x800" n] by (simp add: h)
qed

lemmas example_eval = command_line_def flag_Parse_word flag_Parse_switch flag_Parse_Nil flag_name_def flag_table_def
  default_numbers example_numbers example_durations example_marks parseConfig_def default_flags_def mustDuration_def
  default_durations default_marks bindE_def config_checks_def config_of_fields

lemma shape_example:
  "\<exists>c. command_line [''--queue'', ''443'', ''--packet'', ''syn'', ''--action'', ''shape'', ''--burst-interval'', ''800ms'',
       ''--burst-max-delay'', ''50ms''] = Inr c
     \<and> (QueueNum c, Packet c, Action c, BurstInterval c, BurstMaxDelay c) = (443, ''syn'', ''shape'', 800000000, 50000000)"
  by (simp add: example_eval)

lemma jitter_example:
  "\<exists>c. command_line [''--queue'', ''443'', ''--packet'', ''syn'', ''--action'', ''drop'', ''--mode'', ''jitter'', ''--cooldown'',
       ''990ms'', ''--jitter'', ''100ms'', ''--max-drops-per-ip'', ''7''] = Inr c
     \<and> (QueueNum c, Packet c, Action c, Mode c, cfg_Cooldown c, Jitter c, MaxDropsPerIP c) =
        (443, ''syn'', ''drop'', ''jitter'', 990000000, 100000000, 7)"
  by (simp add: example_eval)

lemma synack_example:
  "\<exists>c. command_line [''--queue'', ''444'', ''--packet'', ''synack'', ''--action'', ''drop'', ''--mode'', ''fixed'', ''--cooldown'',
       ''1s'', ''--verbose''] = Inr c
     \<and> (QueueNum c, Packet c, Action c, Mode c, cfg_Cooldown c, Verbose c) = (444, ''synack'', ''drop'', ''fixed'', 1000000000, True)"
  by (simp add: example_eval ParseBool_def)

lemma marks_example:
  "\<exists>c. command_line [''--queue'', ''443'', ''--packet'', ''syn'', ''--action'', ''shape'', ''--skip-mark'', ''0x400/0x400'',
       ''--reject-mark'', ''0x800'', ''--burst-interval'', ''1090ms'', ''--burst-max-delay'', ''10ms''] = Inr c
     \<and> (QueueNum c, Packet c, Action c, SkipMarkEnabled c, SkipMarkValue c, SkipMarkMask c) = (443, ''syn'', ''shape'', True, 0x400, 0x400)
     \<and> (RejectMarkEnabled c, RejectMarkValue c, BurstInterval c, BurstMaxDelay c) = (True, 0x800, 1090000000, 10000000)"
  by (simp add: example_eval)

text \<open>
  The four command lines of the EXAMPLES section of the usage text, taken from the printed text with
  their continuation lines, are accepted, and the configuration has the values the lines ask for.
\<close>

theorem usage_examples_accepted:
  "\<exists>c1 c2 c3 c4. map command_line (usage_examples (printUsage v)) = [Inr c1, Inr c2, Inr c3, Inr c4]
     \<and> (QueueNum c1, Packet c1, Action c1, BurstInterval c1, BurstMaxDelay c1) = (443, ''syn'', ''shape'', 800000000, 50000000)
     \<and> (QueueNum c2, Packet c2, Action c2, Mode c2, cfg_Cooldown c2, Jitter c2, MaxDropsPerIP c2) =
        (443, ''syn'', ''drop'', ''jitter'', 990000000, 100000000, 7)
     \<and> (QueueNum c3, Packet c3, Action c3, Mode c3, cfg_Cooldown c3, Verbose c3) = (444, ''synack'', ''drop'', ''fixed'', 1000000000, True)
     \<and> (QueueNum c4, Packet c4, Action c4, SkipMarkEnabled c4, SkipMarkValue c4, SkipMarkMask c4) =
        (443, ''syn'', ''shape'', True, 0x400, 0x400)
     \<and> (RejectMarkEnabled c4, RejectMarkValue c4, BurstInterval c4, BurstMaxDelay c4) = (True, 0x800, 1090000000, 10000000)"
  unfolding usage_examples_eval list.map
  using shape_example jitter_example synack_example marks_example by metis

end
