(* ===== verification/Shutdown.thy ===== *)
theory Shutdown
  imports Run_Limits Split_Mode
begin

text \<open>
  The life of the process around the runs (\<open>main\<close> in \<open>src/cmd/nfqcooldown/main.go\<close>): the registration of
  the handler after the startup, the wait for a signal, and the deferred calls when \<open>main\<close>
  returns. The raw socket is followed from the system call that opens it to the one that closes it.
\<close>

subsection \<open>main\<close>

datatype main_exit =
    StartupExit startup_error
  | RegisterFatal
  | Returned daemon

text \<open>
  The deferred calls run last in, first out: \<open>cancel\<close>, \<open>rawSender.Close\<close>, which is deferred only
  where the sender is opened and does nothing on a nil sender, and \<open>nf.Close\<close>. \<open>os.Exit\<close>, which
  \<open>fatalf\<close> calls, runs no deferred call.
\<close>

definition shutdown :: "errno option \<Rightarrow> daemon \<Rightarrow> daemon" where
  "shutdown close_result d =
     (let d = emit CancelContext d
      in case Close (rawSender d) close_result of
           (_, s, calls) \<Rightarrow> emit_all (map Syscall calls) (d\<lparr>rawSender := s\<rparr>))"

text \<open>
  \<open>registers\<close> is the result of \<open>RegisterWithErrorFunc\<close>, \<open>before\<close> the steps until the signal,
  \<open>between\<close> and \<open>after\<close> the steps other goroutines still take after the socket is closed, before the
  queue is closed and between that and the end of the process.
\<close>

definition main ::
  "(int \<Rightarrow> rng) \<Rightarrow> flags \<Rightarrow> startup_env \<Rightarrow> bool \<Rightarrow> label list \<Rightarrow> errno option \<Rightarrow> label list \<Rightarrow> label list \<Rightarrow> main_exit option" where
  "main seeded f e registers before close_result between after =
     (case startup seeded f e of
        Inl err \<Rightarrow> Some (StartupExit err)
      | Inr (cfg, q, wl, d) \<Rightarrow>
          if \<not> registers then Some RegisterFatal
          else do {
            d \<leftarrow> run_labels cfg wl before d;
            d \<leftarrow> run_labels cfg wl between (shutdown close_result d);
            d \<leftarrow> run_labels cfg wl after (emit CloseQueue d);
            Some (Returned d)
          })"

subsection \<open>The system calls of a run\<close>

definition call_of :: "effect \<Rightarrow> syscall option" where
  "call_of x = (case x of Syscall c \<Rightarrow> Some c | _ \<Rightarrow> None)"

lemma call_of_simps [simp]: "call_of (Syscall c) = Some c" "\<not> is_syscall x \<Longrightarrow> call_of x = None"
  by (simp_all add: call_of_def is_syscall_def split: effect.splits)

definition calls :: "daemon \<Rightarrow> syscall list" where
  "calls d = List.map_filter call_of (outputs d)"

fun on_socket :: "int \<Rightarrow> syscall \<Rightarrow> bool" where
  "on_socket n (SysSetMark k _) \<longleftrightarrow> k = n"
| "on_socket n (SysSendto k _ _) \<longleftrightarrow> k = n"
| "on_socket n _ \<longleftrightarrow> False"

definition through :: "RawIPv4Sender option \<Rightarrow> syscall \<Rightarrow> bool" where
  "through s c \<longleftrightarrow> (case s of None \<Rightarrow> False | Some r \<Rightarrow> 0 \<le> fd r \<and> on_socket (fd r) c)"

text \<open>A step keeps the sender and makes its system calls through it.\<close>

definition raw_part :: "daemon \<Rightarrow> RawIPv4Sender option \<times> syscall list" where
  "raw_part d = (rawSender d, calls d)"

definition grown :: "RawIPv4Sender option \<times> syscall list \<Rightarrow> RawIPv4Sender option \<times> syscall list \<Rightarrow> bool" where
  "grown p q \<longleftrightarrow> fst q = fst p \<and> (\<exists>cs. snd q = snd p @ cs \<and> list_all (through (fst p)) cs)"

abbreviation extends :: "daemon \<Rightarrow> daemon \<Rightarrow> bool" where
  "extends d d' \<equiv> grown (raw_part d) (raw_part d')"

lemma grown_refl [simp]: "grown p p"
  by (simp add: grown_def)

lemma grown_trans: "grown p q \<Longrightarrow> grown q r \<Longrightarrow> grown p r"
  by (force simp: grown_def)

lemma raw_part_effects [simp]:
  "\<not> is_syscall x \<Longrightarrow> raw_part (emit x d) = raw_part d" "raw_part (logVerbose cfg tag d) = raw_part d"
  "raw_part (remember ev d) = raw_part d" "raw_part (bump f d) = raw_part d" "raw_part (accept pid d) = raw_part d"
  "raw_part (dropOrReject cfg pid m d) = raw_part d" "raw_part (seen_store k t d) = raw_part d"
  "raw_part (seen_delete k d) = raw_part d" "raw_part (set_pacer a p d) = raw_part d" "raw_part (report n s d) = raw_part d"
  "raw_part (emit_all (map Printed xs) d) = raw_part d"
  by (simp_all add: raw_part_def calls_def effect_defs report_def Let_def List.map_filter_def filter_map o_def)

lemma raw_part_fields [simp]:
  "raw_part (d\<lparr>state := s\<rparr>) = raw_part d" "raw_part (d\<lparr>state := s, rand_source := g\<rparr>) = raw_part d"
  "raw_part (d\<lparr>splitPayloadWindow := w\<rparr>) = raw_part d" "raw_part (d\<lparr>splitSeen := m\<rparr>) = raw_part d"
  "raw_part (d\<lparr>shapePendingFlows := fl\<rparr>) = raw_part d" "raw_part (d\<lparr>pendingDelays := n\<rparr>) = raw_part d"
  "raw_part (d\<lparr>releases := rs\<rparr>) = raw_part d" "raw_part (d\<lparr>shapeSweep := sw\<rparr>) = raw_part d"
  "raw_part (d\<lparr>burstPacerByIP := b\<rparr>) = raw_part d" "raw_part (d\<lparr>second_sends := ts\<rparr>) = raw_part d"
  "raw_part (d\<lparr>pendingDelays := n, releases := rs\<rparr>) = raw_part d" "raw_part (d\<lparr>rand_source := g\<rparr>) = raw_part d"
  "raw_part (d\<lparr>seenSweep := ss\<rparr>) = raw_part d"
  by (simp_all add: raw_part_def calls_def)

lemma cleanup_ticks_raw_part [simp]: "raw_part (cleanup_ticks cfg ts d) = raw_part d"
  by (induction ts arbitrary: d) (simp_all add: cleanupLoop_tick_def split_beta)

lemma Send_through: "Send s p m a b = Some (err, cs) \<Longrightarrow> list_all (through s) cs"
  by (auto simp: Send_def through_def split: option.splits if_splits bind_splits)

lemma raw_send_extends: "raw_send p m a b d = Some (err, d') \<Longrightarrow> extends d d'"
  by (auto simp: grown_def raw_send_def raw_part_def calls_def emit_all_def List.map_filter_def o_def filter_map
      dest!: Send_through split: bind_splits)

lemma send_fake_extends:
  "send_fake cfg pid pkt mark k e d = Some r \<Longrightarrow> extends d (case r of Inl d' \<Rightarrow> d' | Inr d' \<Rightarrow> d')"
  by (auto simp: send_fake_def Let_def dest!: raw_send_extends split: bind_splits sum.splits prod.splits if_splits)

lemma send_segments_extends: "send_segments cfg pid pkt info mark e d = Some d' \<Longrightarrow> extends d d'"
  by (auto simp: send_segments_def send_reverse_def send_forward_def Let_def dest!: raw_send_extends
      split: bind_splits sum.splits prod.splits if_splits)

lemma split_packet_extends: "split_packet cfg pid m pkt info e d = Some d' \<Longrightarrow> extends d d'"
  by (auto simp: split_packet_def Let_def dest!: send_fake_extends send_segments_extends intro: grown_trans
      split: bind_splits sum.splits if_splits)

lemma handle_payload_extends: "handle_payload cfg pid m pkt e d = Some d' \<Longrightarrow> extends d d'"
  by (auto simp: handle_payload_def Let_def dest!: split_packet_extends split: bind_splits if_splits prod.splits)

lemma handle_shape_raw_part: "raw_part (handle_shape cfg pid m ip info now d) = raw_part d"
proof -
  obtain a d1 where l: "load_pacer ip d = (a, d1)" by (metis prod.exhaust)
  have "raw_part d1 = raw_part d" using l by (auto simp: load_pacer_def raw_part_def calls_def split: option.splits)
  then show ?thesis
    unfolding handle_shape_def Let_def l
    by (simp add: shape_drop_def shape_accept_def shape_delay_def Let_def split: option.split)
qed

lemma handle_matched_raw_part: "handle_matched cfg wl pid m ip info e d = Some d' \<Longrightarrow> raw_part d' = raw_part d"
  by (auto simp: handle_matched_def handle_shape_raw_part handle_drop_def Let_def split_beta split: if_splits bind_splits)

lemma handler_extends: "handler cfg wl a e d = Some d' \<Longrightarrow> extends d d'"
  by (auto simp: handler_def dest: handle_matched_raw_part handle_payload_extends split: option.splits if_splits bind_splits)

lemma step_extends:
  assumes "do_step cfg wl l d = Some d'"
  shows "extends d d'"
proof (cases l)
  case (LPacket a e)
  then show ?thesis using assms handler_extends by simp
next
  case (LRelease i now)
  then have "release_step cfg i now d = Some d'" using assms by simp
  then show ?thesis by (cases rule: release_cases) auto
next
  case (LSecondSend i x y)
  then show ?thesis
    using assms by (auto simp: second_send_step_def Let_def dest!: raw_send_extends split: if_splits bind_splits)
qed (use assms in \<open>auto simp: cleanupLoop_tick_def splitSeenCleanupLoop_tick_def splitSeenCleanupLoop_step_def
  splitPayloadWindowCleanupLoop_tick_def statsLoop_tick_def shapeCleanup_tick_def shapeCleanup_step_def Let_def
  split: if_splits option.splits list.splits prod.splits\<close>)

lemma run_extends: "run_labels cfg wl ls d = Some d' \<Longrightarrow> extends d d'"
  by (induction ls arbitrary: d) (auto intro: grown_trans step_extends split: bind_splits)


subsection \<open>The life of the raw socket\<close>

lemma startup_socket:
  assumes "startup seeded f e = Inr (cfg, q, wl, d)" "socket_result e = Inr n"
  shows "if Action cfg = ''split'' \<and> \<not> SplitProbe cfg
     then rawSender d = Some \<lparr>fd = n\<rparr> \<and> calls d = [SysSocket, SysSetHdrIncl n]
     else rawSender d = None \<and> calls d = []"
  using assms(1)
  by (cases rule: startup_cases)
     (auto simp: assms(2) init_daemon_def calls_def emit_all_def List.map_filter_def filter_map o_def
       dest!: open_raw_sender_cases split: if_splits)

lemma through_None [simp]: "list_all (through None) cs \<longleftrightarrow> cs = []"
  by (cases cs) (simp_all add: through_def)

lemma through_closed: "fd r < 0 \<Longrightarrow> list_all (through (Some r)) cs \<longleftrightarrow> cs = []"
  by (cases cs) (simp_all add: through_def)

lemma through_open: "list_all (through (Some r)) cs \<Longrightarrow> list_all (on_socket (fd r)) cs"
  by (induction cs) (simp_all add: through_def)

lemma shutdown_raw:
  "rawSender d = None \<Longrightarrow> raw_part (shutdown c d) = (None, calls d)"
  "rawSender d = Some \<lparr>fd = n\<rparr> \<Longrightarrow> 0 \<le> n \<Longrightarrow> raw_part (shutdown c d) = (Some \<lparr>fd = - 1\<rparr>, calls d @ [SysClose n])"
  by (simp_all add: shutdown_def Close_def raw_part_def calls_def emit_def emit_all_def List.map_filter_def)

text \<open>
  C15. The raw socket is opened once, used only while it is open, and closed once. When main returns
  after a signal, whatever happened before and whatever the remaining goroutines do between the
  close and the end of the process, the system calls on the socket are: in split mode without the
  probe option, the calls that open it, marks and sends on that descriptor, and one close at the
  end; in every other configuration none.
\<close>

theorem raw_socket_life:
  assumes "startup seeded f e = Inr (cfg, q, wl, d0)" "socket_result e = Inr n" "0 \<le> n"
    and "main seeded f e True before c between after = Some (Returned d)"
  shows "if Action cfg = ''split'' \<and> \<not> SplitProbe cfg
     then \<exists>sends. calls d = [SysSocket, SysSetHdrIncl n] @ sends @ [SysClose n] \<and> list_all (on_socket n) sends
     else calls d = []"
proof -
  obtain d1 d2 where r: "run_labels cfg wl before d0 = Some d1" "run_labels cfg wl between (shutdown c d1) = Some d2"
      "run_labels cfg wl after (emit CloseQueue d2) = Some d"
    using assms(1,4) by (auto simp: main_def split: bind_splits)
  note s = startup_socket [OF assms(1,2)]
  obtain cs where cs: "rawSender d1 = rawSender d0" "calls d1 = calls d0 @ cs" "list_all (through (rawSender d0)) cs"
    using run_extends [OF r(1)] by (auto simp: grown_def raw_part_def)
  have tail: "extends (shutdown c d1) d"
    using grown_trans [OF run_extends [OF r(2)]] run_extends [OF r(3)] by simp
  show ?thesis
  proof (cases "Action cfg = ''split'' \<and> \<not> SplitProbe cfg")
    case True
    then have o: "rawSender d0 = Some \<lparr>fd = n\<rparr>" "calls d0 = [SysSocket, SysSetHdrIncl n]" using s by simp_all
    then have "calls d = calls d0 @ cs @ [SysClose n]"
      using tail shutdown_raw(2) [of d1 n c] cs assms(3) by (auto simp: grown_def raw_part_def through_closed)
    then show ?thesis using True o cs(3) through_open by fastforce
  next
    case False
    then show ?thesis
      using s tail shutdown_raw(1) [of d1 c] cs by (auto simp: grown_def raw_part_def)
  qed
qed

text \<open>One packet is split and the signal arrives before its second segment is sent: the send meets the closed socket.\<close>

definition example_payload_attr :: attribute where
  "example_payload_attr = \<lparr>attr_PacketID = Some 7,
     attr_Payload = Some (encode (example_packet 0x18 [97, 98, 99, 100, 101, 102])), attr_Mark = None\<rparr>"

lemma example_main:
  "\<exists>cfg d0 d. startup example_seeded example_split_flags example_startup_env = Inr (cfg, 443, \<lparr>nets = []\<rparr>, d0)
     \<and> Action cfg = ''split'' \<and> \<not> SplitProbe cfg
     \<and> main example_seeded example_split_flags example_startup_env True [LPacket example_payload_attr (example_env 5)] None
         [LSecondSend 0 None None] [] = Some (Returned d)"
proof -
  obtain cfg d0 where c: "startup example_seeded example_split_flags example_startup_env = Inr (cfg, 443, \<lparr>nets = []\<rparr>, d0)"
      "Packet cfg = ''payload''" "\<not> SkipMarkEnabled cfg" "SplitAt cfg = 1" "PassWindow cfg = 0" "\<not> FakeBadChecksum cfg"
      "\<not> SplitReverse cfg" "\<not> SplitProbe cfg" "splitSeen d0 = Map.empty"
    using example_split_startup by blast
  have a: "Action cfg = ''split''"
    using startup_valid [OF c(1)] fair_rng_sconst [of "- 1"] c(2) by (simp add: example_seeded_def config_ok_def)
  let ?pkt = "encode (example_packet 0x18 [97, 98, 99, 100, 101, 102])" and ?info = "info_of (example_packet 0x18 [97, 98, 99, 100, 101, 102])"
  obtain first second where s: "SplitIPv4TCPPacket ?pkt ?info 1 = Some (Inr (first, second))"
    using Split_segments [OF example_payload_packet(1), of 1] example_payload_packet(2) by auto
  obtain d1 where d1: "handler cfg \<lparr>nets = []\<rparr> example_payload_attr (example_env 5) d0 = Some d1" "second_sends d1 \<noteq> []"
    using handler_split [OF c(2) example_payload_packet(1) _ _ c(5,6), of None d0] c s
    by (auto simp: example_payload_attr_def skip_mark_matches_def send_segments_def send_forward_def example_env_def Let_def effect_defs)
  have "second_sends (shutdown None d1) \<noteq> []"
    using d1(2) by (simp add: shutdown_def emit_def emit_all_def split: prod.split)
  then have "\<exists>d. second_send_step cfg 0 None None (shutdown None d1) = Some d"
    using second_send_total [of 0] by simp
  then show ?thesis using c(1,8) a d1(1) by (auto simp: main_def)
qed

theorem raw_socket_life_witness:
  "\<exists>d sends. main example_seeded example_split_flags example_startup_env True
       [LPacket example_payload_attr (example_env 5)] None
         [LSecondSend 0 None None] [] = Some (Returned d)
     \<and> calls d = [SysSocket, SysSetHdrIncl 5] @ sends @ [SysClose 5]"
proof -
  obtain cfg d0 d where r: "startup example_seeded example_split_flags example_startup_env = Inr (cfg, 443, \<lparr>nets = []\<rparr>, d0)"
      "Action cfg = ''split''" "\<not> SplitProbe cfg"
      "main example_seeded example_split_flags example_startup_env True [LPacket example_payload_attr (example_env 5)] None
         [LSecondSend 0 None None] [] = Some (Returned d)"
    using example_main by blast
  then show ?thesis using raw_socket_life [OF r(1) _ _ r(4), of 5] by (auto simp: example_startup_env_def)
qed

end
