(* ===== verification/Observations.thy ===== *)
theory Observations
  imports Shape_Spacing
begin

text \<open>
  Behaviours of the program that are hardly meant, each shown on one closed example: an interval of zero passes
  the validation of the flags and ends the process with a panic, a queue number beyond 16 bits is
  truncated, split mode does not look at the whitelist, a release goroutine that wakes late passes a delayed SYN less than the burst
  interval after another one, and the sweep of idle pacers forgets a client that has come back since the sweep
  looked at it. The last two show that the hypothesis of timeliness of the spacing theorem is needed.
\<close>

lemma zero_interval_panics:
  "startup example_seeded (default_flags\<lparr>f_seed := 1, f_cleanup_every := ''0''\<rparr>) example_startup_env = Inl TickerPanic"
  "startup example_seeded (default_flags\<lparr>f_seed := 1, f_stats_every := ''0''\<rparr>) example_startup_env = Inl TickerPanic"
  by (simp_all add: startup_def parse_defaults Let_def NewAlgorithm_def NewWhitelist_def example_startup_env_def open_raw_sender_def)

lemma queue_number_truncated:
  "\<exists>cfg wl d. startup example_seeded (default_flags\<lparr>f_seed := 1, f_queue := 65979\<rparr>) example_startup_env = Inr (cfg, 443, wl, d)
     \<and> QueueNum cfg = 65979"
  by (simp add: startup_def parse_defaults Let_def NewAlgorithm_def NewWhitelist_def example_startup_env_def open_raw_sender_def)

lemma payload_ignores_whitelist:
  "Packet cfg = ''payload'' \<Longrightarrow> handler cfg wl a e d = handler cfg wl' a e d"
  by (simp add: handler_def split: option.split)

subsection \<open>A late release\<close>

text \<open>A SYN of the same client on another connection.\<close>

definition other_packet :: tcp_packet where
  "other_packet = (example_packet 0x02 [])\<lparr>seq_no := 2000\<rparr>"

definition other_syn :: "u32 \<Rightarrow> attribute" where
  "other_syn pid = \<lparr>attr_PacketID = Some pid, attr_Payload = Some (encode other_packet), attr_Mark = None\<rparr>"

lemma other_syn_parses:
  assumes "Packet cfg = ''syn''"
  shows "match_packet cfg (encode other_packet) = Some (Some (''192.0.2.10'',
     \<lparr>ClientIP = ''192.0.2.10'', ClientPort = 443, ServerPort = 50123, pi_Seq = 2000, pi_Ack = 0\<rparr>))"
proof -
  have "addr_string (192, 0, 2, 10) = ''192.0.2.10''"
    by (simp add: IPv4_String_def print_base.simps digit_def char_of_def bit_0)
  moreover have "wf_packet other_packet" 
    by (simp add: wf_packet_def other_packet_def example_packet_def total_len_def ip_hlen_def tcp_hlen_def)
  ultimately show ?thesis
    using assms ParseSYN_encode [of other_packet] by (simp add: match_packet_def other_packet_def example_packet_def)
qed

text \<open>
  The first SYN of the client passes at 1 s. The second one is delayed by 60 ms but its goroutine
  wakes 20 ms late; in between, a SYN of another connection finds the interval over and passes at
  1.105 s. The delayed SYN passes 15 ms later, well inside the burst interval of 100 ms.
\<close>

lemma late_release_breaks_spacing:
  "\<exists>cfg d0 d ls. started example_seeded example_flags example_startup_env cfg \<lparr>nets = []\<rparr> d0
     \<and> Action cfg = ''shape'' \<and> BurstInterval cfg = 100000000 \<and> BurstInterval cfg \<le> CleanupAfter cfg
     \<and> daemon_run cfg \<lparr>nets = []\<rparr> d0 ls d
     \<and> pass_times cfg \<lparr>nets = []\<rparr> ''192.0.2.10'' (trace_of cfg \<lparr>nets = []\<rparr> ls d0) = [1000000000, 1105000000, 1120000000]"
proof -
  obtain cfg d0 d1 d2 where st: "started example_seeded example_flags example_startup_env cfg \<lparr>nets = []\<rparr> d0"
     and c: "Packet cfg = ''syn''" "Action cfg = ''shape''" "\<not> Verbose cfg" "\<not> SkipMarkEnabled cfg" "BurstInterval cfg = 100000000"
       "BurstInterval cfg \<le> CleanupAfter cfg"
     and d0: "releases d0 = []"
     and d1: "handler cfg \<lparr>nets = []\<rparr> (example_syn 1) (example_env 1000000000) d0 = Some d1" "\<not> was_refused d1" "releases d1 = []"
     and d2: "handler cfg \<lparr>nets = []\<rparr> (example_syn 2) (example_env 1040000000) d1 = Some d2" "releases d2 = [example_release]"
       "shapePendingFlows d2 = [rt_key example_release \<mapsto> True]" "burstPacerByIP d2 = [''192.0.2.10'' \<mapsto> 0]"
       "pacers d2 0 = \<lparr>LastRelease = 1000000000, pacer_LastSeen = 1040000000, Pending = True\<rparr>"
    using example_two_syns by blast
  obtain d3 where d3: "handler cfg \<lparr>nets = []\<rparr> (other_syn 3) (example_env 1105000000) d2 = Some d3" "releases d3 = [example_release]"
      "last (outputs d3) = SetVerdict 3 NfAccept"
    using c d2(2-5) by (simp add: example_handler_eval other_syn_def other_syn_parses example_release_def)
  obtain d4 where d4: "release_step cfg 0 1120000000 d3 = Some d4"
    using d3(2) by (simp add: release_step_def Let_def example_release_def)
  let ?ls = "example_labels @ [LPacket (other_syn 3) (example_env 1105000000), LRelease 0 1120000000]"
  have tr: "trace_of cfg \<lparr>nets = []\<rparr> ?ls d0 = [(d0, LPacket (example_syn 1) (example_env 1000000000), d1),
      (d1, LPacket (example_syn 2) (example_env 1040000000), d2), (d2, LPacket (other_syn 3) (example_env 1105000000), d3),
      (d3, LRelease 0 1120000000, d4)]"
    and run: "daemon_run cfg \<lparr>nets = []\<rparr> d0 ?ls d4"
    using d1(1) d2(1) d3(1) d4 by (simp_all add: example_labels_def daemon_run_iff)
  have "matched_client cfg (LPacket (other_syn n) e) = Some ''192.0.2.10''" for n e
    using c(1) by (simp add: matched_client_def other_syn_def other_syn_parses)
  moreover have "\<not> was_refused d3" using d3(3) by (simp add: was_refused_def)
  ultimately have "pass_times cfg \<lparr>nets = []\<rparr> ''192.0.2.10'' (trace_of cfg \<lparr>nets = []\<rparr> ?ls d0) = [1000000000, 1105000000, 1120000000]"
    using c(1,4) d0 d1(2,3) d2(2) d3(2) unfolding tr
    by (simp add: pass_times_def pass_time_def List.map_filter_def skip_mark_matches_def example_env_def example_release_def
        example_syn_matched)
  then show ?thesis using st run c(2,5,6) by blast
qed

subsection \<open>A client that comes back during a sweep\<close>

text \<open>
  The first SYN passes at 1 s. At 700 s a sweep finds the pacer idle for longer than 600 s. Before it
  deletes the pacer, a SYN passes at 700 s and makes the pacer fresh; it is deleted nevertheless, and a
  third SYN passes 50 ms later with a new pacer, within the burst interval of 100 ms.
\<close>

lemma sweep_race_breaks_spacing:
  "\<exists>cfg d ls d0. started example_seeded example_flags example_startup_env cfg \<lparr>nets = []\<rparr> d0
     \<and> BurstInterval cfg = 100000000 \<and> BurstInterval cfg \<le> CleanupAfter cfg
     \<and> daemon_run cfg \<lparr>nets = []\<rparr> d0 ls d
     \<and> settled_ids (outputs d) = [1, 2, 3] \<and> releases d = []
     \<and> ls = [LPacket (example_syn 1) (example_env 1000000000), LShapeTick 700000000000 [''192.0.2.10''], LShapeStep,
          LPacket (example_syn 2) (example_env 700000000000), LShapeStep, LPacket (example_syn 3) (example_env 700050000000)]"
proof -
  obtain cfg d0 where s: "startup example_seeded example_flags example_startup_env = Inr (cfg, 443, \<lparr>nets = []\<rparr>, d0)"
     and c: "Packet cfg = ''syn''" "Action cfg = ''shape''" "\<not> Verbose cfg" "\<not> SkipMarkEnabled cfg"
       "MaxPendingDelays cfg = 0" "BurstInterval cfg = 100000000" "BurstMaxDelay cfg = 1000000000" "CleanupAfter cfg = 600000000000"
     and d: "burstPacerByIP d0 = Map.empty" "shapePendingFlows d0 = Map.empty" "releases d0 = []"
       "next_pacer d0 = 0" "settled_ids (outputs d0) = []" "shapeSweep d0 = None"
    using example_startup by blast
  have st: "started example_seeded example_flags example_startup_env cfg \<lparr>nets = []\<rparr> d0"
    using s c(5) fair_rng_sconst [of "- 1"] by (simp add: started_def example_seeded_def)
  obtain d1 where d1: "handler cfg \<lparr>nets = []\<rparr> (example_syn 1) (example_env 1000000000) d0 = Some d1"
      "burstPacerByIP d1 = [''192.0.2.10'' \<mapsto> 0]" "pacers d1 0 = \<lparr>LastRelease = 1000000000, pacer_LastSeen = 1000000000, Pending = False\<rparr>"
      "shapePendingFlows d1 = Map.empty" "releases d1 = []" "next_pacer d1 = 1" "settled_ids (outputs d1) = [1]" "shapeSweep d1 = None"
    using c d by (simp add: example_handler_eval)
  obtain d2 where d2: "run_labels cfg \<lparr>nets = []\<rparr> [LShapeTick 700000000000 [''192.0.2.10''], LShapeStep] d1 = Some d2"
      "shapeSweep d2 = Some \<lparr>sweep_now = 700000000000, sweep_todo = [], sweep_removed = 0, sweep_stale = Some ''192.0.2.10''\<rparr>"
      "burstPacerByIP d2 = [''192.0.2.10'' \<mapsto> 0]" "pacers d2 0 = \<lparr>LastRelease = 1000000000, pacer_LastSeen = 1000000000, Pending = False\<rparr>"
      "shapePendingFlows d2 = Map.empty" "releases d2 = []" "next_pacer d2 = 1" "settled_ids (outputs d2) = [1]"
    using d1(2-) c(8) by (simp add: shapeCleanup_tick_def shapeCleanup_step_def pacer_stale_def time_IsZero_def time_Sub_def)
  obtain d3 where d3: "handler cfg \<lparr>nets = []\<rparr> (example_syn 2) (example_env 700000000000) d2 = Some d3"
      "shapeSweep d3 = shapeSweep d2" "shapePendingFlows d3 = Map.empty" "releases d3 = []" "settled_ids (outputs d3) = [1, 2]"
      "burstPacerByIP d3 = [''192.0.2.10'' \<mapsto> 0]" "next_pacer d3 = 1"
    using c d2(2-) by (simp add: example_handler_eval)
  obtain d4 where d4: "shapeCleanup_step cfg d3 = Some d4" "burstPacerByIP d4 = Map.empty" "shapePendingFlows d4 = Map.empty"
      "releases d4 = []" "settled_ids (outputs d4) = [1, 2]" "next_pacer d4 = 1"
    using d3(2-) d2(2) by (simp add: shapeCleanup_step_def)
  obtain d5 where d5: "handler cfg \<lparr>nets = []\<rparr> (example_syn 3) (example_env 700050000000) d4 = Some d5"
      "releases d5 = []" "settled_ids (outputs d5) = [1, 2, 3]"
    using c d4(2-) by (simp add: example_handler_eval)
  let ?ls = "[LPacket (example_syn 1) (example_env 1000000000), LShapeTick 700000000000 [''192.0.2.10''], LShapeStep,
      LPacket (example_syn 2) (example_env 700000000000), LShapeStep, LPacket (example_syn 3) (example_env 700050000000)]"
  have "run_labels cfg \<lparr>nets = []\<rparr> ?ls d0 = Some d5"
    using d1(1) d2(1) d3(1) d4(1) d5(1) by (auto split: bind_splits)
  then have "daemon_run cfg \<lparr>nets = []\<rparr> d0 ?ls d5" by (simp only: daemon_run_iff)
  then show ?thesis using st c(6,8) d5(2,3) by (intro exI [of _ cfg] exI [of _ d5] exI [of _ ?ls] exI [of _ d0]) simp
qed

end
