(* ===== verification/Spec2Isabelle.thy ===== *)
theory Spec2Isabelle
  imports Run_Limits Split_Mode Shape_Spacing Progress Usage_Text Shutdown Observations
begin

text \<open>
  A verification library for nfqcooldown, a Linux daemon that receives TCP packets from an NFQUEUE
  and, per client, drops them within a cooldown (drop mode), delays them (shape mode) or splits
  their payload into two segments (split mode).

  \<^bold>\<open>The program.\<close> \<open>src/internal\<close> holds the parts: the cooldown algorithms and their random durations
  (\<open>algorithm.go\<close>), the SYN and SYN-ACK parsers (\<open>parser.go\<close>), the payload parser and the splitter
  (\<open>payload.go\<close>), the client table (\<open>state.go\<close>), the counters (\<open>stats.go\<close>), the whitelist
  (\<open>whitelist.go\<close>) and the raw socket (\<open>raw_linux.go\<close>, \<open>raw_other.go\<close>). \<open>src/cmd/nfqcooldown/main.go\<close>
  puts them together: the command line, the startup, the handler the netlink library calls for each
  packet, the goroutines the handler starts (one that releases a delayed packet, one that sends the
  second segment of a split) and the periodic loops (cleanup of the client table, of the pacers, of
  the remembered segments and of the pass windows; statistics).

  \<^bold>\<open>Conventions.\<close> A Go unsigned integer is a word of its width; an int, a duration and a time is an
  integer, with \<open>wrap64\<close> where an operation can leave 64 bits. An operation that can panic returns an
  option, and \<open>None\<close> is the panic or, for a draw from the random source, a loop that does not return.
  An error result is the left side of a sum. What the program asks of its environment is an argument:
  the clock, the results of system calls and verdicts and the random bytes (records \<open>env\<close> and
  \<open>startup_env\<close>), and the stream of the random source, of which the theorems assume that every suffix
  has a draw the sampler accepts (\<open>fair_rng\<close>). What it does to its environment is the list \<open>outputs\<close> of
  the state. Fields and functions have the names of the source; a name that another record or HOL
  already uses has a prefix.
\<close>

text \<open>
  \<^bold>\<open>The theories and the code they model.\<close>

  \<^item> \<open>Prelude\<close>: machine types, checked slices, durations and times. \<open>Go_Text\<close>, \<open>Go_Parse\<close>, \<open>Net_Addr\<close>: the
    functions of the packages strings, strconv, time and net that the sources call.
  \<^item> \<open>Algorithm\<close>: \<open>algorithm.go\<close>. The locale \<open>cooldown_algorithm\<close> is the contract of the interface
    Algorithm; it is interpreted by \<open>Next\<close>, and the client table relies on it.
  \<^item> \<open>Checksum\<close>: the two checksum routines. The locale \<open>internet_checksum\<close> is interpreted by both.
  \<^item> \<open>Packet_Format\<close>: a printer of packets, the reference for the parsers; \<open>Parser\<close>: \<open>parser.go\<close>;
    \<open>Payload\<close>, \<open>Payload_Split\<close>: \<open>payload.go\<close>; \<open>Fake_Packet\<close>: the fake packets of \<open>main.go\<close>.
  \<^item> \<open>Stats\<close>, \<open>Client_State\<close>, \<open>Whitelist\<close>, \<open>Raw_Sender\<close>: \<open>stats.go\<close>, \<open>state.go\<close>, \<open>whitelist.go\<close>, \<open>raw_linux.go\<close> and
    \<open>raw_other.go\<close>; \<open>Split_Window\<close>: \<open>splitPayloadWindowState\<close> of \<open>main.go\<close>.
  \<^item> \<open>Config\<close>: \<open>parseConfig\<close> from the flag values; \<open>Command_Line\<close>: the flag declarations, flag.Parse on
    them and \<open>parseConfig\<close> from the arguments; \<open>Usage_Text\<close>: \<open>printUsage\<close>; \<open>Printing\<close>: the startup and
    statistics lines.
  \<^item> \<open>Daemon\<close>: the state shared in \<open>main\<close> (record \<open>daemon\<close>) and the handler; \<open>Daemon_Steps\<close>: the goroutines,
    the loops, the startup, and the runs as sequences of labelled steps; \<open>Shutdown\<close>: the registration
    of the handler, the deferred calls and the return of \<open>main\<close>.
  \<^item> \<open>Handler_Proofs\<close>, \<open>Daemon_Invariant\<close>, \<open>Daemon_Properties\<close>, \<open>Run_Invariants\<close>, \<open>Run_Limits\<close>, \<open>Drop_Mode\<close>,
    \<open>Split_Mode\<close>, \<open>Shape_Spacing\<close>, \<open>Progress\<close>: the proofs about the handler and the runs. The locale
    \<open>split_frame\<close> collects what split mode leaves alone and is interpreted for each part of the state a
    proof follows; the locale \<open>run_invariant\<close> is the contract of an invariant over the history of a run
    and is interpreted by every such invariant. \<open>Daemon_Example\<close> evaluates the runs the witnesses use,
    \<open>Observations\<close> the examples of unexpected behaviour.

  \<^bold>\<open>Concurrency.\<close> A run is any sequence of labelled steps, so the theorems about runs hold for every
  interleaving of them. The netlink library calls the handler from one goroutine, so one invocation is one
  step, with one exception: the drop action calls the client table several times, each time
  under its lock, and the ticks of \<open>cleanupLoop\<close> that fall between \<open>Decide\<close> and \<open>IncDrop\<close> and after \<open>IncDrop\<close> are part of
  the invocation's environment (\<open>cleanups_decided\<close>, \<open>cleanups_counted\<close>). The release goroutine is cut at each
  operation on shared state; the goroutine of a second segment between a failed send and the deletion of
  its key; the sweeps of the pacers and of the remembered segments between the visits of their entries and
  between the test of an entry and its deletion. A tick of \<open>cleanupLoop\<close>, of the pass-window loop and of \<open>statsLoop\<close>, a
  call on the client table (under its mutex) and a send (under the mutex of the sender) are atomic. A pacer is
  shared through a pointer and is an address of the store \<open>pacers\<close>.
\<close>

text \<open>
  \<^bold>\<open>What is proved.\<close>

  \<^item> Of every run: each packet is settled exactly once; no step panics; the counters, the pending
    flows and the number of pending delays agree with the goroutines; a delayed packet whose delay is
    over is released by its goroutine, whatever runs in between; the sweeps of the pacers end; delays are bounded
    if a limit is set; the raw socket is opened, used and closed in order, and only in split mode.
  \<^item> Of drop mode: the verdict and the table update on every branch, cleanups between the locked calls
    included, the cooldown between two accepted packets, the limit on consecutive drops, which such a cleanup can exceed
    by one. Of shape mode: the burst interval between two packets of
    a client in a run where releases are on time (\<open>timely\<close>); \<open>Observations\<close> shows that this is needed.
    Of split mode: two valid segments carry exactly the payload, in both orders, and no packet is split
    twice in a run that spares its keys (\<open>spares\<close>: no failed send, no sweep after the remembered time).
  \<^item> Of the parts: the parsers are total and inverse to the printer; the checksum is that of RFC 1071;
    the sampler is unbiased and the algorithms keep to their intervals; the table invariant; the
    whitelist agrees with prefix matching; the pass window refines fixed windows; a parsed configuration
    is consistent; settings survive the command line, and what follows a positional argument is ignored; the
    usage text matches the flags.

  \<^bold>\<open>Loops and bounds.\<close> Every loop is a total function except the rejection sampler, a
  \<open>partial_function\<close>, for which a fair source gives a result. The 32-bit accumulator of the checksum is
  exact up to 131072 bytes, more than an IP packet has. Counters wrap at 64 bits and the theorems about
  them are modulo 2^64.

  \<^bold>\<open>Not modelled.\<close> The nfqueue and netlink libraries (their calls are effects, their results are
  arguments) with the error hook that only prints; the text of a verbose log line after its tag;
  interleavings inside one handler invocation other than those named above; the packets the handler may
  still be given before a loop with an interval of zero panics; the moment at which a loop sees the cancelled context:
  after the signal any step may or may not still happen.
\<close>

end
